(* ===== verification/Prelude.thy ===== *)
theory Prelude
  imports Main "HOL-Library.Word"
begin

text \<open>
  Shared vocabulary of the development: the fixed-width C integers, the errno values the code
  returns, C's conversion of a size to an \<open>int\<close>, the byte copy \<open>memcpy\<close> on lists, and the generic
  list and word lemmas the component theories use.

  Conventions of every theory:
  \<^item> a C function that returns a status returns an \<open>int\<close> here, with the code's own numbers
    (negative errno, negative libusb error, or a count), so that every comparison of the source is
    the same comparison in the model;
  \<^item> a pointer that the code compares with NULL is an \<open>option\<close>;
  \<^item> errno numbers are those of Linux.
\<close>

unbundle bit_operations_syntax

type_synonym u8 = "8 word"
type_synonym u16 = "16 word"
type_synonym u32 = "32 word"
type_synonym u64 = "64 word"
type_synonym bytes = "8 word list"

named_theorems ret_code "facts on the return codes of modelled functions"
named_theorems wire_bound "facts on which requests a modelled function issues"

subsection \<open>Error numbers\<close>

abbreviation EIO :: int where "EIO \<equiv> 5"
abbreviation ENXIO :: int where "ENXIO \<equiv> 6"
abbreviation E2BIG :: int where "E2BIG \<equiv> 7"
abbreviation ENOENT :: int where "ENOENT \<equiv> 2"
abbreviation ENOMEM :: int where "ENOMEM \<equiv> 12"
abbreviation EBUSY :: int where "EBUSY \<equiv> 16"
abbreviation ENODEV :: int where "ENODEV \<equiv> 19"
abbreviation EINVAL :: int where "EINVAL \<equiv> 22"
abbreviation ENOSPC :: int where "ENOSPC \<equiv> 28"
abbreviation ENOSYS :: int where "ENOSYS \<equiv> 38"
abbreviation EOPNOTSUPP :: int where "EOPNOTSUPP \<equiv> 95"
abbreviation ENOTSUP :: int where "ENOTSUP \<equiv> 95"
abbreviation ETIMEDOUT :: int where "ETIMEDOUT \<equiv> 110"

abbreviation LIBUSB_ERROR_INVALID_PARAM :: int where "LIBUSB_ERROR_INVALID_PARAM \<equiv> -2"
abbreviation LIBUSB_ERROR_NO_DEVICE :: int where "LIBUSB_ERROR_NO_DEVICE \<equiv> -4"
abbreviation LIBUSB_ERROR_NOT_FOUND :: int where "LIBUSB_ERROR_NOT_FOUND \<equiv> -5"
abbreviation LIBUSB_ERROR_BUSY :: int where "LIBUSB_ERROR_BUSY \<equiv> -6"
abbreviation LIBUSB_ERROR_TIMEOUT :: int where "LIBUSB_ERROR_TIMEOUT \<equiv> -7"
abbreviation LIBUSB_ERROR_OTHER :: int where "LIBUSB_ERROR_OTHER \<equiv> -99"

subsection \<open>Conversions and copies of C\<close>

text \<open>\<open>(int)n\<close> for a \<open>size_t n\<close>: the low 32 bits read as two's complement.\<close>

definition c_int :: "nat \<Rightarrow> int" where
  "c_int n = sint (word_of_nat n :: 32 word)"

lemma c_int_small [simp]: "n < 2147483648 \<Longrightarrow> c_int n = int n"
  unfolding c_int_def
  by (simp add: signed_of_nat signed_take_bit_int_eq_self)

text \<open>\<open>memcpy(dst + off, src, n)\<close> on byte lists.\<close>

definition memcpy_at :: "'a list \<Rightarrow> nat \<Rightarrow> 'a list \<Rightarrow> nat \<Rightarrow> 'a list" where
  "memcpy_at dst off src n = take off dst @ take n src @ drop (off + n) dst"

lemma length_memcpy_at [simp]:
  "off + n \<le> length dst \<Longrightarrow> n \<le> length src \<Longrightarrow> length (memcpy_at dst off src n) = length dst"
  by (simp add: memcpy_at_def)

lemma nth_memcpy_at:
  assumes "off + n \<le> length dst" "n \<le> length src" "i < length dst"
  shows "memcpy_at dst off src n ! i
           = (if off \<le> i \<and> i < off + n then src ! (i - off) else dst ! i)"
  using assms by (auto simp: memcpy_at_def nth_append)

lemma memcpy_at_zero [simp]: "memcpy_at dst off src 0 = dst"
  by (simp add: memcpy_at_def)

lemma take_memcpy_at:
  "off \<le> length dst \<Longrightarrow> n \<le> length src \<Longrightarrow>
     take (off + n) (memcpy_at dst off src n) = take off dst @ take n src"
  by (simp add: memcpy_at_def)

lemma memcpy_at_start: "memcpy_at dst 0 src n = take n src @ drop n dst"
  by (simp add: memcpy_at_def)

text \<open>A lower-case hexadecimal digit, and \<open>%x\<close> padded with zeros to a width.\<close>

definition hex_char :: "nat \<Rightarrow> char" where
  "hex_char d = char_of (if d < 10 then d + 48 else d + 87)"

fun hex_string :: "nat \<Rightarrow> string" where
  "hex_string n = (if n < 16 then [hex_char n] else hex_string (n div 16) @ [hex_char (n mod 16)])"

declare hex_string.simps [simp del]

definition hex_padded :: "nat \<Rightarrow> nat \<Rightarrow> string" where
  "hex_padded k n = replicate (k - length (hex_string n)) CHR ''0'' @ hex_string n"

text \<open>\<open>%u\<close>.\<close>

definition dec_digit :: "nat \<Rightarrow> char" where
  "dec_digit d = char_of (d + 48)"

fun dec_string :: "nat \<Rightarrow> string" where
  "dec_string n = (if n < 10 then [dec_digit n] else dec_string (n div 10) @ [dec_digit (n mod 10)])"

declare dec_string.simps [simp del]

subsection \<open>Arithmetic of indices modulo a capacity\<close>

lemma mod_add_wrap:
  fixes h k c :: nat
  assumes "h < c" "k \<le> c"
  shows "(h + k) mod c = (if h + k < c then h + k else h + k - c)"
  using assms by (auto simp: mod_if)

lemma mod_less_cap [simp]: "0 < (c::nat) \<Longrightarrow> x mod c < c"
  by simp

subsection \<open>Bit masks\<close>

text \<open>The read-modify-write of a register: bits of \<open>m\<close> from \<open>v\<close>, the others from \<open>x\<close>.\<close>

definition merge_bits :: "'a::len word \<Rightarrow> 'a word \<Rightarrow> 'a word \<Rightarrow> 'a word" where
  "merge_bits x v m = (x AND NOT m) OR (v AND m)"

lemma merge_bits_in: "merge_bits x v m AND m = v AND m"
  by (rule bit_word_eqI) (auto simp: merge_bits_def bit_and_iff bit_or_iff bit_not_iff)

lemma merge_bits_out: "merge_bits x v m AND NOT m = x AND NOT m"
  by (rule bit_word_eqI) (auto simp: merge_bits_def bit_and_iff bit_or_iff bit_not_iff)

lemma merge_bits_disjoint:
  "m' AND m = 0 \<Longrightarrow> merge_bits x v m AND m' = x AND m'"
  by (rule bit_word_eqI)
     (auto simp: merge_bits_def bit_simps dest: arg_cong [where f = "\<lambda>w. bit w n" for n])

subsection \<open>Calls that may not return\<close>

lemma map_update_same: "f y = f (xs ! i) \<Longrightarrow> map f (xs[i := y]) = map f xs"
  by (metis list_update_id map_update)

lemma list_all_update: "list_all P xs \<Longrightarrow> P y \<Longrightarrow> list_all P (xs[i := y])"
  using set_update_subset_insert [of xs i y] by (auto simp: list_all_iff)

text \<open>\<open>yields P m\<close>: whatever the call returns satisfies \<open>P\<close>; its rules take a function in the option monad
  apart call by call.\<close>

definition yields :: "('a \<Rightarrow> bool) \<Rightarrow> 'a option \<Rightarrow> bool" where
  "yields P m \<longleftrightarrow> (\<forall>x. m = Some x \<longrightarrow> P x)"

lemma yieldsI: "(\<And>x. m = Some x \<Longrightarrow> P x) \<Longrightarrow> yields P m"
  by (simp add: yields_def)

lemma yieldsD: "yields P m \<Longrightarrow> m = Some x \<Longrightarrow> P x"
  by (simp add: yields_def)

lemma yields_mono: "yields P m \<Longrightarrow> (\<And>x. P x \<Longrightarrow> P' x) \<Longrightarrow> yields P' m"
  by (auto simp: yields_def)

lemma yields_simps [simp]:
  "yields P None" "yields P (Some x) \<longleftrightarrow> P x"
  "yields P (Option.bind m f) \<longleftrightarrow> yields (\<lambda>x. yields P (f x)) m"
  by (auto simp: yields_def bind_eq_Some_conv)

end
