(* ===== verification/Usb_Wire.thy ===== *)
theory Usb_Wire
  imports Prelude
begin

text \<open>
  The outside world and the synchronous half of \<open>usbq/src/usbq.c\<close>.

  libusb, the kernel, the clock and the hardware are not part of the program. What the program sees
  of them is one function, a \<open>host\<close>: from the history of requests issued so far to the response
  to the last one. A run of the program threads the history (the \<open>wire\<close>, newest request last).
  Every theorem quantifies over all hosts, so over every behaviour of the device, its failures and
  its timing; where a property relies on documented behaviour of libusb, that is a named
  hypothesis on the host (\<open>libusb_transfers\<close>).

  A request records the buffer it was given and the length it asked for, so memory safety of a
  transfer is a property of the wire: \<open>req_in_bounds\<close>.
\<close>

subsection \<open>Requests and responses\<close>

record devinfo =
  di_vid :: u16
  di_pid :: u16
  di_bus :: u8
  di_addr :: u8
  di_desc_rc :: int \<comment> \<open>what \<open>libusb_get_device_descriptor\<close> returns for it\<close>

datatype usb_req =
    Lib_Init
  | Lib_Exit
  | Device_List
  | Open_Vid_Pid u16 u16
  | Open_Device nat
  | Close_Handle nat
  | Reset_Device nat
  | Dev_Descriptor nat
  | Auto_Detach nat
  | String_Desc nat u8 int
  | Claim_Interface nat int
  | Release_Interface nat int
  | Set_Alt_Setting nat int int
  | Driver_Active nat int
  | Detach_Driver nat int
  | Control nat u8 u8 u16 u16 bytes u16 u32
      \<comment> \<open>handle, bmRequestType, bRequest, wValue, wIndex, buffer, wLength, timeout\<close>
  | Bulk nat u8 bytes nat u32 \<comment> \<open>handle, endpoint, buffer, length, timeout\<close>
  | Alloc
  | Alloc_Transfer
  | Free_Transfer nat
  | Submit_Transfer nat
  | Cancel_Transfer nat
  | Thread_Create
  | Thread_Join
  | Pipe
  | Set_Nonblock int
  | Close_Fd int
  | Write_Fd int
  | Sleep_us nat
  | Clock_ms
  | Has_Hotplug
  | Hotplug_Register
  | Hotplug_Deregister nat
  | File_Readable string

record usb_resp =
  r_rc :: int
  r_data :: bytes
  r_devs :: "devinfo list"
  r_handle :: nat \<comment> \<open>a handle, 0 for NULL\<close>
  r_fds :: "int \<times> int"

type_synonym wire = "usb_req list"
type_synonym host = "usb_req list \<Rightarrow> usb_resp"

definition ask :: "host \<Rightarrow> usb_req \<Rightarrow> wire \<Rightarrow> usb_resp \<times> wire" where
  "ask env q w = (env (w @ [q]), w @ [q])"

lemma ask_simps [simp]:
  "fst (ask env q w) = env (w @ [q])" "snd (ask env q w) = w @ [q]"
  by (simp_all add: ask_def)

definition msleep :: "nat \<Rightarrow> wire \<Rightarrow> wire" where
  "msleep ms w = (if ms = 0 then w else w @ [Sleep_us (ms * 1000)])"

lemma msleep_pos [simp]: "0 < ms \<Longrightarrow> msleep ms w = w @ [Sleep_us (ms * 1000)]"
  by (simp add: msleep_def)

lemma msleep_zero [simp]: "msleep 0 w = w"
  by (simp add: msleep_def)

subsection \<open>Memory safety of a request\<close>

fun req_in_bounds :: "usb_req \<Rightarrow> bool" where
  "req_in_bounds (Control h bm req val idx buf len t) = (unat len \<le> length buf)"
| "req_in_bounds (Bulk h ep buf len t) = (len \<le> length buf)"
| "req_in_bounds _ = True"

text \<open>A run from \<open>w\<close> to \<open>w'\<close> issued requests that stay within their buffers.\<close>

definition tidy :: "wire \<Rightarrow> wire \<Rightarrow> bool" where
  "tidy w w' \<longleftrightarrow> (\<exists>v. w' = w @ v \<and> (\<forall>q \<in> set v. req_in_bounds q))"

lemma tidy_refl [simp]: "tidy w w"
  by (simp add: tidy_def)

lemma tidy_trans: "tidy w w1 \<Longrightarrow> tidy w1 w2 \<Longrightarrow> tidy w w2"
  by (auto simp: tidy_def)

lemma tidy_step: "req_in_bounds q \<Longrightarrow> tidy w (w @ [q])"
  by (simp add: tidy_def)

lemma tidy_safe: "tidy w w' \<Longrightarrow> \<forall>q \<in> set w. req_in_bounds q \<Longrightarrow> \<forall>q \<in> set w'. req_in_bounds q"
  by (auto simp: tidy_def)

definition wire_safe :: "'d \<times> wire \<Rightarrow> bool" where
  "wire_safe s \<longleftrightarrow> (\<forall>q \<in> set (snd s). req_in_bounds q)"

subsection \<open>Documented behaviour of libusb's synchronous transfers\<close>

text \<open>A control or bulk transfer reports at most the length asked for, and an IN transfer delivers as
  many bytes as it reports.\<close>

definition libusb_transfers :: "host \<Rightarrow> bool" where
  "libusb_transfers env \<longleftrightarrow>
     (\<forall>w h bm req val idx buf len t.
        r_rc (env (w @ [Control h bm req val idx buf len t])) \<le> int (unat len)) \<and>
     (\<forall>w h ep buf len t. length (r_data (env (w @ [Bulk h ep buf len t]))) \<le> len)"

lemma libusb_control_le:
  "libusb_transfers env \<Longrightarrow> r_rc (env (w @ [Control h bm req val idx buf len t])) \<le> int (unat len)"
  by (simp add: libusb_transfers_def)

subsection \<open>Devices\<close>

record usbq_dev =
  ud_handle :: nat
  ud_vid :: u16
  ud_pid :: u16
  ud_bus :: u8
  ud_addr :: u8
  ud_auto_detach :: bool

text \<open>What an IN transfer leaves in a buffer: at most \<open>n\<close> of the delivered bytes, at its start.\<close>

definition fill_buffer :: "bytes \<Rightarrow> nat \<Rightarrow> bytes \<Rightarrow> bytes" where
  "fill_buffer buf n dat = (let d = take n (take (length buf) dat) in d @ drop (length d) buf)"

lemma length_fill_buffer [simp]: "length (fill_buffer buf n dat) = length buf"
  by (simp add: fill_buffer_def Let_def)

lemma fill_buffer_nil [simp]: "fill_buffer buf n [] = buf"
  by (simp add: fill_buffer_def)

definition usbq_control :: "host \<Rightarrow> usbq_dev option \<Rightarrow> u8 \<Rightarrow> u8 \<Rightarrow> u16 \<Rightarrow> u16 \<Rightarrow> bytes \<Rightarrow> u16 \<Rightarrow> u32
    \<Rightarrow> wire \<Rightarrow> int \<times> bytes \<times> wire" where
  "usbq_control env d bmRequestType bRequest wValue wIndex buf wLength timeout_ms w =
     (case d of
        None \<Rightarrow> (- EINVAL, buf, w)
      | Some d \<Rightarrow>
          let (r, w) = ask env (Control (ud_handle d) bmRequestType bRequest wValue wIndex buf
                                  wLength timeout_ms) w
          in (r_rc r,
              (if bit bmRequestType 7 then fill_buffer buf (unat wLength) (r_data r) else buf), w))"

definition INT32_MAX :: nat where "INT32_MAX = 2147483647"

text \<open>\<open>libusb_bulk_transfer\<close> reports the byte count through \<open>actual\<close>, also on a timeout; the model
  reads it off the delivered bytes.\<close>

definition usbq_bulk_read :: "host \<Rightarrow> usbq_dev option \<Rightarrow> u8 \<Rightarrow> bytes \<Rightarrow> nat \<Rightarrow> u32 \<Rightarrow> wire
    \<Rightarrow> int \<times> bytes \<times> wire" where
  "usbq_bulk_read env d ep buf len timeout_ms w =
     (case d of
        None \<Rightarrow> (- EINVAL, buf, w)
      | Some d \<Rightarrow>
          if len > INT32_MAX then (LIBUSB_ERROR_INVALID_PARAM, buf, w)
          else
            let (r, w) = ask env (Bulk (ud_handle d) ep buf len timeout_ms) w;
                buf = fill_buffer buf len (r_data r)
            in if r_rc r < 0 \<and> r_rc r \<noteq> LIBUSB_ERROR_TIMEOUT then (r_rc r, buf, w)
               else (int (length (r_data r)), buf, w))"

definition usbq_bulk_write :: "host \<Rightarrow> usbq_dev option \<Rightarrow> u8 \<Rightarrow> bytes \<Rightarrow> nat \<Rightarrow> u32 \<Rightarrow> wire
    \<Rightarrow> int \<times> wire" where
  "usbq_bulk_write env d ep buf len timeout_ms w =
     (case d of
        None \<Rightarrow> (- EINVAL, w)
      | Some d \<Rightarrow>
          if len > INT32_MAX then (LIBUSB_ERROR_INVALID_PARAM, w)
          else
            let (r, w) = ask env (Bulk (ud_handle d) ep buf len timeout_ms) w
            in if r_rc r < 0 \<and> r_rc r \<noteq> LIBUSB_ERROR_TIMEOUT then (r_rc r, w)
               else (int (length (r_data r)), w))"

subsection \<open>Interface management and descriptor accessors\<close>

definition usbq_get_vidpid :: "usbq_dev option \<Rightarrow> int \<times> (u16 \<times> u16) option" where
  "usbq_get_vidpid d = (case d of None \<Rightarrow> (- EINVAL, None) | Some d \<Rightarrow> (0, Some (ud_vid d, ud_pid d)))"

definition usbq_get_bus_devaddr :: "usbq_dev option \<Rightarrow> int \<times> (u8 \<times> u8) option" where
  "usbq_get_bus_devaddr d =
     (case d of None \<Rightarrow> (- EINVAL, None) | Some d \<Rightarrow> (0, Some (ud_bus d, ud_addr d)))"

definition usbq_close :: "usbq_dev option \<Rightarrow> wire \<Rightarrow> wire" where
  "usbq_close d w = (case d of None \<Rightarrow> w | Some d \<Rightarrow> w @ [Close_Handle (ud_handle d)])"

definition usbq_reset :: "host \<Rightarrow> usbq_dev option \<Rightarrow> wire \<Rightarrow> int \<times> wire" where
  "usbq_reset env d w =
     (case d of None \<Rightarrow> (- EINVAL, w)
      | Some d \<Rightarrow> let (r, w) = ask env (Reset_Device (ud_handle d)) w in (r_rc r, w))"

definition usbq_claim_interface :: "host \<Rightarrow> usbq_dev option \<Rightarrow> int \<Rightarrow> wire \<Rightarrow> int \<times> wire" where
  "usbq_claim_interface env d iface w =
     (case d of None \<Rightarrow> (- EINVAL, w)
      | Some d \<Rightarrow> let (r, w) = ask env (Claim_Interface (ud_handle d) iface) w in (r_rc r, w))"

definition usbq_release_interface :: "host \<Rightarrow> usbq_dev option \<Rightarrow> int \<Rightarrow> wire \<Rightarrow> int \<times> wire" where
  "usbq_release_interface env d iface w =
     (case d of None \<Rightarrow> (- EINVAL, w)
      | Some d \<Rightarrow> let (r, w) = ask env (Release_Interface (ud_handle d) iface) w in (r_rc r, w))"

definition usbq_set_interface :: "host \<Rightarrow> usbq_dev option \<Rightarrow> int \<Rightarrow> int \<Rightarrow> wire \<Rightarrow> int \<times> wire" where
  "usbq_set_interface env d iface alt w =
     (case d of None \<Rightarrow> (- EINVAL, w)
      | Some d \<Rightarrow> let (r, w) = ask env (Set_Alt_Setting (ud_handle d) iface alt) w in (r_rc r, w))"

definition usbq_disconnect_kernel_driver :: "host \<Rightarrow> usbq_dev option \<Rightarrow> wire \<Rightarrow> int \<times> wire" where
  "usbq_disconnect_kernel_driver env d w =
     (case d of
        None \<Rightarrow> (- EINVAL, w)
      | Some d \<Rightarrow>
          if ud_auto_detach d then (0, w)
          else
            let (r, w) = ask env (Driver_Active (ud_handle d) 0) w
            in if r_rc r = 1
               then let (r, w) = ask env (Detach_Driver (ud_handle d) 0) w in (r_rc r, w)
               else (0, w))"

text \<open>The three descriptor probes.\<close>

definition usbq_get_device_descriptor :: "host \<Rightarrow> usbq_dev option \<Rightarrow> bytes \<Rightarrow> nat \<Rightarrow> wire
    \<Rightarrow> int \<times> bytes \<times> wire" where
  "usbq_get_device_descriptor env d out len w =
     (case d of None \<Rightarrow> (- EINVAL, out, w)
      | Some _ \<Rightarrow> usbq_control env d 0x80 0x06 0x0100 0 out (word_of_nat len) 1000 w)"

definition usbq_get_configspace :: "host \<Rightarrow> usbq_dev option \<Rightarrow> bytes \<Rightarrow> nat \<Rightarrow> wire
    \<Rightarrow> int \<times> bytes \<times> wire" where
  "usbq_get_configspace env d out len w =
     (case d of None \<Rightarrow> (- EINVAL, out, w)
      | Some _ \<Rightarrow> usbq_control env d 0x80 0x06 0x0200 0 out (word_of_nat len) 1000 w)"

definition usbq_get_string_descriptor_ascii :: "host \<Rightarrow> usbq_dev option \<Rightarrow> u8 \<Rightarrow> bytes \<Rightarrow> nat \<Rightarrow> wire
    \<Rightarrow> int \<times> bytes \<times> wire" where
  "usbq_get_string_descriptor_ascii env d index out len w =
     (case d of
        None \<Rightarrow> (- EINVAL, out, w)
      | Some d \<Rightarrow>
          if len = 0 then (LIBUSB_ERROR_INVALID_PARAM, out, w)
          else if index = 0 then (0, out[0 := 0], w)
          else
            let (r, w) = ask env (String_Desc (ud_handle d) index (c_int len)) w;
                out = fill_buffer out len (r_data r)
            in (r_rc r, (if r_rc r < 0 then out[0 := 0] else out), w))"

end
