(* ===== verification/Usbq_Lib.thy ===== *)
theory Usbq_Lib
  imports Usb_Wire
begin

text \<open>
  The library half of \<open>usbq/src/usbq.c\<close>: the init reference count, \<open>parse_vidpid\<close>, opening a device
  by VID:PID or by address, enumeration, and the reference count of the event thread. The globals
  \<open>g_ctx\<close>, \<open>g_init_refcount\<close> and \<open>g_evt\<close> are one record, threaded through.
\<close>

record usbq_lib =
  g_ctx :: bool                \<comment> \<open>\<open>g_ctx != NULL\<close>\<close>
  g_init_refcount :: int
  evt_refcount :: int
  evt_alive :: bool
  evt_stop :: bool

definition usbq_lib_start :: usbq_lib where
  "usbq_lib_start = \<lparr>g_ctx = False, g_init_refcount = 0, evt_refcount = 0, evt_alive = False,
                     evt_stop = False\<rparr>"

subsection \<open>Library lifecycle\<close>

definition usbq_init :: "host \<Rightarrow> usbq_lib \<Rightarrow> wire \<Rightarrow> int \<times> usbq_lib \<times> wire" where
  "usbq_init env g w =
     (if g_init_refcount g = 0 then
        let (r, w) = ask env Lib_Init w
        in if r_rc r \<noteq> 0 then (r_rc r, g, w)
           else (0, g\<lparr>g_ctx := True, g_init_refcount := g_init_refcount g + 1\<rparr>, w)
      else (0, g\<lparr>g_init_refcount := g_init_refcount g + 1\<rparr>, w))"

definition usbq_shutdown :: "usbq_lib \<Rightarrow> wire \<Rightarrow> usbq_lib \<times> wire" where
  "usbq_shutdown g w =
     (if g_init_refcount g = 0 then (g, w)
      else
        let g = g\<lparr>g_init_refcount := g_init_refcount g - 1\<rparr>
        in if g_init_refcount g = 0 \<and> g_ctx g then (g\<lparr>g_ctx := False\<rparr>, w @ [Lib_Exit])
           else (g, w))"

text \<open>The context exists exactly while the count is positive.\<close>

definition lib_inv :: "usbq_lib \<Rightarrow> bool" where
  "lib_inv g \<longleftrightarrow> 0 \<le> g_init_refcount g \<and> (g_ctx g \<longleftrightarrow> 0 < g_init_refcount g)"

lemma lib_inv_start: "lib_inv usbq_lib_start"
  by (simp add: lib_inv_def usbq_lib_start_def)

lemma usbq_init_inv: "lib_inv g \<Longrightarrow> usbq_init env g w = (rc, g', w') \<Longrightarrow> lib_inv g'"
  by (auto simp: usbq_init_def lib_inv_def ask_def Let_def split: if_splits)

lemma usbq_shutdown_inv: "lib_inv g \<Longrightarrow> usbq_shutdown g w = (g', w') \<Longrightarrow> lib_inv g'"
  by (auto simp: usbq_shutdown_def lib_inv_def Let_def split: if_splits)

lemma usbq_init_count:
  "usbq_init env g w = (rc, g', w') \<Longrightarrow>
     g_init_refcount g' = (if rc = 0 then g_init_refcount g + 1 else g_init_refcount g)"
  by (auto simp: usbq_init_def ask_def Let_def split: if_splits)

subsection \<open>VID:PID strings\<close>

text \<open>\<open>sscanf\<close>'s \<open>%x\<close>: skip white space, an optional sign, an optional \<open>0x\<close>, then at least one hex
  digit; a value too large for \<open>unsigned long\<close> saturates, and \<open>unsigned\<close> keeps its low 32 bits.\<close>

definition is_space :: "char \<Rightarrow> bool" where
  "is_space c \<longleftrightarrow> c \<in> {CHR '' '', CHR 0x09, CHR 0x0A, CHR 0x0B, CHR 0x0C, CHR 0x0D}"

definition hex_val :: "char \<Rightarrow> nat option" where
  "hex_val c =
     (let n = (of_char c :: nat) in
      if 48 \<le> n \<and> n \<le> 57 then Some (n - 48)
      else if 97 \<le> n \<and> n \<le> 102 then Some (n - 87)
      else if 65 \<le> n \<and> n \<le> 70 then Some (n - 55)
      else None)"

fun hex_digits :: "nat \<Rightarrow> string \<Rightarrow> nat \<times> string" where
  "hex_digits acc [] = (acc, [])"
| "hex_digits acc (c # cs) =
     (case hex_val c of None \<Rightarrow> (acc, c # cs) | Some d \<Rightarrow> hex_digits (16 * acc + d) cs)"

definition hex_number :: "string \<Rightarrow> (nat \<times> string) option" where
  "hex_number s =
     (case s of
        [] \<Rightarrow> None
      | c # _ \<Rightarrow> if hex_val c = None then None else Some (hex_digits 0 s))"

definition scan_sign :: "string \<Rightarrow> bool \<times> string" where
  "scan_sign s =
     (case s of
        [] \<Rightarrow> (False, s)
      | c # cs \<Rightarrow> if c = CHR ''-'' then (True, cs) else if c = CHR ''+'' then (False, cs) else (False, s))"

definition skip_0x :: "string \<Rightarrow> string" where
  "skip_0x s =
     (case s of
        a # b # cs \<Rightarrow> if a = CHR ''0'' \<and> (b = CHR ''x'' \<or> b = CHR ''X'') then cs else s
      | _ \<Rightarrow> s)"

definition scan_x :: "string \<Rightarrow> (u32 \<times> string) option" where
  "scan_x s =
     (let (neg, s1) = scan_sign (dropWhile is_space s)
      in case hex_number (skip_0x s1) of
           None \<Rightarrow> None
         | Some (v, rest) \<Rightarrow>
             let x = word_of_nat (min v (2 ^ 64 - 1)) in Some (if neg then - x else x, rest))"

text \<open>\<open>sscanf(path, "%x:%x%c", ...)\<close>: both numbers, and nothing after them (or a NUL, which a C string
  cannot hold).\<close>

definition parse_vidpid :: "string option \<Rightarrow> (u16 \<times> u16) option" where
  "parse_vidpid path =
     (case path of
        None \<Rightarrow> None
      | Some s \<Rightarrow>
          (case scan_x s of
             Some (vid, c # s2) \<Rightarrow>
               if c \<noteq> CHR '':'' then None
               else
                 (case scan_x s2 of
                    None \<Rightarrow> None
                  | Some (pid, s3) \<Rightarrow>
                      if (s3 \<noteq> [] \<and> hd s3 \<noteq> CHR 0x00) \<or> vid > 0xFFFF \<or> pid > 0xFFFF then None
                      else Some (ucast vid, ucast pid))
           | _ \<Rightarrow> None))"

text \<open>\<open>snprintf(buf, 16, "%04x:%04x", vid, pid)\<close>.\<close>

definition hex4 :: "u16 \<Rightarrow> string" where
  "hex4 x = (let n = unat x in
     [hex_char (n div 4096), hex_char (n div 256 mod 16), hex_char (n div 16 mod 16), hex_char (n mod 16)])"

definition format_vidpid :: "u16 \<Rightarrow> u16 \<Rightarrow> string" where
  "format_vidpid vid pid = hex4 vid @ '':'' @ hex4 pid"

lemma of_char_char_of_small: "n < 256 \<Longrightarrow> (of_char (char_of n :: char) :: nat) = n"
  by simp

lemma hex_val_char [simp]: "d < 16 \<Longrightarrow> hex_val (hex_char d) = Some d"
  by (auto simp: hex_val_def hex_char_def Let_def)

lemma of_char_hex_char: "d < 16 \<Longrightarrow> of_char (hex_char d) = (if d < 10 then d + 48 else d + 87)"
  by (simp add: hex_char_def)

lemma hex_char_neq:
  "d < 16 \<Longrightarrow> of_char c \<noteq> (if d < 10 then d + 48 else d + 87) \<Longrightarrow> hex_char d \<noteq> c"
  using of_char_hex_char by auto

lemma hex_char_plain:
  assumes "d < 16"
  shows "\<not> is_space (hex_char d)" "hex_char d \<noteq> CHR ''-''" "hex_char d \<noteq> CHR ''+''"
    "hex_char d \<noteq> CHR ''x''" "hex_char d \<noteq> CHR ''X''" "hex_char d \<noteq> CHR '':''"
proof -
  have neq: "hex_char d \<noteq> c"
    if "of_char c < (48::nat) \<or> (57::nat) < of_char c \<and> of_char c < (97::nat) \<or> (102::nat) < of_char c" for c
    using that assms by (intro hex_char_neq) (auto split: if_splits)
  show "hex_char d \<noteq> CHR ''-''" "hex_char d \<noteq> CHR ''+''" "hex_char d \<noteq> CHR ''x''"
    "hex_char d \<noteq> CHR ''X''" "hex_char d \<noteq> CHR '':''"
    by (rule neq, simp)+
  have "hex_char d \<noteq> CHR '' ''" "hex_char d \<noteq> CHR 0x09" "hex_char d \<noteq> CHR 0x0A"
    "hex_char d \<noteq> CHR 0x0B" "hex_char d \<noteq> CHR 0x0C" "hex_char d \<noteq> CHR 0x0D"
    by (rule neq, simp)+
  then show "\<not> is_space (hex_char d)" by (simp only: is_space_def) blast
qed

lemma base16: "(n::nat) = 16 * a + x \<Longrightarrow> a = 16 * b + y \<Longrightarrow> b = 16 * c + z \<Longrightarrow>
    4096 * c + 256 * z + 16 * y + x = n"
  by simp

lemma nibbles: "4096 * (n div 4096) + 256 * (n div 256 mod 16) + 16 * (n div 16 mod 16) + n mod 16 = (n::nat)"
proof (rule base16)
  show "n = 16 * (n div 16) + n mod 16" by simp
  have "n div 256 = n div 16 div 16" using div_mult2_eq [of n 16 16] by simp
  then show "n div 16 = 16 * (n div 256) + n div 16 mod 16" by simp
  have "n div 4096 = n div 256 div 16" using div_mult2_eq [of n 256 16] by simp
  then show "n div 256 = 16 * (n div 4096) + n div 256 mod 16" by simp
qed

lemma scan_x_hex4:
  assumes stop: "rest = [] \<or> hex_val (hd rest) = None"
  shows "scan_x (hex4 x @ rest) = Some (ucast x, rest)"
proof -
  define n where "n = unat x"
  have n: "n < 65536" using unsigned_less [of x] by (simp add: n_def)
  have d: "n div 4096 < 16" "n div 256 mod 16 < 16" "n div 16 mod 16 < 16" "n mod 16 < 16"
    using n by auto
  have stop': "hex_digits k rest = (k, rest)" for k
    using stop by (cases rest) auto
  have num: "hex_number (hex4 x @ rest) = Some (n, rest)"
    using d nibbles [of n] by (simp add: hex_number_def hex4_def Let_def stop' flip: n_def)
  have skip: "skip_0x (hex4 x @ rest) = hex4 x @ rest"
    using hex_char_plain [OF d(2)] by (simp add: skip_0x_def hex4_def Let_def flip: n_def)
  have sign: "scan_sign (dropWhile is_space (hex4 x @ rest)) = (False, hex4 x @ rest)"
    using hex_char_plain [OF d(1)] by (simp add: scan_sign_def hex4_def Let_def flip: n_def)
  have "min n (2 ^ 64 - 1) = n" using n by simp
  then have "word_of_nat (min n (2 ^ 64 - 1)) = (ucast x :: u32)"
    by (simp add: n_def)
  then show ?thesis
    using num by (simp add: scan_x_def sign skip Let_def)
qed

lemma ucast_16_32 [simp]: "ucast (ucast x :: u32) = (x :: u16)"
  by (rule bit_word_eqI) (auto simp: bit_simps)

lemma ucast_16_le: "(ucast (x :: u16) :: u32) \<le> 0xFFFF"
proof -
  have *: "unat x < 65536" using unsigned_less [of x] by simp
  then have "take_bit 32 (unat x) = unat x" by (intro take_bit_nat_eq_self) simp
  then show ?thesis using * by (simp add: word_le_nat_alt unsigned_ucast_eq)
qed

lemma parse_format_vidpid: "parse_vidpid (Some (format_vidpid vid pid)) = Some (vid, pid)"
proof -
  have c: "hex_val (CHR '':'') = None" by (simp add: hex_val_def)
  have "scan_x (format_vidpid vid pid) = Some (ucast vid, CHR '':'' # hex4 pid)"
    using scan_x_hex4 [of "CHR '':'' # hex4 pid" vid] c by (simp add: format_vidpid_def)
  moreover have "scan_x (hex4 pid) = Some (ucast pid, [])"
    using scan_x_hex4 [of "[]" pid] by simp
  ultimately show ?thesis
    using ucast_16_le [of vid] ucast_16_le [of pid] by (simp add: parse_vidpid_def not_less)
qed

lemma format_vidpid_inject: "format_vidpid v p = format_vidpid v' p' \<longleftrightarrow> v = v' \<and> p = p'"
  by (metis option.inject prod.inject parse_format_vidpid)

lemma length_format_vidpid: "length (format_vidpid v p) = 9"
  by (simp add: format_vidpid_def hex4_def Let_def)

subsection \<open>Opening devices\<close>

definition no_device :: devinfo where
  "no_device = \<lparr>di_vid = 0, di_pid = 0, di_bus = 0, di_addr = 0, di_desc_rc = -1\<rparr>"

definition first_dev :: "usb_resp \<Rightarrow> devinfo" where
  "first_dev r = (case r_devs r of [] \<Rightarrow> no_device | d # _ \<Rightarrow> d)"

text \<open>\<open>usbq_dev_wrap\<close> owns the handle: on every failure it closes it.\<close>

definition usbq_dev_wrap :: "host \<Rightarrow> nat \<Rightarrow> wire \<Rightarrow> usbq_dev option \<times> wire" where
  "usbq_dev_wrap env h w =
     (let (r, w) = ask env Alloc w
      in if r_rc r = 0 then (None, w @ [Close_Handle h])
         else
           let (r, w) = ask env (Dev_Descriptor h) w
           in if r_rc r \<noteq> 0 then (None, w @ [Close_Handle h])
              else
                let d = first_dev r; (r, w) = ask env (Auto_Detach h) w
                in (Some \<lparr>ud_handle = h, ud_vid = di_vid d, ud_pid = di_pid d, ud_bus = di_bus d,
                          ud_addr = di_addr d, ud_auto_detach = (r_rc r = 0)\<rparr>, w))"

definition usbq_open :: "host \<Rightarrow> string option \<Rightarrow> usbq_lib \<Rightarrow> wire \<Rightarrow> usbq_dev option \<times> usbq_lib \<times> wire"
where
  "usbq_open env vidpid g w =
     (case parse_vidpid vidpid of
        None \<Rightarrow> (None, g, w)
      | Some (vid, pid) \<Rightarrow>
          let (rc, g, w) = usbq_init env g w
          in if rc \<noteq> 0 then (None, g, w)
             else
               let (r, w) = ask env (Open_Vid_Pid vid pid) w
               in if r_handle r = 0 then (None, g, w)
                  else let (d, w) = usbq_dev_wrap env (r_handle r) w in (d, g, w))"

text \<open>The first device at the address is opened, and the scan stops there even if that fails.\<close>

fun open_at :: "host \<Rightarrow> devinfo list \<Rightarrow> nat \<Rightarrow> u8 \<Rightarrow> u8 \<Rightarrow> wire \<Rightarrow> nat \<times> wire" where
  "open_at env [] i bus devaddr w = (0, w)"
| "open_at env (d # ds) i bus devaddr w =
     (if di_bus d \<noteq> bus then open_at env ds (Suc i) bus devaddr w
      else if di_addr d \<noteq> devaddr then open_at env ds (Suc i) bus devaddr w
      else let (r, w) = ask env (Open_Device i) w
           in (if r_rc r \<noteq> 0 then 0 else r_handle r, w))"

definition usbq_open_by_addr :: "host \<Rightarrow> u8 \<Rightarrow> u8 \<Rightarrow> usbq_lib \<Rightarrow> wire
    \<Rightarrow> usbq_dev option \<times> usbq_lib \<times> wire" where
  "usbq_open_by_addr env bus devaddr g w =
     (let (rc, g, w) = usbq_init env g w
      in if rc \<noteq> 0 then (None, g, w)
         else
           let (r, w) = ask env Device_List w
           in if r_rc r < 0 then (None, g, w)
              else
                let (h, w) = open_at env (r_devs r) 0 bus devaddr w
                in if h = 0 then (None, g, w)
                   else let (d, w) = usbq_dev_wrap env h w in (d, g, w))"

subsection \<open>Enumeration\<close>

record usbq_device_info =
  dinf_vidpid :: string
  dinf_bus :: u8
  dinf_addr :: u8

definition device_info :: "devinfo \<Rightarrow> usbq_device_info" where
  "device_info d = \<lparr>dinf_vidpid = format_vidpid (di_vid d) (di_pid d), dinf_bus = di_bus d,
                     dinf_addr = di_addr d\<rparr>"

definition wanted :: "(u16 \<times> u16) option \<Rightarrow> devinfo \<Rightarrow> bool" where
  "wanted flt d \<longleftrightarrow>
     di_desc_rc d = 0 \<and> (case flt of None \<Rightarrow> True | Some (v, p) \<Rightarrow> di_vid d = v \<and> di_pid d = p)"

fun enum_loop :: "(u16 \<times> u16) option \<Rightarrow> nat \<Rightarrow> devinfo list \<Rightarrow> usbq_device_info list
    \<Rightarrow> usbq_device_info list" where
  "enum_loop flt mx [] out = out"
| "enum_loop flt mx (d # ds) out =
     (if length out < mx then
        (if di_desc_rc d \<noteq> 0 then enum_loop flt mx ds out
         else if (case flt of None \<Rightarrow> False | Some (v, p) \<Rightarrow> di_vid d \<noteq> v \<or> di_pid d \<noteq> p)
         then enum_loop flt mx ds out
         else enum_loop flt mx ds (out @ [device_info d]))
      else out)"

definition usbq_enumerate :: "host \<Rightarrow> string option \<Rightarrow> int \<Rightarrow> usbq_lib \<Rightarrow> wire
    \<Rightarrow> int \<times> usbq_device_info list \<times> usbq_lib \<times> wire" where
  "usbq_enumerate env vidpid mx g w =
     (if mx \<le> 0 then (- EINVAL, [], g, w)
      else if vidpid \<noteq> None \<and> parse_vidpid vidpid = None then (- EINVAL, [], g, w)
      else
        let (rc, g, w) = usbq_init env g w
        in if rc \<noteq> 0 then (- EIO, [], g, w)
           else
             let (r, w) = ask env Device_List w
             in if r_rc r < 0 then (r_rc r, [], g, w)
                else let out = enum_loop (parse_vidpid vidpid) (nat mx) (r_devs r) []
                     in (int (length out), out, g, w))"

lemma enum_loop_eq:
  "length out \<le> mx \<Longrightarrow>
     enum_loop flt mx ds out
       = out @ take (mx - length out) (map device_info (filter (wanted flt) ds))"
proof (induction flt mx ds out rule: enum_loop.induct)
  case (2 flt mx d ds out)
  show ?case
  proof (cases "length out < mx")
    case True
    then obtain k where "mx = Suc (length out + k)" by (auto simp: less_iff_Suc_add)
    with 2 show ?thesis by (cases flt) (auto simp: wanted_def)
  next
    case False
    with 2 show ?thesis by simp
  qed
qed simp

lemma usbq_enumerate_out:
  "usbq_enumerate env vidpid mx g w = (n, out, g', w') \<Longrightarrow>
     int (length out) \<le> (if 0 < mx then mx else 0) \<and> (0 \<le> n \<longrightarrow> n = int (length out)) \<and>
     (\<forall>v p. parse_vidpid vidpid = Some (v, p) \<longrightarrow> (\<forall>i \<in> set out. dinf_vidpid i = format_vidpid v p))"
  by (auto simp: usbq_enumerate_def Let_def ask_def enum_loop_eq wanted_def device_info_def
        dest!: in_set_takeD split: if_splits prod.splits)

subsection \<open>The event thread\<close>

definition usbq_evt_acquire :: "host \<Rightarrow> usbq_lib \<Rightarrow> wire \<Rightarrow> int \<times> usbq_lib \<times> wire" where
  "usbq_evt_acquire env g w =
     (let first = (evt_refcount g = 0); g = g\<lparr>evt_refcount := evt_refcount g + 1\<rparr>
      in if first then
           let g = g\<lparr>evt_stop := False\<rparr>; (r, w) = ask env Thread_Create w
           in if r_rc r \<noteq> 0 then (LIBUSB_ERROR_OTHER, g\<lparr>evt_refcount := 0\<rparr>, w)
              else (0, g\<lparr>evt_alive := True\<rparr>, w)
         else (0, g, w))"

text \<open>The release drops the mutex while it joins, so it is two atomic sections: up to the unlock before
  \<open>pthread_join\<close> (\<open>True\<close> when it goes on to join), and from the lock after it.\<close>

definition evt_release_begin :: "usbq_lib \<Rightarrow> bool \<times> usbq_lib" where
  "evt_release_begin g =
     (if evt_refcount g > 0 then
        let g = g\<lparr>evt_refcount := evt_refcount g - 1\<rparr>
        in if evt_refcount g = 0 \<and> evt_alive g then (True, g\<lparr>evt_stop := True\<rparr>) else (False, g)
      else (False, g))"

definition evt_release_end :: "usbq_lib \<Rightarrow> usbq_lib" where
  "evt_release_end g = g\<lparr>evt_alive := False\<rparr>"

definition usbq_evt_release :: "usbq_lib \<Rightarrow> wire \<Rightarrow> usbq_lib \<times> wire" where
  "usbq_evt_release g w =
     (let (join, g) = evt_release_begin g
      in if join then (evt_release_end g, w @ [Thread_Join]) else (g, w))"

text \<open>The thread runs exactly while someone holds a reference, and is not told to stop then.\<close>

definition evt_inv :: "usbq_lib \<Rightarrow> bool" where
  "evt_inv g \<longleftrightarrow> 0 \<le> evt_refcount g \<and> (evt_alive g \<longleftrightarrow> 0 < evt_refcount g) \<and>
     (0 < evt_refcount g \<longrightarrow> \<not> evt_stop g)"

lemma evt_inv_start: "evt_inv usbq_lib_start"
  by (simp add: evt_inv_def usbq_lib_start_def)

lemma evt_acquire_inv: "evt_inv g \<Longrightarrow> usbq_evt_acquire env g w = (rc, g', w') \<Longrightarrow> evt_inv g'"
  by (auto simp: evt_inv_def usbq_evt_acquire_def ask_def Let_def split: if_splits)

lemma evt_release_inv: "evt_inv g \<Longrightarrow> usbq_evt_release g w = (g', w') \<Longrightarrow> evt_inv g'"
  by (auto simp: evt_inv_def usbq_evt_release_def evt_release_begin_def evt_release_end_def Let_def
      split: if_splits)

lemma evt_acquire_lib [simp]:
  "g_init_refcount (fst (snd (usbq_evt_acquire env g w))) = g_init_refcount g"
  "g_ctx (fst (snd (usbq_evt_acquire env g w))) = g_ctx g"
  by (simp_all add: usbq_evt_acquire_def ask_def Let_def)

lemma evt_release_lib [simp]:
  "g_init_refcount (fst (usbq_evt_release g w)) = g_init_refcount g"
  "g_ctx (fst (usbq_evt_release g w)) = g_ctx g"
  by (simp_all add: usbq_evt_release_def evt_release_begin_def evt_release_end_def Let_def)

text \<open>The two reference counts under the four operations.\<close>

definition refs_inv :: "usbq_lib \<Rightarrow> bool" where
  "refs_inv g \<longleftrightarrow> lib_inv g \<and> evt_inv g"

definition refs :: "usbq_lib \<Rightarrow> int \<times> int" where
  "refs g = (g_init_refcount g, evt_refcount g)"

lemma usbq_init_refs:
  assumes "refs_inv g" "usbq_init env g w = (rc, g', w')"
  shows "refs_inv g' \<and> refs g' = (if rc = 0 then (g_init_refcount g + 1, evt_refcount g) else refs g)"
  using assms
  by (auto simp: refs_inv_def refs_def lib_inv_def evt_inv_def usbq_init_def ask_def Let_def split: if_splits)

lemma usbq_shutdown_refs:
  assumes "refs_inv g" "0 < g_init_refcount g" "usbq_shutdown g w = (g', w')"
  shows "refs_inv g' \<and> refs g' = (g_init_refcount g - 1, evt_refcount g)"
  using assms
  by (auto simp: refs_inv_def refs_def lib_inv_def evt_inv_def usbq_shutdown_def Let_def split: if_splits)

lemma usbq_evt_acquire_refs:
  assumes "refs_inv g" "usbq_evt_acquire env g w = (rc, g', w')"
  shows "refs_inv g' \<and> refs g' = (if rc = 0 then (g_init_refcount g, evt_refcount g + 1) else refs g)"
  using assms
  by (auto simp: refs_inv_def refs_def lib_inv_def evt_inv_def usbq_evt_acquire_def ask_def Let_def
      split: if_splits)

lemma usbq_evt_release_refs:
  assumes "refs_inv g" "0 < evt_refcount g" "usbq_evt_release g w = (g', w')"
  shows "refs_inv g' \<and> refs g' = (g_init_refcount g, evt_refcount g - 1)"
  using assms
  by (auto simp: refs_inv_def refs_def lib_inv_def evt_inv_def usbq_evt_release_def evt_release_begin_def
      evt_release_end_def Let_def split: if_splits)

subsection \<open>Properties\<close>

text \<open>What enumeration prints, opening parses back: the device strings of \<open>usbq_enumerate\<close>
  (\<open>%04x:%04x\<close>) are accepted by \<open>parse_vidpid\<close> and give the same vendor and product for every pair of
  16-bit ids.\<close>

theorem vidpid_roundtrip:
  "parse_vidpid (Some (dinf_vidpid (device_info d))) = Some (di_vid d, di_pid d)"
  by (simp add: device_info_def parse_format_vidpid)

text \<open>Enumeration returns the readable descriptors that match the filter, in bus order, cut at
  \<open>max\<close>; its return code is their number, and a bad filter or a bad \<open>max\<close> is refused before libusb is
  initialised.\<close>

theorem usbq_enumerate_spec:
  assumes "usbq_enumerate env vidpid mx g w = (n, out, g', w')"
  shows "(0 \<le> n \<longrightarrow>
            out = take (nat mx) (map device_info
                    (filter (wanted (parse_vidpid vidpid)) (r_devs (env w')))) \<and>
            n = int (length out) \<and> w' \<noteq> [] \<and> last w' = Device_List) \<and>
     (mx \<le> 0 \<or> vidpid \<noteq> None \<and> parse_vidpid vidpid = None \<longrightarrow>
            n = - EINVAL \<and> out = [] \<and> g' = g \<and> w' = w)"
  using assms
  by (auto simp: usbq_enumerate_def Let_def ask_def enum_loop_eq split: if_splits prod.splits)

definition one_device_host :: host where
  "one_device_host w =
     \<lparr>r_rc = 0, r_data = [],
      r_devs = [\<lparr>di_vid = 0x2013, di_pid = 0x025f, di_bus = 1, di_addr = 7, di_desc_rc = 0\<rparr>],
      r_handle = 1, r_fds = (3, 4)\<rparr>"

lemma usbq_enumerate_spec_witness:
  "fst (snd (usbq_enumerate one_device_host None 4 usbq_lib_start []))
     = [\<lparr>dinf_vidpid = format_vidpid 0x2013 0x025f, dinf_bus = 1, dinf_addr = 7\<rparr>]"
proof -
  have e: "usbq_enumerate one_device_host None 4 usbq_lib_start [] =
      (1, [\<lparr>dinf_vidpid = format_vidpid 0x2013 0x025f, dinf_bus = 1, dinf_addr = 7\<rparr>],
       usbq_lib_start\<lparr>g_ctx := True, g_init_refcount := 1\<rparr>, [Lib_Init, Device_List])"
    by (simp add: usbq_enumerate_def usbq_init_def one_device_host_def usbq_lib_start_def ask_def
        device_info_def parse_vidpid_def)
  show ?thesis
    using usbq_enumerate_spec [OF e]
    by (simp add: e one_device_host_def wanted_def device_info_def parse_vidpid_def)
qed

end
