(* ===== verification/Bounded_Fifo.thy ===== *)
theory Bounded_Fifo
  imports Prelude "HOL-Library.Sublist"
begin

text \<open>
  The contract of a bounded queue that overwrites its oldest elements when it is full. Two
  components of the program are such queues: the byte ring of a stream (\<open>usbq.c\<close>) and the event
  queue of the hotplug module (\<open>dvb_hotplug.c\<close>). The locale states the contract over an abstract
  list of elements; what a whole run of pushes and pops keeps is proved here once.
\<close>

subsection \<open>The newest elements of a list\<close>

definition newest :: "nat \<Rightarrow> 'a list \<Rightarrow> 'a list" where
  "newest c xs = drop (length xs - c) xs"

lemma length_newest [simp]: "length (newest c xs) = min c (length xs)"
  by (simp add: newest_def min_def)

lemma newest_short [simp]: "length xs \<le> c \<Longrightarrow> newest c xs = xs"
  by (simp add: newest_def)

lemma newest_suffix: "suffix (newest c xs) xs"
  by (simp add: newest_def suffix_drop)

lemma newest_append_left: "c \<le> length ys \<Longrightarrow> newest c (xs @ ys) = newest c ys"
  by (simp add: newest_def)

lemma newest_newest: "newest c (newest c xs @ ys) = newest c (xs @ ys)"
proof (cases "length xs \<le> c")
  case False
  then show ?thesis by (simp add: newest_def add.commute)
qed simp

lemma subseq_newest: "subseq (newest c xs) xs"
  by (rule list_emb_suffix [OF subseq_order.refl newest_suffix])

subsection \<open>Operations of a run\<close>

datatype ('b, 'n) fifo_op = Push 'b | Pop 'n

fun fifo_run :: "('q \<Rightarrow> 'b \<Rightarrow> 'q) \<Rightarrow> ('q \<Rightarrow> 'n \<Rightarrow> 'a list \<times> 'q) \<Rightarrow> 'q \<Rightarrow> ('b, 'n) fifo_op list \<Rightarrow> 'a list \<times> 'q"
where
  "fifo_run push pop q [] = ([], q)"
| "fifo_run push pop q (Push b # ops) = fifo_run push pop (push q b) ops"
| "fifo_run push pop q (Pop n # ops) =
     (let r = fifo_run push pop (snd (pop q n)) ops in (fst (pop q n) @ fst r, snd r))"

fun fifo_pushed :: "('b \<Rightarrow> 'a list) \<Rightarrow> ('b, 'n) fifo_op list \<Rightarrow> 'a list" where
  "fifo_pushed items [] = []"
| "fifo_pushed items (Push b # ops) = items b @ fifo_pushed items ops"
| "fifo_pushed items (Pop n # ops) = fifo_pushed items ops"

text \<open>\<open>room q b\<close> says that \<open>q\<close> can take \<open>b\<close> without overwriting anything.\<close>

fun fifo_fits :: "('q \<Rightarrow> 'b \<Rightarrow> 'q) \<Rightarrow> ('q \<Rightarrow> 'n \<Rightarrow> 'a list \<times> 'q) \<Rightarrow> ('q \<Rightarrow> 'b \<Rightarrow> bool) \<Rightarrow> 'q
  \<Rightarrow> ('b, 'n) fifo_op list \<Rightarrow> bool"
where
  "fifo_fits push pop room q [] = True"
| "fifo_fits push pop room q (Push b # ops) = (room q b \<and> fifo_fits push pop room (push q b) ops)"
| "fifo_fits push pop room q (Pop n # ops) = fifo_fits push pop room (snd (pop q n)) ops"

locale bounded_fifo =
  fixes push :: "'q \<Rightarrow> 'b \<Rightarrow> 'q"
    and pop :: "'q \<Rightarrow> 'n \<Rightarrow> 'a list \<times> 'q"
    and clear :: "'q \<Rightarrow> 'q"
    and items :: "'b \<Rightarrow> 'a list"
    and amount :: "'n \<Rightarrow> nat"
    and content :: "'q \<Rightarrow> 'a list"
    and capacity :: "'q \<Rightarrow> nat"
    and room :: "'q \<Rightarrow> 'b \<Rightarrow> bool"
    and invar :: "'q \<Rightarrow> bool"
  assumes push_invar: "invar q \<Longrightarrow> invar (push q b)"
    and push_content: "invar q \<Longrightarrow> content (push q b) = newest (capacity q) (content q @ items b)"
    and push_capacity: "invar q \<Longrightarrow> capacity (push q b) = capacity q"
    and pop_invar: "invar q \<Longrightarrow> invar (snd (pop q n))"
    and pop_out: "invar q \<Longrightarrow> fst (pop q n) = take (amount n) (content q)"
    and pop_content: "invar q \<Longrightarrow> content (snd (pop q n)) = drop (amount n) (content q)"
    and pop_capacity: "invar q \<Longrightarrow> capacity (snd (pop q n)) = capacity q"
    and clear_invar: "invar q \<Longrightarrow> invar (clear q)"
    and clear_content: "invar q \<Longrightarrow> content (clear q) = []"
    and room_fits: "invar q \<Longrightarrow> room q b \<Longrightarrow> length (content q) + length (items b) \<le> capacity q"
    and content_bound: "invar q \<Longrightarrow> length (content q) \<le> capacity q"
begin

lemmas queue_laws = push_invar push_content push_capacity pop_invar pop_out pop_content
  pop_capacity clear_invar clear_content

lemma fifo_induct [case_names Nil Push Pop]:
  assumes "\<And>q. P q []"
    and "\<And>q b ops. P (push q b) ops \<Longrightarrow> P q (Push b # ops)"
    and "\<And>q n ops. P (snd (pop q n)) ops \<Longrightarrow> P q (Pop n # ops)"
  shows "P q ops"
proof (induction ops arbitrary: q)
  case (Cons op ops)
  then show ?case using assms(2,3) by (cases op) simp_all
qed (rule assms(1))

lemma run_invar: "invar q \<Longrightarrow> invar (snd (fifo_run push pop q ops))"
  by (induction q ops rule: fifo_induct) (simp_all add: Let_def push_invar pop_invar)

lemma run_capacity: "invar q \<Longrightarrow> capacity (snd (fifo_run push pop q ops)) = capacity q"
  by (induction q ops rule: fifo_induct)
     (simp_all add: Let_def push_invar pop_invar push_capacity pop_capacity)

text \<open>Order is kept and nothing is invented: what comes out, followed by what is still queued, is a
  subsequence of what was queued, followed by what was pushed.\<close>

lemma run_subseq:
  "invar q \<Longrightarrow> subseq (fst (fifo_run push pop q ops) @ content (snd (fifo_run push pop q ops)))
      (content q @ fifo_pushed items ops)"
proof (induction q ops rule: fifo_induct)
  case (Push q b ops)
  let ?r = "fifo_run push pop (push q b) ops"
  have "subseq (fst ?r @ content (snd ?r))
          (newest (capacity q) (content q @ items b) @ fifo_pushed items ops)"
    using Push by (simp add: push_invar push_content)
  also have "subseq \<dots> ((content q @ items b) @ fifo_pushed items ops)"
    by (rule list_emb_append_mono [OF subseq_newest subseq_order.refl])
  finally (subseq_order.trans) show ?case by simp
next
  case (Pop q n ops)
  let ?r = "fifo_run push pop (snd (pop q n)) ops"
  have "subseq (fst ?r @ content (snd ?r)) (drop (amount n) (content q) @ fifo_pushed items ops)"
    using Pop by (simp add: pop_invar pop_content)
  then have "subseq (take (amount n) (content q) @ (fst ?r @ content (snd ?r)))
      (take (amount n) (content q) @ (drop (amount n) (content q) @ fifo_pushed items ops))"
    by (rule list_emb_append_mono [OF subseq_order.refl])
  also have "take (amount n) (content q) @ (drop (amount n) (content q) @ fifo_pushed items ops)
      = content q @ fifo_pushed items ops"
    by (simp flip: append_assoc)
  finally show ?case by (simp add: Let_def pop_out Pop.prems)
qed simp

text \<open>Nothing is lost while the queue is never asked to hold more than its capacity.\<close>

lemma run_lossless:
  "invar q \<Longrightarrow> fifo_fits push pop room q ops \<Longrightarrow>
     fst (fifo_run push pop q ops) @ content (snd (fifo_run push pop q ops))
       = content q @ fifo_pushed items ops"
proof (induction q ops rule: fifo_induct)
  case (Push q b ops)
  then show ?case by (simp add: push_invar push_content room_fits)
next
  case (Pop q n ops)
  then show ?case
    by (simp add: Let_def pop_invar pop_content pop_out)
qed simp

end

end
