(* ===== verification/Usbq_Ring.thy ===== *)
theory Usbq_Ring
  imports Bounded_Fifo
begin

text \<open>
  The byte ring of an async stream (\<open>usbq/src/usbq.c\<close>: the ring fields of \<open>struct usbq_stream\<close>,
  \<open>ring_push_locked\<close>, the dequeue half of \<open>usbq_stream_read\<close>, \<open>usbq_stream_flush\<close>).
  \<open>size_t\<close> indices are \<open>nat\<close>: the capacity is a \<open>uint32_t\<close> and a completion's length an \<open>int\<close>, so
  every sum below stays under \<open>2 ^ 33\<close> and cannot wrap. The overflow counter is a \<open>uint64_t\<close>.

  \<open>ring_list\<close> reads the ring as the list of queued bytes, oldest first. The refinement lemmas say
  that a push keeps the newest \<open>ring_cap\<close> bytes, a read takes a prefix and a flush empties it; the
  interpretation of \<open>bounded_fifo\<close> lifts this to whole runs.
\<close>

record ring =
  ring_buf :: bytes
  ring_cap :: nat
  ring_head :: nat
  ring_tail :: nat
  ring_used :: nat
  overflow_bytes :: u64

subsection \<open>Operations\<close>

text \<open>The two-part copy into the buffer, wrapping at its end.\<close>

definition ring_copy_in :: "bytes \<Rightarrow> nat \<Rightarrow> nat \<Rightarrow> bytes \<Rightarrow> nat \<Rightarrow> bytes" where
  "ring_copy_in buf cap tail src len =
     (let first = (if cap - tail > len then len else cap - tail);
          buf1 = memcpy_at buf tail src first
      in if first < len then memcpy_at buf1 0 (drop first src) (len - first) else buf1)"

definition ring_push_locked :: "'a ring_scheme \<Rightarrow> bytes \<Rightarrow> nat \<Rightarrow> 'a ring_scheme" where
  "ring_push_locked s src len =
     (if len = 0 then s
      else
        let (s, src, len) =
              (if len > ring_cap s
               then (s\<lparr>overflow_bytes := overflow_bytes s + word_of_nat (len - ring_cap s)\<rparr>,
                     drop (len - ring_cap s) src, ring_cap s)
               else (s, src, len));
            s = (if ring_used s + len > ring_cap s
                 then let drop = (ring_used s + len) - ring_cap s;
                          drop = (if drop > ring_used s then ring_used s else drop)
                      in s\<lparr>ring_head := (ring_head s + drop) mod ring_cap s,
                           ring_used := ring_used s - drop,
                           overflow_bytes := overflow_bytes s + word_of_nat drop\<rparr>
                 else s)
        in s\<lparr>ring_buf := ring_copy_in (ring_buf s) (ring_cap s) (ring_tail s) src len,
             ring_tail := (ring_tail s + len) mod ring_cap s,
             ring_used := ring_used s + len\<rparr>)"

text \<open>The copy out of the ring and the advance of its head (the end of \<open>usbq_stream_read\<close>).\<close>

definition ring_copy_out :: "'a ring_scheme \<Rightarrow> nat \<Rightarrow> bytes" where
  "ring_copy_out s want =
     (let first = (if ring_cap s - ring_head s > want then want else ring_cap s - ring_head s)
      in take first (drop (ring_head s) (ring_buf s))
         @ (if first < want then take (want - first) (ring_buf s) else []))"

definition ring_dequeue :: "'a ring_scheme \<Rightarrow> nat \<Rightarrow> bytes \<times> 'a ring_scheme" where
  "ring_dequeue s cap =
     (let want = (if cap > ring_used s then ring_used s else cap)
      in (ring_copy_out s want,
          s\<lparr>ring_head := (ring_head s + want) mod ring_cap s, ring_used := ring_used s - want\<rparr>))"

definition ring_flush :: "'a ring_scheme \<Rightarrow> 'a ring_scheme" where
  "ring_flush s = s\<lparr>ring_head := 0, ring_tail := 0, ring_used := 0\<rparr>"

subsection \<open>Well-formed rings and the list they hold\<close>

definition ring_wf :: "'a ring_scheme \<Rightarrow> bool" where
  "ring_wf s \<longleftrightarrow>
     0 < ring_cap s \<and> length (ring_buf s) = ring_cap s \<and> ring_head s < ring_cap s \<and>
     ring_used s \<le> ring_cap s \<and> ring_tail s = (ring_head s + ring_used s) mod ring_cap s"

definition ring_list :: "'a ring_scheme \<Rightarrow> bytes" where
  "ring_list s = map (\<lambda>i. ring_buf s ! ((ring_head s + i) mod ring_cap s)) [0..<ring_used s]"

lemma length_ring_list [simp]: "length (ring_list s) = ring_used s"
  by (simp add: ring_list_def)

lemma nth_ring_list:
  "i < ring_used s \<Longrightarrow> ring_list s ! i = ring_buf s ! ((ring_head s + i) mod ring_cap s)"
  by (simp add: ring_list_def)

subsection \<open>The copy in\<close>

lemma length_ring_copy_in [simp]:
  assumes "length buf = cap" "tail < cap" "len \<le> cap" "len \<le> length src"
  shows "length (ring_copy_in buf cap tail src len) = cap"
  using assms by (auto simp: ring_copy_in_def Let_def)

lemma ring_copy_in_new:
  assumes "length buf = cap" "tail < cap" "len \<le> cap" "len \<le> length src" "j < len"
  shows "ring_copy_in buf cap tail src len ! ((tail + j) mod cap) = src ! j"
  using assms by (auto simp: ring_copy_in_def Let_def nth_memcpy_at mod_add_wrap nth_append)

lemma ring_copy_in_old:
  assumes "length buf = cap" "tail < cap" "len \<le> cap" "len \<le> length src" "len \<le> j" "j < cap"
  shows "ring_copy_in buf cap tail src len ! ((tail + j) mod cap) = buf ! ((tail + j) mod cap)"
  using assms by (auto simp: ring_copy_in_def Let_def nth_memcpy_at mod_add_wrap)

subsection \<open>Dropping from the head\<close>

lemma advance_wf:
  assumes "ring_wf s" "k \<le> ring_used s"
  shows "ring_wf (s\<lparr>ring_head := (ring_head s + k) mod ring_cap s, ring_used := ring_used s - k\<rparr>)"
proof -
  obtain u where u: "ring_used s = k + u" using assms(2) le_Suc_ex by blast
  have "((ring_head s + k) mod ring_cap s + (ring_used s - k)) mod ring_cap s
      = (ring_head s + ring_used s) mod ring_cap s"
    by (simp add: u mod_add_left_eq add.assoc)
  then show ?thesis using assms by (auto simp: ring_wf_def)
qed

lemma advance_list:
  assumes "ring_wf s" "k \<le> ring_used s"
  shows "ring_list (s\<lparr>ring_head := (ring_head s + k) mod ring_cap s, ring_used := ring_used s - k\<rparr>)
           = drop k (ring_list s)"
  using assms by (intro nth_equalityI) (simp_all add: nth_ring_list mod_add_left_eq add.assoc)

lemma ring_wf_overflow [simp]: "ring_wf (s\<lparr>overflow_bytes := v\<rparr>) = ring_wf s"
  by (simp add: ring_wf_def)

lemma ring_list_overflow [simp]: "ring_list (s\<lparr>overflow_bytes := v\<rparr>) = ring_list s"
  by (simp add: ring_list_def)

subsection \<open>Appending at the tail\<close>

definition ring_append :: "'a ring_scheme \<Rightarrow> bytes \<Rightarrow> nat \<Rightarrow> 'a ring_scheme" where
  "ring_append s src len =
     s\<lparr>ring_buf := ring_copy_in (ring_buf s) (ring_cap s) (ring_tail s) src len,
       ring_tail := (ring_tail s + len) mod ring_cap s,
       ring_used := ring_used s + len\<rparr>"

lemma ring_append_wf:
  assumes "ring_wf s" "ring_used s + len \<le> ring_cap s" "len \<le> length src"
  shows "ring_wf (ring_append s src len)"
  using assms by (simp add: ring_wf_def ring_append_def mod_add_left_eq add.assoc)

lemma ring_append_list:
  assumes wf: "ring_wf s" and fit: "ring_used s + len \<le> ring_cap s" and src: "len \<le> length src"
  shows "ring_list (ring_append s src len) = ring_list s @ take len src"
proof (rule nth_equalityI)
  show "length (ring_list (ring_append s src len)) = length (ring_list s @ take len src)"
    using src by (simp add: ring_append_def)
next
  fix i assume "i < length (ring_list (ring_append s src len))"
  then have i: "i < ring_used s + len" by (simp add: ring_append_def)
  let ?cap = "ring_cap s" and ?t = "ring_tail s"
  have b: "length (ring_buf s) = ?cap" "?t < ?cap" "len \<le> ?cap" "0 < ?cap"
    using wf fit by (auto simp: ring_wf_def)
  have n: "ring_list (ring_append s src len) ! i
      = ring_copy_in (ring_buf s) ?cap ?t src len ! ((ring_head s + i) mod ?cap)"
    using i by (simp add: nth_ring_list ring_append_def)
  show "ring_list (ring_append s src len) ! i = (ring_list s @ take len src) ! i"
  proof (cases "i < ring_used s")
    case True
    define j where "j = ?cap - ring_used s + i"
    have "(?t + j) mod ?cap = (ring_head s + ring_used s + j) mod ?cap"
      using wf by (simp add: ring_wf_def mod_add_left_eq)
    also have "ring_head s + ring_used s + j = ring_head s + i + ?cap"
      using wf by (simp add: j_def ring_wf_def)
    finally have j: "(?t + j) mod ?cap = (ring_head s + i) mod ?cap" by simp
    have "len \<le> j" "j < ?cap" using True fit wf by (auto simp: j_def ring_wf_def)
    with ring_copy_in_old [OF b(1-3) src, of j] show ?thesis
      using True by (simp add: n j nth_append nth_ring_list)
  next
    case False
    define j where "j = i - ring_used s"
    have "(?t + j) mod ?cap = (ring_head s + ring_used s + j) mod ?cap"
      using wf by (simp add: ring_wf_def mod_add_left_eq)
    then have j: "(?t + j) mod ?cap = (ring_head s + i) mod ?cap"
      using False by (simp add: j_def)
    have "j < len" using i False by (simp add: j_def)
    with ring_copy_in_new [OF b(1-3) src, of j]
    have "ring_list (ring_append s src len) ! i = src ! j" by (simp add: n j)
    then show ?thesis using False \<open>j < len\<close> by (simp add: nth_append flip: j_def)
  qed
qed

lemma ring_append_simps [simp]:
  "ring_cap (ring_append s src len) = ring_cap s"
  "overflow_bytes (ring_append s src len) = overflow_bytes s"
  by (simp_all add: ring_append_def)

subsection \<open>The push\<close>

text \<open>A push is: shorten the source to the newest \<open>ring_cap\<close> bytes, drop from the head what does not
  fit, append. Both drops are added to the overflow counter.\<close>

definition ring_make_room :: "'a ring_scheme \<Rightarrow> nat \<Rightarrow> 'a ring_scheme" where
  "ring_make_room s len =
     (if ring_used s + len > ring_cap s
      then let d = min ((ring_used s + len) - ring_cap s) (ring_used s)
           in s\<lparr>ring_head := (ring_head s + d) mod ring_cap s, ring_used := ring_used s - d\<rparr>
      else s)"

lemma ring_make_room:
  assumes "ring_wf s" "len \<le> ring_cap s"
  shows "ring_wf (ring_make_room s len)"
    and "ring_list (ring_make_room s len) = drop (ring_used s + len - ring_cap s) (ring_list s)"
    and "ring_used (ring_make_room s len) = ring_used s - (ring_used s + len - ring_cap s)"
    and "ring_cap (ring_make_room s len) = ring_cap s"
    and "overflow_bytes (ring_make_room s len) = overflow_bytes s"
  using assms by (auto simp: ring_make_room_def Let_def advance_wf advance_list min_def)

lemma ring_push_locked_alt:
  assumes "ring_wf s" "0 < len"
  shows "ring_push_locked s src len =
    (let n = min len (ring_cap s);
         s1 = ring_append (ring_make_room s n) (drop (len - n) src) n
     in s1\<lparr>overflow_bytes := overflow_bytes s + word_of_nat (len - n)
              + word_of_nat (ring_used s + n - ring_cap s)\<rparr>)"
proof -
  have le: "ring_used s \<le> ring_cap s" using assms by (simp add: ring_wf_def)
  note defs = ring_push_locked_def ring_make_room_def ring_append_def Let_def
  consider "ring_cap s < len" "ring_used s = 0" | "ring_cap s < len" "0 < ring_used s"
    | "len \<le> ring_cap s" "ring_cap s < ring_used s + len"
    | "len \<le> ring_cap s" "ring_used s + len \<le> ring_cap s"
    by linarith
  then show ?thesis
  proof cases
    case 1
    then show ?thesis by (simp add: defs)
  next
    case 2
    then show ?thesis by (simp add: defs)
  next
    case 3
    then have "(ring_used s + len - ring_cap s > ring_used s) = False" by simp
    with 3 assms(2) show ?thesis by (simp add: defs min_absorb1)
  next
    case 4
    with assms(2) show ?thesis by (simp add: defs)
  qed
qed

lemma ring_push_wf:
  assumes "ring_wf s" "len \<le> length src"
  shows "ring_wf (ring_push_locked s src len)"
proof (cases "len = 0")
  case True
  then show ?thesis using assms by (simp add: ring_push_locked_def)
next
  case False
  then show ?thesis
    using assms by (simp add: ring_push_locked_alt Let_def ring_append_wf ring_make_room)
qed

lemma ring_push_list:
  assumes "ring_wf s" "len \<le> length src"
  shows "ring_list (ring_push_locked s src len) = newest (ring_cap s) (ring_list s @ take len src)"
proof (cases "len = 0")
  case True
  then show ?thesis using assms by (simp add: ring_push_locked_def ring_wf_def)
next
  case False
  define n where "n = min len (ring_cap s)"
  have n: "n \<le> ring_cap s" "n \<le> length src" "n \<le> len" "ring_used s \<le> ring_cap s"
    using assms by (auto simp: n_def ring_wf_def)
  have "ring_list (ring_push_locked s src len)
      = drop (ring_used s + n - ring_cap s) (ring_list s) @ take n (drop (len - n) src)"
    using assms False n
    by (simp add: ring_push_locked_alt Let_def ring_append_list ring_make_room flip: n_def)
  also have "take n (drop (len - n) src) = drop (len - n) (take len src)"
    using n by (simp add: drop_take)
  also have "drop (ring_used s + n - ring_cap s) (ring_list s) @ drop (len - n) (take len src)
      = newest (ring_cap s) (ring_list s @ take len src)"
    using n assms(2) by (cases "len \<le> ring_cap s") (simp_all add: newest_def n_def)
  finally show ?thesis .
qed

lemma ring_push_cap [simp]: "ring_cap (ring_push_locked s src len) = ring_cap s"
  by (simp add: ring_push_locked_def Let_def)

lemma ring_push_overflow:
  assumes "ring_wf s"
  shows "overflow_bytes (ring_push_locked s src len)
           = overflow_bytes s + word_of_nat (ring_used s + len - ring_cap s)"
proof (cases "len = 0")
  case True
  then show ?thesis using assms by (simp add: ring_push_locked_def ring_wf_def)
next
  case False
  then have "len - min len (ring_cap s) + (ring_used s + min len (ring_cap s) - ring_cap s)
      = ring_used s + len - ring_cap s"
    using assms by (auto simp: ring_wf_def min_def)
  then show ?thesis
    using False assms by (simp add: ring_push_locked_alt Let_def add.assoc flip: of_nat_add)
qed

subsection \<open>The dequeue and the flush\<close>

lemma ring_copy_out_list:
  assumes "ring_wf s" "want \<le> ring_used s"
  shows "ring_copy_out s want = take want (ring_list s)"
proof (rule nth_equalityI)
  show "length (ring_copy_out s want) = length (take want (ring_list s))"
    using assms by (auto simp: ring_copy_out_def Let_def ring_wf_def)
next
  fix i assume "i < length (ring_copy_out s want)"
  then have "i < want" using assms by (auto simp: ring_copy_out_def Let_def ring_wf_def split: if_splits)
  then show "ring_copy_out s want ! i = take want (ring_list s) ! i"
    using assms
    by (auto simp: ring_copy_out_def Let_def ring_wf_def nth_append nth_ring_list mod_add_wrap
        add.commute)
qed

lemma ring_dequeue_out: "ring_wf s \<Longrightarrow> fst (ring_dequeue s cap) = take cap (ring_list s)"
  by (simp add: ring_dequeue_def Let_def ring_copy_out_list)

lemma ring_dequeue_wf: "ring_wf s \<Longrightarrow> ring_wf (snd (ring_dequeue s cap))"
  using advance_wf [of s cap] advance_wf [of s "ring_used s"]
  by (simp add: ring_dequeue_def Let_def)

lemma ring_dequeue_list: "ring_wf s \<Longrightarrow> ring_list (snd (ring_dequeue s cap)) = drop cap (ring_list s)"
  using advance_list [of s cap] advance_list [of s "ring_used s"]
  by (simp add: ring_dequeue_def Let_def)

lemma ring_dequeue_frame [simp]:
  "ring_cap (snd (ring_dequeue s cap)) = ring_cap s"
  "overflow_bytes (snd (ring_dequeue s cap)) = overflow_bytes s"
  by (simp_all add: ring_dequeue_def Let_def)

lemma ring_flush_wf: "ring_wf s \<Longrightarrow> ring_wf (ring_flush s)"
  by (auto simp: ring_wf_def ring_flush_def)

lemma ring_flush_list [simp]: "ring_list (ring_flush s) = []"
  by (simp add: ring_list_def ring_flush_def)

subsection \<open>The ring is a bounded queue\<close>

text \<open>A completion hands its whole buffer prefix over, so a push of a run is one byte list.\<close>

definition ring_push :: "ring \<Rightarrow> bytes \<Rightarrow> ring" where
  "ring_push s src = ring_push_locked s src (length src)"

definition ring_room :: "ring \<Rightarrow> bytes \<Rightarrow> bool" where
  "ring_room s src \<longleftrightarrow> ring_used s + length src \<le> ring_cap s"

interpretation ring_queue: bounded_fifo ring_push ring_dequeue ring_flush id id ring_list ring_cap
    ring_room ring_wf
  by unfold_locales
     (simp_all add: ring_push_def ring_room_def ring_push_wf ring_push_list ring_dequeue_out
       ring_dequeue_wf ring_dequeue_list ring_flush_wf, simp_all add: ring_wf_def)

subsection \<open>Properties\<close>

text \<open>C1: Whatever order completions push and readers read in, a stream delivers its bytes in order and
  invents none: what the reads returned, followed by what is still queued, is a subsequence of what
  was queued, followed by what was pushed. As long as no push finds the ring too full it is exactly
  that list, so nothing is lost or duplicated. The ring stays well formed and keeps its capacity.\<close>

theorem ring_run_fifo:
  assumes "ring_wf s"
  shows "ring_wf (snd (fifo_run ring_push ring_dequeue s ops)) \<and>
     ring_cap (snd (fifo_run ring_push ring_dequeue s ops)) = ring_cap s \<and>
     subseq (fst (fifo_run ring_push ring_dequeue s ops)
               @ ring_list (snd (fifo_run ring_push ring_dequeue s ops)))
            (ring_list s @ fifo_pushed id ops) \<and>
     (fifo_fits ring_push ring_dequeue ring_room s ops \<longrightarrow>
        fst (fifo_run ring_push ring_dequeue s ops)
          @ ring_list (snd (fifo_run ring_push ring_dequeue s ops))
        = ring_list s @ fifo_pushed id ops)"
  using assms
  by (simp add: ring_queue.run_invar ring_queue.run_capacity ring_queue.run_subseq
      ring_queue.run_lossless)

definition sample_ring :: ring where
  "sample_ring = \<lparr>ring_buf = [1, 2, 3, 4], ring_cap = 4, ring_head = 3, ring_tail = 1, ring_used = 2,
                  overflow_bytes = 0\<rparr>"

lemma sample_ring_wf: "ring_wf sample_ring"
  by (simp add: sample_ring_def ring_wf_def)

lemma ring_run_fifo_witness:
  "fst (fifo_run ring_push ring_dequeue sample_ring [Push [7, 8], Pop 3])
     @ ring_list (snd (fifo_run ring_push ring_dequeue sample_ring [Push [7, 8], Pop 3]))
   = ring_list sample_ring @ [7, 8]"
proof -
  have "fifo_fits ring_push ring_dequeue ring_room sample_ring [Push [7, 8], Pop 3]"
    by (simp add: sample_ring_def ring_room_def)
  with ring_run_fifo [OF sample_ring_wf, of "[Push [7, 8], Pop 3]"] show ?thesis by simp
qed

text \<open>A push of any length keeps the ring well formed and keeps exactly the newest
  \<open>ring_cap\<close> bytes of what was queued followed by the source; the overflow counter grows by exactly
  the number of bytes that were discarded, whether they came from the ring or from the source.\<close>

theorem ring_push_keeps_newest:
  assumes "ring_wf s" "len \<le> length src"
  shows "ring_wf (ring_push_locked s src len) \<and>
     ring_list (ring_push_locked s src len) = newest (ring_cap s) (ring_list s @ take len src) \<and>
     overflow_bytes (ring_push_locked s src len) = overflow_bytes s
       + word_of_nat (length (ring_list s @ take len src)
                      - length (ring_list (ring_push_locked s src len)))"
proof -
  have "length (ring_list s @ take len src) - length (ring_list (ring_push_locked s src len))
      = ring_used s + len - ring_cap s"
    unfolding ring_push_list [OF assms] using assms(2) by (simp add: min_def)
  then show ?thesis
    using assms by (simp add: ring_push_wf ring_push_list ring_push_overflow)
qed

lemma ring_push_keeps_newest_witness:
  "ring_list (ring_push_locked sample_ring [5, 6, 7, 8, 9] 5) = [6, 7, 8, 9] \<and>
   overflow_bytes (ring_push_locked sample_ring [5, 6, 7, 8, 9] 5) = 3"
proof -
  have l: "ring_list sample_ring = [4, 1]" by (simp add: ring_list_def sample_ring_def upt_conv_Cons)
  have c: "ring_cap sample_ring = 4" "overflow_bytes sample_ring = 0"
    by (simp_all add: sample_ring_def)
  let ?s = "ring_push_locked sample_ring [5, 6, 7, 8, 9] 5"
  note p = ring_push_keeps_newest [OF sample_ring_wf, of 5 "[5, 6, 7, 8, 9]", simplified l c]
  have r: "ring_list ?s = [6, 7, 8, 9]" using p by (simp add: newest_def)
  then have u: "ring_used ?s = 4" using length_ring_list [of ?s] by simp
  show ?thesis using p by (simp add: r u)
qed

end
