(* ===== verification/Usbq_Stream.thy ===== *)
theory Usbq_Stream
  imports Usbq_Lib Usbq_Ring
begin

text \<open>
  The async streams of \<open>usbq/src/usbq.c\<close> as its functions run them: the completion callback, open,
  close, read, flush and restart. A stream is the ring of \<open>Usbq_Ring\<close> with a pool of URB slots, the
  count of cancellations that have yet to call back, the stopping flag and the wake descriptor.

  Two loops wait on the condition variable: for the pending cancellations, and for bytes in
  \<open>usbq_stream_read\<close>. While they wait the mutex is free and the event thread runs callbacks, so a
  model of them takes the list of completions that arrive meanwhile; a list that ends before the
  waited-for condition holds is a call that has not returned, \<open>None\<close>. The interleaving of the
  callbacks with the calls outside the waits is the subject of \<open>Stream_Race\<close>.
\<close>

record urb_slot =
  us_xfer :: nat    \<comment> \<open>the \<open>libusb_transfer\<close>, 0 for NULL\<close>
  us_buf :: bool    \<comment> \<open>\<open>buf != NULL\<close>\<close>
  us_state :: nat   \<comment> \<open>0 normal, 1 cancel-pending\<close>

record stream = ring +
  urbs :: "urb_slot list"
  pending_cancel :: int
  stopping :: bool
  wake_fd :: int

definition pool_depth :: "stream \<Rightarrow> nat" where
  "pool_depth s = length (urbs s)"

subsection \<open>The completion callback\<close>

datatype xfer_status =
    Xfer_Completed | Xfer_Error | Xfer_Timed_Out | Xfer_Cancelled | Xfer_Stall | Xfer_No_Device
  | Xfer_Overflow

record completion =
  co_slot :: nat
  co_status :: xfer_status
  co_data :: bytes   \<comment> \<open>the first \<open>actual_length\<close> bytes of the slot's buffer\<close>

definition stream_wake_select :: "stream \<Rightarrow> wire \<Rightarrow> wire" where
  "stream_wake_select s w = (if wake_fd s < 0 then w else w @ [Write_Fd (wake_fd s)])"

text \<open>The sections of the callback that run under the mutex.\<close>

definition cb_cancelled :: "stream \<Rightarrow> stream" where
  "cb_cancelled s =
     (let s = s\<lparr>pending_cancel := pending_cancel s - 1\<rparr>
      in if pending_cancel s \<le> 0 then s\<lparr>pending_cancel := 0\<rparr> else s)"

definition cb_wants_data :: "stream \<Rightarrow> completion \<Rightarrow> bool" where
  "cb_wants_data s c \<longleftrightarrow>
     (co_status c = Xfer_Completed \<or> co_status c = Xfer_Timed_Out) \<and> length (co_data c) > 0
     \<and> \<not> stopping s"

definition cb_push :: "stream \<Rightarrow> completion \<Rightarrow> stream" where
  "cb_push s c = ring_push_locked s (co_data c) (length (co_data c))"

definition cb_done :: "stream \<Rightarrow> nat \<Rightarrow> bool" where
  "cb_done s i \<longleftrightarrow> stopping s \<or> us_state (urbs s ! i) \<noteq> 0"

definition cb_fail :: "stream \<Rightarrow> stream" where
  "cb_fail s = s\<lparr>stopping := True\<rparr>"

definition stream_xfer_cb :: "host \<Rightarrow> completion \<Rightarrow> stream \<Rightarrow> wire \<Rightarrow> stream \<times> wire" where
  "stream_xfer_cb env c s w =
     (if co_status c = Xfer_Cancelled then (cb_cancelled s, w)
      else
        let (s, w) = (if cb_wants_data s c
                      then let s = cb_push s c
                           in (s, if wake_fd s \<ge> 0 then w @ [Write_Fd (wake_fd s)] else w)
                      else (s, w))
        in if cb_done s (co_slot c) then (s, w)
           else
             let (r, w) = ask env (Submit_Transfer (us_xfer (urbs s ! co_slot c))) w
             in if r_rc r < 0 then let s = cb_fail s in (s, stream_wake_select s w) else (s, w))"

subsection \<open>Cancelling and waiting\<close>

fun cancel_urbs :: "host \<Rightarrow> urb_slot list \<Rightarrow> wire \<Rightarrow> urb_slot list \<times> int \<times> wire" where
  "cancel_urbs env [] w = ([], 0, w)"
| "cancel_urbs env (u # us) w =
     (if us_state u = 0 then
        let (r, w) = ask env (Cancel_Transfer (us_xfer u)) w; (us, n, w) = cancel_urbs env us w
        in (u\<lparr>us_state := 1\<rparr> # us, (if r_rc r = 0 then 1 else 0) + n, w)
      else let (us, n, w) = cancel_urbs env us w in (u # us, n, w))"

text \<open>The first \<open>k\<close> slots are cancelled, each accepted cancel counted as pending.\<close>

definition cancel_first :: "host \<Rightarrow> nat \<Rightarrow> stream \<Rightarrow> wire \<Rightarrow> stream \<times> wire" where
  "cancel_first env k s w =
     (let (us, n, w) = cancel_urbs env (take k (urbs s)) w
      in (s\<lparr>urbs := us @ drop k (urbs s), pending_cancel := pending_cancel s + n\<rparr>, w))"

text \<open>\<open>while (pending_cancel > 0) pthread_cond_wait(...)\<close>; what is left of the completions is
  returned.\<close>

fun await_cancels :: "host \<Rightarrow> completion list \<Rightarrow> stream \<Rightarrow> wire
    \<Rightarrow> (completion list \<times> stream \<times> wire) option" where
  "await_cancels env [] s w = (if pending_cancel s > 0 then None else Some ([], s, w))"
| "await_cancels env (c # cs) s w =
     (if pending_cancel s > 0
      then let (s, w) = stream_xfer_cb env c s w in await_cancels env cs s w
      else Some (c # cs, s, w))"

subsection \<open>Open\<close>

record stream_cfg =
  cfg_endpoint :: u8
  cfg_buf_size :: u32
  cfg_pool_depth :: u32
  cfg_ring_capacity :: u32
  cfg_wake_fd :: int

definition USBQ_STREAM_DEFAULT_BUF_SIZE :: u32 where "USBQ_STREAM_DEFAULT_BUF_SIZE = 48128"
definition USBQ_STREAM_DEFAULT_POOL_DEPTH :: u32 where "USBQ_STREAM_DEFAULT_POOL_DEPTH = 16"
definition USBQ_STREAM_DEFAULT_RING_BYTES :: u32 where
  "USBQ_STREAM_DEFAULT_RING_BYTES = 8 * 1024 * 1024"

definition empty_slot :: urb_slot where
  "empty_slot = \<lparr>us_xfer = 0, us_buf = False, us_state = 0\<rparr>"

text \<open>Allocation of the pool: the slots allocated so far, the failing one included, and whether all
  of them succeeded.\<close>

fun alloc_urbs :: "host \<Rightarrow> nat \<Rightarrow> wire \<Rightarrow> bool \<times> urb_slot list \<times> wire" where
  "alloc_urbs env 0 w = (True, [], w)"
| "alloc_urbs env (Suc n) w =
     (let (b, w) = ask env Alloc w; (x, w) = ask env Alloc_Transfer w;
          u = \<lparr>us_xfer = r_handle x, us_buf = (r_rc b \<noteq> 0), us_state = 0\<rparr>
      in if r_rc b = 0 \<or> r_handle x = 0 then (False, [u], w)
         else let (ok, us, w) = alloc_urbs env n w in (ok, u # us, w))"

fun free_xfers :: "urb_slot list \<Rightarrow> wire \<Rightarrow> wire" where
  "free_xfers [] w = w"
| "free_xfers (u # us) w =
     free_xfers us (if us_xfer u \<noteq> 0 then w @ [Free_Transfer (us_xfer u)] else w)"

text \<open>Submission in pool order: the index and code of the first failure.\<close>

fun submit_urbs :: "host \<Rightarrow> urb_slot list \<Rightarrow> nat \<Rightarrow> wire \<Rightarrow> (nat \<times> int) option \<times> wire" where
  "submit_urbs env [] i w = (None, w)"
| "submit_urbs env (u # us) i w =
     (let (r, w) = ask env (Submit_Transfer (us_xfer u)) w
      in if r_rc r < 0 then (Some (i, r_rc r), w) else submit_urbs env us (Suc i) w)"

text \<open>From \<open>usbq_evt_acquire\<close> on: start the event thread, submit the pool, and on a failed submission
  take back what was submitted. The result is \<open>None\<close> while that failure path still waits for its
  cancellations; \<open>Some\<close> carries the pointer the call returns.\<close>

definition stream_launch :: "host \<Rightarrow> stream \<Rightarrow> completion list \<Rightarrow> usbq_lib \<Rightarrow> wire
    \<Rightarrow> (stream option \<times> usbq_lib \<times> wire) option" where
  "stream_launch env s evs g w =
     (let (rc, g, w) = usbq_evt_acquire env g w
      in if rc \<noteq> 0 then Some (None, g, free_xfers (urbs s) w)
         else
           let (f, w) = submit_urbs env (urbs s) 0 w
           in (case f of
                 None \<Rightarrow> Some (Some s, g, w)
               | Some (i, _) \<Rightarrow>
                   let (s, w) = cancel_first env i (s\<lparr>stopping := True\<rparr>) w
                   in (case await_cancels env evs s w of
                         None \<Rightarrow> None
                       | Some (_, s, w) \<Rightarrow>
                           let (g, w) = usbq_evt_release g (stream_wake_select s w)
                           in Some (None, g, free_xfers (urbs s) w))))"

definition new_stream :: "stream_cfg \<Rightarrow> bytes \<Rightarrow> urb_slot list \<Rightarrow> stream" where
  "new_stream c ring0 us =
     (let cap = unat (if cfg_ring_capacity c \<noteq> 0 then cfg_ring_capacity c
                      else USBQ_STREAM_DEFAULT_RING_BYTES)
      in \<lparr>ring_buf = take cap (ring0 @ replicate cap 0), ring_cap = cap, ring_head = 0,
          ring_tail = 0, ring_used = 0, overflow_bytes = 0, urbs = us, pending_cancel = 0,
          stopping = False, wake_fd = (if cfg_wake_fd c > 0 then cfg_wake_fd c else -1)\<rparr>)"

text \<open>The three allocations are the stream, its ring (whose bytes are whatever \<open>malloc\<close> returned) and
  the slot array.\<close>

definition usbq_stream_open :: "host \<Rightarrow> usbq_dev option \<Rightarrow> stream_cfg option \<Rightarrow> completion list
    \<Rightarrow> usbq_lib \<Rightarrow> wire \<Rightarrow> (stream option \<times> usbq_lib \<times> wire) option" where
  "usbq_stream_open env dev cfg evs g w =
     (case (dev, cfg) of
        (Some d, Some c) \<Rightarrow>
          if cfg_endpoint c AND 0x80 = 0 then Some (None, g, w)
          else
            let depth = unat (if cfg_pool_depth c \<noteq> 0 then cfg_pool_depth c
                              else USBQ_STREAM_DEFAULT_POOL_DEPTH);
                (r, w) = ask env Alloc w
            in if r_rc r = 0 then Some (None, g, w)
               else
                 let (r, w) = ask env Alloc w
                 in if r_rc r = 0 then Some (None, g, w)
                    else
                      let ring0 = r_data r; (r, w) = ask env Alloc w
                      in if r_rc r = 0 then Some (None, g, w)
                         else
                           let (ok, us, w) = alloc_urbs env depth w
                           in if \<not> ok then Some (None, g, free_xfers us w)
                              else stream_launch env (new_stream c ring0 us) evs g w
      | _ \<Rightarrow> Some (None, g, w))"

subsection \<open>Close\<close>

fun free_all :: "urb_slot list \<Rightarrow> wire \<Rightarrow> wire" where
  "free_all [] w = w"
| "free_all (u # us) w = free_all us (w @ [Free_Transfer (us_xfer u)])"

definition usbq_stream_close :: "host \<Rightarrow> stream option \<Rightarrow> completion list \<Rightarrow> usbq_lib \<Rightarrow> wire
    \<Rightarrow> (usbq_lib \<times> wire) option" where
  "usbq_stream_close env so evs g w =
     (case so of
        None \<Rightarrow> Some (g, w)
      | Some s \<Rightarrow>
          let (s, w) = cancel_first env (pool_depth s) (s\<lparr>stopping := True\<rparr>) w
          in (case await_cancels env evs s w of
                None \<Rightarrow> None
              | Some (_, s, w) \<Rightarrow> Some (usbq_evt_release g (free_all (urbs s) w))))"

subsection \<open>Read, flush, restart\<close>

text \<open>The absolute deadline: seconds and nanoseconds, with the nanoseconds brought below a second.\<close>

definition read_deadline :: "int \<times> int \<Rightarrow> u32 \<Rightarrow> int \<times> int" where
  "read_deadline now timeout_ms =
     (let sec = fst now + int (unat timeout_ms div 1000);
          nsec = snd now + int (unat timeout_ms mod 1000) * 1000000
      in if nsec \<ge> 1000000000 then (sec + 1, nsec - 1000000000) else (sec, nsec))"

fun run_callbacks :: "host \<Rightarrow> completion list \<Rightarrow> stream \<Rightarrow> wire \<Rightarrow> stream \<times> wire" where
  "run_callbacks env [] s w = (s, w)"
| "run_callbacks env (c # cs) s w =
     (let (s, w) = stream_xfer_cb env c s w in run_callbacks env cs s w)"

text \<open>Each wait is the callbacks that ran during it and what \<open>pthread_cond_timedwait\<close> returned.\<close>

fun await_data :: "host \<Rightarrow> (completion list \<times> int) list \<Rightarrow> stream \<Rightarrow> wire \<Rightarrow> (stream \<times> wire) option"
where
  "await_data env [] s w = (if ring_used s = 0 \<and> \<not> stopping s then None else Some (s, w))"
| "await_data env ((cs, rc) # waits) s w =
     (if ring_used s = 0 \<and> \<not> stopping s
      then let (s, w) = run_callbacks env cs s w
           in if rc \<noteq> 0 then Some (s, w) else await_data env waits s w
      else Some (s, w))"

definition usbq_stream_read :: "host \<Rightarrow> stream option \<Rightarrow> bytes option \<Rightarrow> nat \<Rightarrow> u32
    \<Rightarrow> int \<times> int \<Rightarrow> (int \<times> int \<Rightarrow> (completion list \<times> int) list) \<Rightarrow> wire
    \<Rightarrow> (int \<times> bytes option \<times> stream option \<times> wire) option" where
  "usbq_stream_read env so bufo cap timeout_ms now timedwait w =
     (case (so, bufo) of
        (Some s, Some buf) \<Rightarrow>
          if cap = 0 then Some (- EINVAL, bufo, so, w)
          else
            (case (if ring_used s = 0 \<and> timeout_ms > 0 \<and> \<not> stopping s
                   then await_data env (timedwait (read_deadline now timeout_ms)) s w
                   else Some (s, w)) of
               None \<Rightarrow> None
             | Some (s, w) \<Rightarrow>
                 let want = (if cap > ring_used s then ring_used s else cap)
                 in if want = 0 then Some (if stopping s then - ENODEV else 0, Some buf, Some s, w)
                    else let (out, s) = ring_dequeue s cap
                         in Some (c_int want, Some (memcpy_at buf 0 out want), Some s, w))
      | _ \<Rightarrow> Some (- EINVAL, bufo, so, w))"

definition usbq_stream_flush :: "stream option \<Rightarrow> stream option" where
  "usbq_stream_flush so = (case so of None \<Rightarrow> None | Some s \<Rightarrow> Some (ring_flush s))"

definition usbq_stream_restart :: "host \<Rightarrow> stream option \<Rightarrow> completion list \<Rightarrow> wire
    \<Rightarrow> (int \<times> stream option \<times> wire) option" where
  "usbq_stream_restart env so evs w =
     (case so of
        None \<Rightarrow> Some (- EINVAL, None, w)
      | Some s \<Rightarrow>
          if stopping s then Some (- EINVAL, Some s, w)
          else
            let (s, w) = cancel_first env (pool_depth s) s w
            in (case await_cancels env evs s w of
                  None \<Rightarrow> None
                | Some (_, s, w) \<Rightarrow>
                    let s = s\<lparr>urbs := map (\<lambda>u. u\<lparr>us_state := 0\<rparr>) (urbs s)\<rparr>;
                        (f, w) = submit_urbs env (urbs s) 0 w
                    in (case f of
                          None \<Rightarrow> Some (0, Some s, w)
                        | Some (_, rc) \<Rightarrow>
                            let s = s\<lparr>stopping := True\<rparr>
                            in Some (rc, Some s, stream_wake_select s w))))"

definition usbq_stream_overflow_bytes :: "stream option \<Rightarrow> u64" where
  "usbq_stream_overflow_bytes so = (case so of None \<Rightarrow> 0 | Some s \<Rightarrow> overflow_bytes s)"

subsection \<open>Waiting ends\<close>

lemma cb_frame [simp]:
  "us_xfer (u\<lparr>us_state := n\<rparr>) = us_xfer u"
  "pending_cancel (cb_push s c) = pending_cancel s" "urbs (cb_push s c) = urbs s"
  "stopping (cb_push s c) = stopping s" "wake_fd (cb_push s c) = wake_fd s"
  "urbs (cb_cancelled s) = urbs s" "stopping (cb_cancelled s) = stopping s"
  "wake_fd (cb_cancelled s) = wake_fd s"
  by (simp_all add: cb_push_def cb_cancelled_def ring_push_locked_def Let_def)

lemma stream_xfer_cb_frame:
  assumes "stream_xfer_cb env c s w = (s', w')"
  shows "urbs s' = urbs s" "wake_fd s' = wake_fd s" "stopping s \<longrightarrow> stopping s'"
    "pending_cancel s' = (if co_status c = Xfer_Cancelled then max 0 (pending_cancel s - 1)
                          else pending_cancel s)"
  using assms
  by (auto simp: stream_xfer_cb_def Let_def ask_def cb_fail_def cb_cancelled_def split: if_splits)

definition cancelled_count :: "completion list \<Rightarrow> nat" where
  "cancelled_count cs = length (filter (\<lambda>c. co_status c = Xfer_Cancelled) cs)"

lemma await_cancels_returns:
  "pending_cancel s \<le> int (cancelled_count evs) \<Longrightarrow> await_cancels env evs s w \<noteq> None"
proof (induction env evs s w rule: await_cancels.induct)
  case (2 env c cs s w)
  obtain s1 w1 where cb: "stream_xfer_cb env c s w = (s1, w1)" by force
  have "pending_cancel s1 \<le> int (cancelled_count cs)" if "0 < pending_cancel s"
    using 2(2) that stream_xfer_cb_frame(4) [OF cb]
    by (cases "co_status c = Xfer_Cancelled") (simp_all add: cancelled_count_def)
  then show ?case using 2(1) [OF _ cb [symmetric]] by (simp add: cb)
qed (simp add: cancelled_count_def)

lemma await_cancels_frame:
  "await_cancels env evs s w = Some (rest, s', w') \<Longrightarrow>
     urbs s' = urbs s \<and> wake_fd s' = wake_fd s \<and> (stopping s \<longrightarrow> stopping s') \<and>
     pending_cancel s' \<le> 0"
proof (induction env evs s w rule: await_cancels.induct)
  case (2 env c cs s w)
  obtain s1 w1 where cb: "stream_xfer_cb env c s w = (s1, w1)" by force
  show ?case
  proof (cases "0 < pending_cancel s")
    case True
    then show ?thesis using 2 cb stream_xfer_cb_frame [OF cb] by simp
  next
    case False
    then show ?thesis using 2(2) by auto
  qed
qed (auto split: if_splits)

lemma cancel_urbs_spec:
  "cancel_urbs env us w = (us', n, w') \<Longrightarrow>
     map us_xfer us' = map us_xfer us \<and> length us' = length us \<and>
     0 \<le> n \<and> n \<le> int (length us)"
  by (induction env us w arbitrary: us' n w' rule: cancel_urbs.induct)
     (fastforce simp: Let_def ask_def split: if_splits prod.splits)+

lemma cancel_urbs_marks:
  "cancel_urbs env us w = (us', n, w') \<Longrightarrow> \<forall>u \<in> set us'. us_state u \<noteq> 0"
  by (induction env us w arbitrary: us' n w' rule: cancel_urbs.induct)
     (fastforce simp: Let_def ask_def split: if_splits prod.splits)+

subsection \<open>Which transfers a call allocates and frees\<close>

fun alloc_log :: "host \<Rightarrow> wire \<Rightarrow> wire \<Rightarrow> nat list" where
  "alloc_log env w [] = []"
| "alloc_log env w (q # v) =
     (if q = Alloc_Transfer \<and> r_handle (env (w @ [q])) \<noteq> 0 then [r_handle (env (w @ [q]))] else [])
     @ alloc_log env (w @ [q]) v"

fun free_log :: "wire \<Rightarrow> nat list" where
  "free_log [] = []"
| "free_log (Free_Transfer x # v) = x # free_log v"
| "free_log (_ # v) = free_log v"

lemma alloc_log_append:
  "alloc_log env w (v1 @ v2) = alloc_log env w v1 @ alloc_log env (w @ v1) v2"
  by (induction env w v1 rule: alloc_log.induct) simp_all

lemma free_log_append [simp]: "free_log (v1 @ v2) = free_log v1 @ free_log v2"
  by (induction v1 rule: free_log.induct) simp_all

text \<open>From \<open>w\<close> to \<open>w'\<close> the calls allocated \<open>A\<close> and freed \<open>F\<close>.\<close>

definition xfer_log :: "host \<Rightarrow> wire \<Rightarrow> wire \<Rightarrow> nat list \<Rightarrow> nat list \<Rightarrow> bool" where
  "xfer_log env w w' A F \<longleftrightarrow> (\<exists>v. w' = w @ v \<and> alloc_log env w v = A \<and> free_log v = F)"

lemma xfer_log_refl [simp, intro]: "xfer_log env w w [] []"
  by (simp add: xfer_log_def)

lemma xfer_log_trans [trans]:
  "xfer_log env w w1 A F \<Longrightarrow> xfer_log env w1 w2 B G \<Longrightarrow> xfer_log env w w2 (A @ B) (F @ G)"
  by (auto simp: xfer_log_def alloc_log_append)

lemma xfer_log_quiet:
  "xfer_log env w w1 A F \<Longrightarrow> xfer_log env w1 w2 [] [] \<Longrightarrow> xfer_log env w w2 A F"
  using xfer_log_trans by fastforce

definition quiet_req :: "usb_req \<Rightarrow> bool" where
  "quiet_req q \<longleftrightarrow> (case q of Alloc_Transfer \<Rightarrow> False | Free_Transfer _ \<Rightarrow> False | _ \<Rightarrow> True)"

lemma quiet_reqs [simp]:
  "quiet_req Alloc" "quiet_req (Submit_Transfer x)" "quiet_req (Cancel_Transfer x)"
  "quiet_req (Write_Fd fd)" "quiet_req Thread_Create" "quiet_req Thread_Join"
  by (simp_all add: quiet_req_def)

lemma xfer_log_after: "xfer_log env w w1 A F \<Longrightarrow> quiet_req q \<Longrightarrow> xfer_log env w (w1 @ [q]) A F"
  by (rule xfer_log_quiet) (cases q; auto simp: xfer_log_def quiet_req_def)+

lemma xfer_log_before: "xfer_log env (w @ [q]) w1 A F \<Longrightarrow> quiet_req q \<Longrightarrow> xfer_log env w w1 A F"
  using xfer_log_trans [of env w "w @ [q]" "[]" "[]" w1 A F] xfer_log_after [of env w w "[]" "[]" q]
  by simp

lemma xfer_log_after2:
  "xfer_log env w w1 A F \<Longrightarrow> quiet_req q \<Longrightarrow> quiet_req q' \<Longrightarrow> xfer_log env w (w1 @ [q, q']) A F"
  using xfer_log_after [of env w "w1 @ [q]" A F q'] by (simp add: xfer_log_after)

lemma xfer_log_wake: "xfer_log env w w1 A F \<Longrightarrow> xfer_log env w (stream_wake_select s w1) A F"
  by (simp add: stream_wake_select_def xfer_log_after)

lemma xfer_log_cb:
  "stream_xfer_cb env c s w = (s', w') \<Longrightarrow> xfer_log env w w' [] []"
  by (auto simp: stream_xfer_cb_def Let_def ask_def xfer_log_after xfer_log_after2 xfer_log_wake
      split: if_splits)

lemma xfer_log_await:
  "await_cancels env evs s w = Some (rest, s', w') \<Longrightarrow> xfer_log env w w' [] []"
proof (induction env evs s w rule: await_cancels.induct)
  case (2 env c cs s w)
  obtain s1 w1 where cb: "stream_xfer_cb env c s w = (s1, w1)" by force
  show ?case
    using 2 cb xfer_log_quiet [OF xfer_log_cb [OF cb]] by (auto split: if_splits)
qed (auto split: if_splits)

lemma xfer_log_cancel:
  "cancel_urbs env us w = (us', n, w') \<Longrightarrow> xfer_log env w w' [] []"
proof (induction us arbitrary: us' n w w')
  case (Cons u us)
  then show ?case
    by (auto simp: Let_def ask_def split: if_splits prod.splits
        dest!: Cons.IH dest: xfer_log_before)
qed simp

lemma xfer_log_submit:
  "submit_urbs env us i w = (f, w') \<Longrightarrow> xfer_log env w w' [] []"
proof (induction us arbitrary: i w)
  case (Cons u us)
  then show ?case
    by (auto simp: Let_def ask_def xfer_log_after split: if_splits dest!: Cons.IH
        dest: xfer_log_before)
qed simp

lemma xfer_log_alloc:
  "alloc_urbs env n w = (ok, us, w') \<Longrightarrow>
     xfer_log env w w' (filter (\<lambda>x. x \<noteq> 0) (map us_xfer us)) []
     \<and> (ok \<longrightarrow> (\<forall>u \<in> set us. us_xfer u \<noteq> 0 \<and> us_buf u \<and> us_state u = 0) \<and> length us = n)"
proof (induction n arbitrary: ok us w w')
  case (Suc n)
  let ?w = "w @ [Alloc, Alloc_Transfer]"
  let ?x = "r_handle (env ?w)"
  have 1: "xfer_log env w ?w (filter (\<lambda>x. x \<noteq> 0) [?x]) []"
    by (simp add: xfer_log_def)
  show ?case
  proof (cases "r_rc (env (w @ [Alloc])) = 0 \<or> ?x = 0")
    case True
    then show ?thesis using Suc.prems 1 by (auto simp: ask_def Let_def)
  next
    case False
    obtain ok1 us1 w1 where a: "alloc_urbs env n ?w = (ok1, us1, w1)" by (cases "alloc_urbs env n ?w")
    show ?thesis
      using Suc.prems False a Suc.IH [OF a] xfer_log_trans [OF 1] by (auto simp: ask_def Let_def)
  qed
qed simp

lemma xfer_log_free:
  "xfer_log env w (free_xfers us w) [] (filter (\<lambda>x. x \<noteq> 0) (map us_xfer us))"
proof (induction us w rule: free_xfers.induct)
  case (2 u us w)
  let ?w = "if us_xfer u \<noteq> 0 then w @ [Free_Transfer (us_xfer u)] else w"
  have "xfer_log env w ?w [] (filter (\<lambda>x. x \<noteq> 0) [us_xfer u])" by (simp add: xfer_log_def)
  from xfer_log_trans [OF this 2] show ?case by (simp split: if_splits)
qed simp

lemma xfer_log_free_all: "xfer_log env w (free_all us w) [] (map us_xfer us)"
proof (induction us w rule: free_all.induct)
  case (2 u us w)
  have "xfer_log env w (w @ [Free_Transfer (us_xfer u)]) [] [us_xfer u]" by (simp add: xfer_log_def)
  from xfer_log_trans [OF this 2] show ?case by simp
qed simp

lemma xfer_log_evt:
  "usbq_evt_acquire env g w = (rc, g', w') \<Longrightarrow> xfer_log env w w' [] []"
  "usbq_evt_release g w = (g', w') \<Longrightarrow> xfer_log env w w' [] []"
  by (auto simp: usbq_evt_acquire_def usbq_evt_release_def evt_release_begin_def ask_def Let_def
      xfer_log_after split: if_splits)

subsection \<open>A stream that open returned\<close>

definition stream_ready :: "stream \<Rightarrow> bool" where
  "stream_ready s \<longleftrightarrow>
     ring_wf s \<and> ring_used s = 0 \<and> overflow_bytes s = 0 \<and> pending_cancel s = 0 \<and> \<not> stopping s \<and>
     urbs s \<noteq> [] \<and> (\<forall>u \<in> set (urbs s). us_xfer u \<noteq> 0 \<and> us_buf u \<and> us_state u = 0)"

lemma cancel_first_spec:
  assumes "cancel_first env k s w = (s', w')"
  shows "map us_xfer (urbs s') = map us_xfer (urbs s)" "xfer_log env w w' [] []"
    "wake_fd s' = wake_fd s" "stopping s' = stopping s"
    "pending_cancel s \<le> pending_cancel s'" "pending_cancel s' \<le> pending_cancel s + int k"
    "ring_list s' = ring_list s" "ring_wf s' = ring_wf s" "ring_cap s' = ring_cap s"
proof -
  obtain us n w1 where c: "cancel_urbs env (take k (urbs s)) w = (us, n, w1)"
    by (cases "cancel_urbs env (take k (urbs s)) w")
  note [simp] = assms [unfolded cancel_first_def c Let_def prod.case prod.inject,
      THEN conjunct1, symmetric]
  note spec = cancel_urbs_spec [OF c]
  show "map us_xfer (urbs s') = map us_xfer (urbs s)"
    using spec by simp (metis append_take_drop_id map_append)
  show "xfer_log env w w' [] []"
    using assms xfer_log_cancel [OF c] by (simp add: cancel_first_def c)
  show "pending_cancel s \<le> pending_cancel s'" "pending_cancel s' \<le> pending_cancel s + int k"
    using spec by auto
  show "ring_list s' = ring_list s" "ring_wf s' = ring_wf s"
    by (simp_all add: ring_list_def ring_wf_def)
  show "wake_fd s' = wake_fd s" "stopping s' = stopping s" "ring_cap s' = ring_cap s"
    by simp_all
qed

lemma evt_acquire_count:
  "0 \<le> evt_refcount g \<Longrightarrow> usbq_evt_acquire env g w = (rc, g', w') \<Longrightarrow>
     evt_refcount g' = evt_refcount g + (if rc = 0 then 1 else 0)"
  by (auto simp: usbq_evt_acquire_def ask_def Let_def split: if_splits)

lemma evt_release_count:
  "0 < evt_refcount g \<Longrightarrow> usbq_evt_release g w = (g', w') \<Longrightarrow> evt_refcount g' = evt_refcount g - 1"
  by (auto simp: usbq_evt_release_def evt_release_begin_def evt_release_end_def Let_def
      split: if_splits)

text \<open>What a launch leaves: a running stream, or every transfer freed and the event thread released.\<close>

lemma stream_launch_spec:
  assumes "stream_launch env s evs g w = Some (so, g', w')" "0 \<le> evt_refcount g"
  shows "(so = Some s \<and> evt_refcount g' = evt_refcount g + 1 \<and> xfer_log env w w' [] []) \<or>
    (so = None \<and> evt_refcount g' = evt_refcount g \<and>
       xfer_log env w w' [] (filter (\<lambda>x. x \<noteq> 0) (map us_xfer (urbs s))))"
proof -
  obtain rc g1 w1 where acq: "usbq_evt_acquire env g w = (rc, g1, w1)"
    by (cases "usbq_evt_acquire env g w")
  note ref1 = evt_acquire_count [OF assms(2) acq]
  note log1 = xfer_log_evt(1) [OF acq]
  obtain f w2 where sub: "submit_urbs env (urbs s) 0 w1 = (f, w2)" by force
  note log2 = xfer_log_quiet [OF log1 xfer_log_submit [OF sub]]
  show ?thesis
  proof (cases "rc \<noteq> 0")
    case True
    then show ?thesis
      using assms(1) acq ref1 xfer_log_trans [OF log1 xfer_log_free [of _ _ "urbs s"]]
      by (auto simp: stream_launch_def)
  next
    case rc: False
    show ?thesis
    proof (cases f)
      case None
      then show ?thesis using assms(1) acq ref1 log2 rc sub by (auto simp: stream_launch_def)
    next
      case (Some p)
      obtain s3 w3 where c: "cancel_first env (fst p) (s\<lparr>stopping := True\<rparr>) w2 = (s3, w3)" by force
      obtain rest s4 w4 where a: "await_cancels env evs s3 w3 = Some (rest, s4, w4)"
        using assms(1) acq rc sub Some c
        by (cases p) (auto simp: stream_launch_def split: option.splits)
      obtain g5 w5 where r: "usbq_evt_release g1 (stream_wake_select s4 w4) = (g5, w5)" by force
      have res: "so = None" "g' = g5" "w' = free_xfers (urbs s4) w5"
        using assms(1) acq rc sub Some c a r
        by (cases p; simp add: stream_launch_def)+
      have "xfer_log env w w4 [] []"
        using xfer_log_quiet [OF xfer_log_quiet [OF log2 cancel_first_spec(2) [OF c]]
            xfer_log_await [OF a]] .
      then have "xfer_log env w w5 [] []"
        using xfer_log_quiet [OF xfer_log_wake xfer_log_evt(2) [OF r]] by blast
      from xfer_log_trans [OF this xfer_log_free [of _ _ "urbs s4"]]
      have "xfer_log env w w' [] (filter (\<lambda>x. x \<noteq> 0) (map us_xfer (urbs s4)))"
        by (simp add: res)
      moreover have "map us_xfer (urbs s4) = map us_xfer (urbs s)"
        using await_cancels_frame [OF a] cancel_first_spec(1) [OF c] by simp
      moreover have "evt_refcount g5 = evt_refcount g"
        using evt_release_count [OF _ r] ref1 rc assms(2) by simp
      ultimately show ?thesis using res by simp
    qed
  qed
qed

lemma new_stream_ready:
  assumes "us \<noteq> []" "\<forall>u \<in> set us. us_xfer u \<noteq> 0 \<and> us_buf u \<and> us_state u = 0"
  shows "stream_ready (new_stream c ring0 us)"
proof -
  have "0 < unat (if cfg_ring_capacity c \<noteq> 0 then cfg_ring_capacity c
      else USBQ_STREAM_DEFAULT_RING_BYTES)"
    by (simp add: USBQ_STREAM_DEFAULT_RING_BYTES_def unat_gt_0)
  then show ?thesis
    using assms by (simp add: stream_ready_def new_stream_def Let_def ring_wf_def)
qed

lemma stream_open_spec:
  assumes "usbq_stream_open env dev cfg evs g w = Some (so, g', w')" "0 \<le> evt_refcount g"
  shows "case so of
      None \<Rightarrow> evt_refcount g' = evt_refcount g \<and> (\<exists>xs. xfer_log env w w' xs xs)
    | Some s \<Rightarrow> stream_ready s \<and> evt_refcount g' = evt_refcount g + 1 \<and>
        xfer_log env w w' (map us_xfer (urbs s)) []"
proof (cases "\<exists>d c. dev = Some d \<and> cfg = Some c \<and> cfg_endpoint c AND 0x80 \<noteq> 0 \<and>
    (\<forall>k \<in> {1, 2, 3}. r_rc (env (w @ replicate k Alloc)) \<noteq> 0)")
  case False
  then have "so = None \<and> g' = g \<and> w' \<in> {w, w @ [Alloc], w @ [Alloc, Alloc], w @ [Alloc, Alloc, Alloc]}"
    using assms(1)
    by (auto simp: usbq_stream_open_def ask_def Let_def numeral_2_eq_2 numeral_3_eq_3
        split: option.splits if_splits)
  moreover have "xfer_log env w (w @ [Alloc]) [] []" "xfer_log env w (w @ [Alloc, Alloc]) [] []"
    "xfer_log env w (w @ [Alloc, Alloc, Alloc]) [] []"
    by (simp_all add: xfer_log_def)
  ultimately show ?thesis by auto
next
  case True
  then obtain d c where dc: "dev = Some d" "cfg = Some c" "cfg_endpoint c AND 0x80 \<noteq> 0"
    "r_rc (env (w @ [Alloc])) \<noteq> 0" "r_rc (env (w @ [Alloc, Alloc])) \<noteq> 0"
    "r_rc (env (w @ [Alloc, Alloc, Alloc])) \<noteq> 0"
    by (auto simp: numeral_2_eq_2 numeral_3_eq_3)
  define n where "n = unat (if cfg_pool_depth c \<noteq> 0 then cfg_pool_depth c
      else USBQ_STREAM_DEFAULT_POOL_DEPTH)"
  have n: "n \<noteq> 0" by (simp add: n_def USBQ_STREAM_DEFAULT_POOL_DEPTH_def unat_eq_0)
  obtain ok us w1 where al: "alloc_urbs env n (w @ [Alloc, Alloc, Alloc]) = (ok, us, w1)"
    by (cases "alloc_urbs env n (w @ [Alloc, Alloc, Alloc])")
  note spec = xfer_log_alloc [OF al]
  have "xfer_log env w (w @ [Alloc, Alloc, Alloc]) [] []"
    by (simp add: xfer_log_def)
  from xfer_log_trans [OF this conjunct1 [OF spec]]
  have log1: "xfer_log env w w1 (filter (\<lambda>x. x \<noteq> 0) (map us_xfer us)) []" by simp
  define s where "s = new_stream c (r_data (env (w @ [Alloc, Alloc]))) us"
  have run: "usbq_stream_open env dev cfg evs g w =
      (if \<not> ok then Some (None, g, free_xfers us w1) else stream_launch env s evs g w1)"
    using dc al by (simp add: usbq_stream_open_def ask_def s_def flip: n_def)
  show ?thesis
  proof (cases ok)
    case False
    then show ?thesis
      using assms(1) run xfer_log_trans [OF log1 xfer_log_free [of _ _ us]] by auto
  next
    case True
    then have us: "\<forall>u \<in> set us. us_xfer u \<noteq> 0 \<and> us_buf u \<and> us_state u = 0" "us \<noteq> []"
      using spec n by auto
    then have nz: "filter (\<lambda>x. x \<noteq> 0) (map us_xfer us) = map us_xfer us"
      by (simp add: filter_id_conv)
    have s: "urbs s = us" by (simp add: s_def new_stream_def Let_def)
    have "stream_launch env s evs g w1 = Some (so, g', w')" using assms(1) run True by simp
    note launch = stream_launch_spec [OF this assms(2), unfolded s nz]
    note log1 = log1 [unfolded nz]
    show ?thesis
    proof (cases so)
      case None
      then show ?thesis using launch xfer_log_trans [OF log1] by fastforce
    next
      case (Some s')
      then have "s' = s" "evt_refcount g' = evt_refcount g + 1" "xfer_log env w1 w' [] []"
        using launch by auto
      then show ?thesis
        using Some xfer_log_quiet [OF log1] new_stream_ready [OF us(2,1)]
        by (simp add: s) (simp add: s_def)
    qed
  qed
qed

lemma await_cancels_nonneg:
  "await_cancels env evs s w = Some (rest, s', w') \<Longrightarrow> 0 \<le> pending_cancel s \<Longrightarrow> 0 \<le> pending_cancel s'"
proof (induction evs arbitrary: s w)
  case (Cons c cs)
  obtain s1 w1 where cb: "stream_xfer_cb env c s w = (s1, w1)" by force
  show ?case
    using Cons cb stream_xfer_cb_frame(4) [OF cb] by (auto split: if_splits)
qed (auto split: if_splits)

lemma submit_urbs_fails: "submit_urbs env us i w = (Some (k, rc), w') \<Longrightarrow> rc < 0"
  by (induction us arbitrary: i w) (auto simp: Let_def ask_def split: if_splits)

subsection \<open>Which transfers a call submits\<close>

fun submits :: "wire \<Rightarrow> nat list" where
  "submits [] = []"
| "submits (Submit_Transfer x # v) = x # submits v"
| "submits (_ # v) = submits v"

lemma submits_append [simp]: "submits (v1 @ v2) = submits v1 @ submits v2"
  by (induction v1 rule: submits.induct) simp_all

lemma submits_wake [simp]: "submits (stream_wake_select s w) = submits w"
  by (simp add: stream_wake_select_def)

lemma submits_cancel: "cancel_urbs env us w = (us', n, w') \<Longrightarrow> submits w' = submits w"
proof (induction us arbitrary: us' n w w')
  case (Cons u us)
  then show ?case
    by (auto simp: Let_def ask_def split: if_splits prod.splits dest!: Cons.IH)
qed simp

lemma submits_free_all [simp]: "submits (free_all us w) = submits w"
  by (induction us w rule: free_all.induct) simp_all

lemma submits_evt_release: "usbq_evt_release g w = (g', w') \<Longrightarrow> submits w' = submits w"
  by (auto simp: usbq_evt_release_def evt_release_begin_def Let_def split: if_splits)

lemma submits_urbs:
  "submit_urbs env us i w = (None, w') \<Longrightarrow> submits w' = submits w @ map us_xfer us"
proof (induction us arbitrary: i w)
  case (Cons u us)
  then show ?case by (auto simp: Let_def ask_def split: if_splits dest!: Cons.IH)
qed simp

text \<open>A callback whose slot is cancelled, or whose stream is stopping, does not resubmit.\<close>

lemma cb_quiet:
  assumes "stream_xfer_cb env c s w = (s', w')" "cb_done s (co_slot c)"
  shows "submits w' = submits w" "stopping s' = stopping s"
proof -
  have d: "cb_done (cb_push s c) (co_slot c)" using assms(2) by (simp add: cb_done_def)
  show "submits w' = submits w" "stopping s' = stopping s"
    using assms(1,2) d by (auto simp: stream_xfer_cb_def Let_def ask_def split: if_splits)
qed

lemma await_quiet:
  "await_cancels env evs s w = Some (rest, s', w') \<Longrightarrow> \<forall>c \<in> set evs. cb_done s (co_slot c) \<Longrightarrow>
     submits w' = submits w \<and> stopping s' = stopping s"
proof (induction evs arbitrary: s w)
  case (Cons c cs)
  obtain s1 w1 where cb: "stream_xfer_cb env c s w = (s1, w1)" by force
  note q = cb_quiet [OF cb] and f = stream_xfer_cb_frame [OF cb]
  show ?case
  proof (cases "0 < pending_cancel s")
    case True
    have "\<forall>c \<in> set cs. cb_done s1 (co_slot c)"
      using Cons.prems(2) f q by (auto simp: cb_done_def)
    with Cons.IH [of s1 w1] Cons.prems True q show ?thesis by (simp add: cb)
  next
    case False
    then show ?thesis using Cons.prems by auto
  qed
qed (auto split: if_splits)

lemma stream_xfer_cb_ring:
  assumes "stream_xfer_cb env c s w = (s', w')" "ring_wf s"
  shows "ring_wf s' \<and> ring_cap s' = ring_cap s"
proof -
  have r: "ring_wf (s\<lparr>stopping := b\<rparr>) = ring_wf s" "ring_wf (s\<lparr>pending_cancel := n\<rparr>) = ring_wf s"
    for b n and s :: stream by (simp_all add: ring_wf_def)
  have p: "ring_wf (cb_push s c)" "ring_cap (cb_push s c) = ring_cap s"
    using assms(2) by (simp_all add: cb_push_def ring_push_wf)
  show ?thesis
    using assms(1,2) p
    by (auto simp: stream_xfer_cb_def cb_cancelled_def cb_fail_def Let_def ask_def r split: if_splits)
qed

lemma await_ring:
  "await_cancels env evs s w = Some (rest, s', w') \<Longrightarrow> ring_wf s \<Longrightarrow>
     ring_wf s' \<and> ring_cap s' = ring_cap s"
proof (induction evs arbitrary: s w)
  case (Cons c cs)
  obtain s1 w1 where cb: "stream_xfer_cb env c s w = (s1, w1)" by force
  show ?case
    using Cons cb stream_xfer_cb_ring [OF cb] by (auto split: if_splits)
qed (auto split: if_splits)

lemma run_callbacks_ring:
  "run_callbacks env cs s w = (s', w') \<Longrightarrow> ring_wf s \<Longrightarrow> ring_wf s' \<and> ring_cap s' = ring_cap s"
proof (induction cs arbitrary: s w)
  case (Cons c cs)
  obtain s1 w1 where cb: "stream_xfer_cb env c s w = (s1, w1)" by force
  show ?case using Cons cb stream_xfer_cb_ring [OF cb] by auto
qed simp

lemma run_callbacks_append:
  "run_callbacks env (cs @ ds) s w =
     (let (s, w) = run_callbacks env cs s w in run_callbacks env ds s w)"
  by (induction cs arbitrary: s w) (simp_all split: prod.split)

text \<open>A wait for data ends in a state the callbacks produced, and with an empty ring on a running
  stream only when a wait timed out or failed.\<close>

lemma await_data_spec:
  "await_data env waits s w = Some (s', w') \<Longrightarrow>
     (\<exists>cs. run_callbacks env cs s w = (s', w')) \<and>
     (ring_used s' = 0 \<and> \<not> stopping s' \<longrightarrow> (\<exists>x \<in> set waits. snd x \<noteq> 0))"
proof (induction env waits s w rule: await_data.induct)
  case (1 env s w)
  then show ?case by (auto split: if_splits intro: exI [of _ "[]"])
next
  case (2 env cs rc waits s w)
  obtain s1 w1 where run: "run_callbacks env cs s w = (s1, w1)" by force
  show ?case
  proof (cases "ring_used s = 0 \<and> \<not> stopping s")
    case False
    then have "s' = s" "w' = w" using 2(2) by auto
    then show ?thesis using False by (auto intro: exI [of _ "[]"])
  next
    case c: True
    show ?thesis
    proof (cases "rc = 0")
      case True
      have *: "await_data env waits s1 w1 = Some (s', w')" using 2(2) c True run by simp
      obtain ds where "run_callbacks env ds s1 w1 = (s', w')"
        using 2(1) [OF c run [symmetric] refl] True * by auto
      then have "run_callbacks env (cs @ ds) s w = (s', w')" by (simp add: run_callbacks_append run)
      then show ?thesis using 2(1) [OF c run [symmetric] refl] True * by auto
    next
      case False
      then show ?thesis using 2(2) c run by auto
    qed
  qed
qed

subsection \<open>Properties\<close>

text \<open>C9: Opening a stream leaks nothing. Whatever allocation, thread or submission fails, a call that
  returns NULL has freed exactly the libusb transfers it allocated, each once, and given back its
  reference on the event thread; a call that returns a stream has freed none, the stream's pool holds
  the transfers allocated, its ring is empty and well formed, and it holds one reference.\<close>

theorem stream_open_no_leak:
  assumes "usbq_stream_open env dev cfg evs g w = Some (so, g', w')" "0 \<le> evt_refcount g"
  shows "\<exists>v. w' = w @ v \<and>
    (case so of
       None \<Rightarrow> free_log v = alloc_log env w v \<and> evt_refcount g' = evt_refcount g
     | Some s \<Rightarrow> free_log v = [] \<and> map us_xfer (urbs s) = alloc_log env w v \<and> stream_ready s \<and>
         evt_refcount g' = evt_refcount g + 1)"
  using stream_open_spec [OF assms] by (cases so) (auto simp: xfer_log_def)

text \<open>A host on which the second submission fails and every cancel is accepted.\<close>

definition submit_fails_host :: host where
  "submit_fails_host w =
     \<lparr>r_rc = (if last w = Alloc then 1
              else if last w = Submit_Transfer 9 \<and> count_list w (Submit_Transfer 9) = 2 then -4 else 0),
      r_data = [], r_devs = [], r_handle = 9, r_fds = (3, 4)\<rparr>"

definition sample_dev :: usbq_dev where
  "sample_dev = \<lparr>ud_handle = 5, ud_vid = 0x2013, ud_pid = 0x025f, ud_bus = 1, ud_addr = 7,
                 ud_auto_detach = True\<rparr>"

definition sample_cfg :: stream_cfg where
  "sample_cfg = \<lparr>cfg_endpoint = 0x84, cfg_buf_size = 512, cfg_pool_depth = 2, cfg_ring_capacity = 8,
                 cfg_wake_fd = 0\<rparr>"

definition cancelled_co :: "nat \<Rightarrow> completion" where
  "cancelled_co i = \<lparr>co_slot = i, co_status = Xfer_Cancelled, co_data = []\<rparr>"

lemma alloc_urbs_2: "alloc_urbs env 2 w =
    (let (b, w) = ask env Alloc w; (x, w) = ask env Alloc_Transfer w;
         u = \<lparr>us_xfer = r_handle x, us_buf = (r_rc b \<noteq> 0), us_state = 0\<rparr>
     in if r_rc b = 0 \<or> r_handle x = 0 then (False, [u], w)
        else let (ok, us, w) = alloc_urbs env (Suc 0) w in (ok, u # us, w))"
  by (simp add: numeral_2_eq_2)

lemma stream_open_no_leak_witness:
  "\<exists>v. usbq_stream_open submit_fails_host (Some sample_dev) (Some sample_cfg) [cancelled_co 0]
         usbq_lib_start [] = Some (None, usbq_lib_start\<lparr>evt_stop := True\<rparr>, v) \<and>
       free_log v = [9, 9] \<and> alloc_log submit_fails_host [] v = [9, 9]"
proof -
  let ?v = "[Alloc, Alloc, Alloc, Alloc, Alloc_Transfer, Alloc, Alloc_Transfer, Thread_Create,
     Submit_Transfer 9, Submit_Transfer 9, Cancel_Transfer 9, Thread_Join, Free_Transfer 9,
     Free_Transfer 9]"
  have run: "usbq_stream_open submit_fails_host (Some sample_dev) (Some sample_cfg) [cancelled_co 0]
       usbq_lib_start [] = Some (None, usbq_lib_start\<lparr>evt_stop := True\<rparr>, ?v)"
    by (simp add: usbq_stream_open_def stream_launch_def new_stream_def sample_cfg_def
        alloc_urbs_2 ask_def submit_fails_host_def usbq_evt_acquire_def usbq_lib_start_def
        cancel_first_def stream_xfer_cb_def cb_cancelled_def cancelled_co_def
        stream_wake_select_def usbq_evt_release_def evt_release_begin_def evt_release_end_def)
  have "free_log ?v = [9, 9]" by simp
  moreover have "free_log ?v = alloc_log submit_fails_host [] ?v"
    using stream_open_no_leak [OF run] by (simp add: usbq_lib_start_def)
  ultimately show ?thesis using run by metis
qed

text \<open>C10: Closing a stream returns, and safely: once libusb has called back for each cancellation it
  accepted, the call returns; between setting the stopping flag and freeing the pool nothing is
  resubmitted; every transfer of the pool is freed exactly once, in pool order; and the reference on
  the event thread is given back.\<close>

theorem stream_close_returns:
  assumes idle: "pending_cancel s = 0" "0 < evt_refcount g"
    and cancelled: "cancel_urbs env (urbs s) w = (us, accepted, w1)"
      "accepted \<le> int (cancelled_count evs)"
  shows "\<exists>g' v. usbq_stream_close env (Some s) evs g w = Some (g', w @ v) \<and>
    submits v = [] \<and> free_log v = map us_xfer (urbs s) \<and> alloc_log env w v = [] \<and>
    evt_refcount g' = evt_refcount g - 1"
proof -
  obtain s2 w2 where c: "cancel_first env (pool_depth s) (s\<lparr>stopping := True\<rparr>) w = (s2, w2)" by force
  then have s2: "pending_cancel s2 = accepted" "w2 = w1" "stopping s2"
    using cancelled(1) idle by (auto simp: cancel_first_def pool_depth_def)
  obtain rest s3 w3 where a: "await_cancels env evs s2 w2 = Some (rest, s3, w3)"
    using await_cancels_returns [of s2 evs env w2] s2 cancelled(2) by auto
  obtain g' w4 where r: "usbq_evt_release g (free_all (urbs s3) w3) = (g', w4)" by force
  have close: "usbq_stream_close env (Some s) evs g w = Some (g', w4)"
    by (simp add: usbq_stream_close_def c a r)
  have xs: "map us_xfer (urbs s3) = map us_xfer (urbs s)"
    using await_cancels_frame [OF a] cancel_first_spec(1) [OF c] by simp
  have "xfer_log env w w3 [] []"
    using xfer_log_quiet [OF cancel_first_spec(2) [OF c] xfer_log_await [OF a]] .
  from xfer_log_quiet [OF xfer_log_trans [OF this xfer_log_free_all] xfer_log_evt(2) [OF r]]
  obtain v where v: "w4 = w @ v" "alloc_log env w v = []" "free_log v = map us_xfer (urbs s)"
    by (auto simp: xfer_log_def xs)
  have "\<forall>c \<in> set evs. cb_done s2 (co_slot c)" using s2 by (simp add: cb_done_def)
  from await_quiet [OF a this] have "submits w4 = submits w"
    using submits_evt_release [OF r] submits_cancel [OF cancelled(1)] s2 by simp
  then show ?thesis
    using close v evt_release_count [OF idle(2) r] by auto
qed

definition obliging_host :: host where
  "obliging_host w = \<lparr>r_rc = 0, r_data = [], r_devs = [], r_handle = 9, r_fds = (3, 4)\<rparr>"

definition sample_stream :: stream where
  "sample_stream = ring.extend sample_ring
     \<lparr>urbs = [\<lparr>us_xfer = 7, us_buf = True, us_state = 0\<rparr>, \<lparr>us_xfer = 8, us_buf = True, us_state = 0\<rparr>],
      pending_cancel = 0, stopping = False, wake_fd = -1\<rparr>"

lemma sample_stream_simps [simp]:
  "urbs sample_stream = [\<lparr>us_xfer = 7, us_buf = True, us_state = 0\<rparr>,
     \<lparr>us_xfer = 8, us_buf = True, us_state = 0\<rparr>]"
  "pending_cancel sample_stream = 0" "\<not> stopping sample_stream" "wake_fd sample_stream = -1"
  "ring_used sample_stream = 2" "ring_cap sample_stream = 4" "ring_wf sample_stream"
  by (simp_all add: sample_stream_def sample_ring_def ring.extend_def ring_wf_def)

lemma stream_close_returns_witness:
  "\<exists>g' v. usbq_stream_close obliging_host (Some sample_stream) [cancelled_co 1, cancelled_co 0]
      (usbq_lib_start\<lparr>evt_refcount := 1\<rparr>) [] = Some (g', v) \<and> free_log v = [7, 8]"
proof -
  have c: "cancel_urbs obliging_host (urbs sample_stream) [] =
      ([\<lparr>us_xfer = 7, us_buf = True, us_state = 1\<rparr>, \<lparr>us_xfer = 8, us_buf = True, us_state = 1\<rparr>], 2,
       [Cancel_Transfer 7, Cancel_Transfer 8])"
    by (simp add: ask_def obliging_host_def)
  have "(2::int) \<le> int (cancelled_count [cancelled_co 1, cancelled_co 0])"
    by (simp add: cancelled_count_def cancelled_co_def)
  from stream_close_returns [OF _ _ c this, of "usbq_lib_start\<lparr>evt_refcount := 1\<rparr>"]
  show ?thesis by auto
qed

text \<open>C13: A read of a stream reports what it did: the bytes returned are the oldest of the ring at the
  moment it stopped waiting and exactly those leave the ring; it returns \<open>-ENODEV\<close> only for a drained
  ring of a stopping stream, and 0 only for a drained ring of a running one, and then only if it was
  asked not to wait or a wait timed out. It waits only on an empty ring of a running stream.\<close>

theorem stream_read_spec:
  assumes "usbq_stream_read env (Some s) (Some buf) cap timeout_ms now timedwait w
             = Some (rc, buf', so', w')"
    and "ring_wf s" "0 < cap" "cap < 2 ^ 31"
  shows "\<exists>cs s1 s'. run_callbacks env cs s w = (s1, w') \<and> so' = Some s' \<and>
    (0 < ring_used s \<or> timeout_ms = 0 \<or> stopping s \<longrightarrow> cs = []) \<and>
    (let out = take cap (ring_list s1) in
       buf' = Some (memcpy_at buf 0 out (length out)) \<and>
       ring_list s' = drop cap (ring_list s1) \<and> ring_wf s' \<and>
       rc = (if out \<noteq> [] then int (length out) else if stopping s1 then - ENODEV else 0)) \<and>
    (rc = 0 \<longrightarrow> timeout_ms = 0 \<or>
       (\<exists>x \<in> set (timedwait (read_deadline now timeout_ms)). snd x \<noteq> 0))"
proof -
  define waits where "waits = timedwait (read_deadline now timeout_ms)"
  define wait where "wait \<longleftrightarrow> ring_used s = 0 \<and> timeout_ms > 0 \<and> \<not> stopping s"
  obtain s1 w1 where m: "(if wait then await_data env waits s w else Some (s, w)) = Some (s1, w1)"
    using assms(1,3) unfolding wait_def waits_def
    by (cases "if ring_used s = 0 \<and> 0 < timeout_ms \<and> \<not> stopping s
        then await_data env (timedwait (read_deadline now timeout_ms)) s w else Some (s, w)")
       (auto simp: usbq_stream_read_def)
  have res: "w' = w1" "so' = Some (snd (ring_dequeue s1 cap)) \<or> ring_used s1 = 0 \<and> so' = Some s1"
    "(rc, buf') = (if ring_used s1 = 0 then (if stopping s1 then - ENODEV else 0, Some buf)
       else (c_int (min cap (ring_used s1)),
             Some (memcpy_at buf 0 (fst (ring_dequeue s1 cap)) (min cap (ring_used s1)))))"
    using assms(1,3) m
    by (auto simp: usbq_stream_read_def Let_def min_def simp flip: waits_def wait_def
        split: if_splits prod.splits)
  obtain cs where cs: "run_callbacks env cs s w = (s1, w1)" "\<not> wait \<longrightarrow> cs = []"
    and zero: "ring_used s1 = 0 \<and> \<not> stopping s1 \<and> wait \<longrightarrow> (\<exists>x \<in> set waits. snd x \<noteq> 0)"
  proof (cases wait)
    case True
    then show ?thesis using that await_data_spec [of env waits s w s1 w1] m by auto
  next
    case False
    then show ?thesis using that [of "[]"] m by simp
  qed
  have wf: "ring_wf s1" using run_callbacks_ring [OF cs(1) assms(2)] by simp
  have l0: "ring_used s1 = 0 \<longrightarrow> ring_list s1 = []" by (simp add: ring_list_def)
  obtain s' where s': "so' = Some s'" "ring_list s' = drop cap (ring_list s1)" "ring_wf s'"
    using res(2) wf ring_dequeue_list [OF wf] ring_dequeue_wf [OF wf] l0 by fastforce
  have empty: "take cap (ring_list s1) = [] \<longleftrightarrow> ring_used s1 = 0"
    using assms(3) by (metis length_0_conv length_ring_list less_numeral_extra(3) take_eq_Nil)
  have small: "min cap (ring_used s1) < 2147483648" using assms(4) by simp
  have out: "buf' = Some (memcpy_at buf 0 (take cap (ring_list s1)) (length (take cap (ring_list s1))))"
    "rc = (if take cap (ring_list s1) \<noteq> [] then int (length (take cap (ring_list s1)))
           else if stopping s1 then - ENODEV else 0)"
    using res(3) small unfolding empty
    by (auto simp: ring_dequeue_out [OF wf] min.commute split: if_splits)
  have "rc = 0 \<longrightarrow> timeout_ms = 0 \<or> (\<exists>x \<in> set waits. snd x \<noteq> 0)"
    using zero m res(3) small assms(3)
    by (auto simp: wait_def word_neq_0_conv split: if_splits)
  then show ?thesis
    using cs s' out res(1)
    by (intro exI [of _ cs] exI [of _ s1] exI [of _ s'])
       (auto simp: wait_def Let_def waits_def word_neq_0_conv)
qed

lemma stream_read_spec_witness:
  "\<exists>s'. usbq_stream_read obliging_host (Some sample_stream) (Some [0, 0, 0, 0]) 3 100 (0, 0)
      (\<lambda>d. []) [] = Some (2, Some [4, 1, 0, 0], Some s', []) \<and> ring_list s' = []"
proof -
  have l: "ring_list sample_stream = [4, 1]"
    by (simp add: ring_list_def sample_stream_def sample_ring_def ring.extend_def upt_conv_Cons)
  obtain rc b so w where r: "usbq_stream_read obliging_host (Some sample_stream) (Some [0, 0, 0, 0]) 3
      100 (0, 0) (\<lambda>d. []) [] = Some (rc, b, so, w)"
    by (simp add: usbq_stream_read_def Let_def split_beta)
  show ?thesis
    using stream_read_spec [OF r] by (auto simp: r l Let_def memcpy_at_def)
qed

text \<open>The deadline of a timed read is normalised: the nanoseconds stay below a second, and the
  deadline lies exactly \<open>timeout_ms\<close> milliseconds after the current time, for every timeout.\<close>

theorem read_deadline_exact:
  assumes "read_deadline now timeout_ms = (sec, nsec)" "0 \<le> snd now" "snd now < 1000000000"
  shows "0 \<le> nsec \<and> nsec < 1000000000 \<and>
     sec * 1000000000 + nsec = fst now * 1000000000 + snd now + int (unat timeout_ms) * 1000000"
proof -
  define q r where "q = int (unat timeout_ms div 1000)" and "r = int (unat timeout_ms mod 1000)"
  have t: "int (unat timeout_ms) = 1000 * q + r"
    unfolding q_def r_def by (metis mult_div_mod_eq of_nat_add of_nat_mult of_nat_numeral)
  have r: "0 \<le> r" "r < 1000" by (simp_all add: r_def)
  show ?thesis
    using assms r unfolding t
    by (auto simp: read_deadline_def Let_def simp flip: q_def r_def split: if_splits)
qed

lemma read_deadline_exact_witness: "read_deadline (10, 999000000) 2500 = (13, 499000000)"
proof -
  obtain sec nsec where r: "read_deadline (10, 999000000) 2500 = (sec, nsec)" by force
  have b: "0 \<le> nsec" "nsec < 1000000000" "sec * 1000000000 + nsec = 13499000000"
    using read_deadline_exact [OF r] by simp_all
  then have "sec < 14" "12 < sec" by linarith+
  then have s: "sec = 13" by simp
  have "nsec = 499000000" using b(3) unfolding s by simp
  then show ?thesis using r s by simp
qed

text \<open>C20: Restarting a running stream, once libusb has called back for each cancellation it accepted,
  returns with the pool back in its normal state: no slot is marked, nothing is pending, the ring is
  well formed. It reports 0 exactly when it left the stream running, and then it submitted every
  transfer of the pool exactly once, in pool order.\<close>

theorem stream_restart_spec:
  assumes run: "pending_cancel s = 0" "\<not> stopping s" "ring_wf s"
    and cancelled: "cancel_urbs env (urbs s) w = (us, accepted, w1)"
      "accepted \<le> int (cancelled_count evs)" "\<forall>c \<in> set evs. co_slot c < pool_depth s"
  shows "\<exists>rc s' w'. usbq_stream_restart env (Some s) evs w = Some (rc, Some s', w') \<and>
    (\<forall>u \<in> set (urbs s'). us_state u = 0) \<and> pending_cancel s' = 0 \<and>
    ring_wf s' \<and> ring_cap s' = ring_cap s \<and> (rc = 0 \<longleftrightarrow> \<not> stopping s') \<and>
    (rc = 0 \<longrightarrow> submits w' = submits w @ map us_xfer (urbs s))"
proof -
  obtain s2 w2 where c: "cancel_first env (pool_depth s) s w = (s2, w2)" by force
  note c' = cancel_first_spec [OF c]
  have s2: "pending_cancel s2 = accepted" "w2 = w1" "\<not> stopping s2" "ring_wf s2" "urbs s2 = us"
    using cancelled(1) run c' c by (auto simp: cancel_first_def pool_depth_def)
  obtain rest s3 w3 where a: "await_cancels env evs s2 w2 = Some (rest, s3, w3)"
    using await_cancels_returns [of s2 evs env w2] s2 cancelled(2) by auto
  have "length us = pool_depth s" using cancel_urbs_spec [OF cancelled(1)] by (simp add: pool_depth_def)
  then have "\<forall>c \<in> set evs. cb_done s2 (co_slot c)"
    using cancel_urbs_marks [OF cancelled(1)] cancelled(3) s2(5) by (simp add: cb_done_def)
  from await_quiet [OF a this] have q: "submits w3 = submits w" "\<not> stopping s3"
    using submits_cancel [OF cancelled(1)] s2 by auto
  have p: "pending_cancel s3 = 0"
    using await_cancels_frame [OF a] await_cancels_nonneg [OF a]
      cancel_urbs_spec [OF cancelled(1)] s2(1) by simp
  have r: "ring_wf s3" "ring_cap s3 = ring_cap s" using await_ring [OF a s2(4)] c' by auto
  have xs: "map us_xfer (urbs s3) = map us_xfer (urbs s)"
    using await_cancels_frame [OF a] c'(1) by simp
  define s4 where "s4 = s3\<lparr>urbs := map (\<lambda>u. u\<lparr>us_state := 0\<rparr>) (urbs s3)\<rparr>"
  have s4: "map us_xfer (urbs s4) = map us_xfer (urbs s)" "\<forall>u \<in> set (urbs s4). us_state u = 0"
    "\<not> stopping s4" "pending_cancel s4 = 0" "ring_cap s4 = ring_cap s"
    using q p r xs by (auto simp: s4_def comp_def)
  have wf: "ring_wf s4" "ring_wf (s4\<lparr>stopping := True\<rparr>)" using r by (simp_all add: s4_def ring_wf_def)
  obtain f w4 where f: "submit_urbs env (urbs s4) 0 w3 = (f, w4)" by force
  have res: "usbq_stream_restart env (Some s) evs w =
      (case f of None \<Rightarrow> Some (0, Some s4, w4)
       | Some (i, rc) \<Rightarrow> Some (rc, Some (s4\<lparr>stopping := True\<rparr>), stream_wake_select (s4\<lparr>stopping := True\<rparr>) w4))"
    using run f by (simp add: usbq_stream_restart_def c a Let_def s4_def split: option.split)
  show ?thesis
  proof (cases f)
    case None
    then show ?thesis using res s4 wf submits_urbs [of env "urbs s4" 0 w3 w4] f q by auto
  next
    case (Some p)
    then have "snd p < 0" using f submit_urbs_fails [of env "urbs s4" 0 w3 "fst p" "snd p" w4] by simp
    then show ?thesis using Some res s4 wf by (cases p) auto
  qed
qed

lemma stream_restart_spec_witness:
  "\<exists>s' w'. usbq_stream_restart obliging_host (Some sample_stream) [cancelled_co 1, cancelled_co 0] []
      = Some (0, Some s', w') \<and> submits w' = [7, 8]"
proof -
  have c: "cancel_urbs obliging_host (urbs sample_stream) [] =
      ([\<lparr>us_xfer = 7, us_buf = True, us_state = 1\<rparr>, \<lparr>us_xfer = 8, us_buf = True, us_state = 1\<rparr>], 2,
       [Cancel_Transfer 7, Cancel_Transfer 8])"
    by (simp add: ask_def obliging_host_def)
  have "(2::int) \<le> int (cancelled_count [cancelled_co 1, cancelled_co 0])"
    "\<forall>c \<in> set [cancelled_co 1, cancelled_co 0]. co_slot c < pool_depth sample_stream"
    by (simp_all add: cancelled_count_def cancelled_co_def pool_depth_def)
  from stream_restart_spec [OF _ _ _ c this] obtain rc s' w' where
    r: "usbq_stream_restart obliging_host (Some sample_stream) [cancelled_co 1, cancelled_co 0] []
      = Some (rc, Some s', w')" "rc = 0 \<longrightarrow> submits w' = [7, 8]"
    by auto
  have "rc = 0"
    using r(1) by (auto simp: usbq_stream_restart_def cancel_first_def pool_depth_def ask_def
        obliging_host_def stream_xfer_cb_def cb_cancelled_def cancelled_co_def)
  then show ?thesis using r by auto
qed

end
