(* ===== verification/Stream_Race.thy ===== *)
theory Stream_Race
  imports Usbq_Stream
begin

text \<open>
  The event thread and one caller of a stream, interleaved (\<open>usbq/src/usbq.c\<close>: \<open>stream_xfer_cb\<close>
  against \<open>usbq_stream_close\<close>, \<open>usbq_stream_restart\<close>, \<open>usbq_stream_read\<close> and \<open>usbq_stream_flush\<close>).
  A step is a section that runs under the stream's mutex, a call into libusb outside it, or libusb
  taking a transfer out of flight to call back; the sections are those of \<open>Usbq_Stream\<close>. libusb's
  side is the state of each transfer: idle, in flight, or in flight with a cancellation accepted. As
  documented, a cancel is accepted exactly for a transfer in flight, a cancelled transfer calls back
  once with \<open>CANCELLED\<close>, submitting a transfer that is in flight fails, and callbacks run on the one
  event thread. \<open>ok\<close> says whether the device never fails a submission.
\<close>

datatype xfer_st = X_Idle | X_Flight | X_Cancelling

text \<open>Where the event thread is in \<open>stream_xfer_cb\<close>.\<close>

datatype ev_pc =
    Ev_Idle
  | Ev_Cancelled nat       \<comment> \<open>before the section that counts a cancellation\<close>
  | Ev_Data completion     \<comment> \<open>before the section that pushes the data\<close>
  | Ev_Check nat           \<comment> \<open>before the section that reads \<open>stopping\<close> and \<open>state\<close>\<close>
  | Ev_Submit nat          \<comment> \<open>before \<open>libusb_submit_transfer\<close>\<close>
  | Ev_Fail                \<comment> \<open>before the section that sets \<open>stopping\<close>\<close>

text \<open>Where the caller is; the scans hold the mutex, the waits do not.\<close>

datatype api_pc =
    Api_Idle
  | Close_Scan nat | Close_Wait | Close_Freed
  | Restart_Scan nat | Restart_Wait | Restart_Submit nat | Restart_Fail

record sys =
  sy_stream :: stream
  sy_xfers :: "xfer_st list"
  sy_ev :: ev_pc
  sy_api :: api_pc

definition sys_init :: "stream \<Rightarrow> sys" where
  "sys_init s = \<lparr>sy_stream = s, sy_xfers = replicate (pool_depth s) X_Flight, sy_ev = Ev_Idle,
                 sy_api = Api_Idle\<rparr>"

definition mutex_free :: "sys \<Rightarrow> bool" where
  "mutex_free y \<longleftrightarrow> (case sy_api y of Close_Scan _ \<Rightarrow> False | Restart_Scan _ \<Rightarrow> False | _ \<Rightarrow> True)"

text \<open>One turn of the cancel loop of close and restart.\<close>

definition cancel_slot :: "nat \<Rightarrow> sys \<Rightarrow> sys" where
  "cancel_slot i y =
     (let s = sy_stream y; u = urbs s ! i
      in if us_state u = 0 then
           let s = s\<lparr>urbs := (urbs s)[i := u\<lparr>us_state := 1\<rparr>]\<rparr>
           in if sy_xfers y ! i = X_Flight
              then y\<lparr>sy_stream := s\<lparr>pending_cancel := pending_cancel s + 1\<rparr>,
                     sy_xfers := (sy_xfers y)[i := X_Cancelling]\<rparr>
              else y\<lparr>sy_stream := s\<rparr>
         else y)"

inductive stream_step :: "bool \<Rightarrow> sys \<Rightarrow> sys \<Rightarrow> bool" for ok :: bool where
  deliver_done:
    "sy_ev y = Ev_Idle \<Longrightarrow> co_slot c < length (sy_xfers y) \<Longrightarrow> sy_xfers y ! co_slot c = X_Flight \<Longrightarrow>
     co_status c \<noteq> Xfer_Cancelled \<Longrightarrow>
     stream_step ok y (y\<lparr>sy_xfers := (sy_xfers y)[co_slot c := X_Idle],
       sy_ev := if cb_wants_data (sy_stream y) c then Ev_Data c else Ev_Check (co_slot c)\<rparr>)"
| deliver_cancelled:
    "sy_ev y = Ev_Idle \<Longrightarrow> i < length (sy_xfers y) \<Longrightarrow> sy_xfers y ! i = X_Cancelling \<Longrightarrow>
     stream_step ok y (y\<lparr>sy_xfers := (sy_xfers y)[i := X_Idle], sy_ev := Ev_Cancelled i\<rparr>)"
| ev_cancelled:
    "sy_ev y = Ev_Cancelled i \<Longrightarrow> mutex_free y \<Longrightarrow>
     stream_step ok y (y\<lparr>sy_stream := cb_cancelled (sy_stream y), sy_ev := Ev_Idle\<rparr>)"
| ev_data:
    "sy_ev y = Ev_Data c \<Longrightarrow> mutex_free y \<Longrightarrow>
     stream_step ok y (y\<lparr>sy_stream := cb_push (sy_stream y) c, sy_ev := Ev_Check (co_slot c)\<rparr>)"
| ev_check:
    "sy_ev y = Ev_Check i \<Longrightarrow> mutex_free y \<Longrightarrow>
     stream_step ok y (y\<lparr>sy_ev := if cb_done (sy_stream y) i then Ev_Idle else Ev_Submit i\<rparr>)"
| ev_submit:
    "sy_ev y = Ev_Submit i \<Longrightarrow> sy_xfers y ! i = X_Idle \<Longrightarrow>
     stream_step ok y (y\<lparr>sy_xfers := (sy_xfers y)[i := X_Flight], sy_ev := Ev_Idle\<rparr>)"
| ev_submit_fails:
    "sy_ev y = Ev_Submit i \<Longrightarrow> \<not> ok \<or> sy_xfers y ! i \<noteq> X_Idle \<Longrightarrow>
     stream_step ok y (y\<lparr>sy_ev := Ev_Fail\<rparr>)"
| ev_fail:
    "sy_ev y = Ev_Fail \<Longrightarrow> mutex_free y \<Longrightarrow>
     stream_step ok y (y\<lparr>sy_stream := cb_fail (sy_stream y), sy_ev := Ev_Idle\<rparr>)"
| close_start:
    "sy_api y = Api_Idle \<Longrightarrow>
     stream_step ok y (y\<lparr>sy_stream := (sy_stream y)\<lparr>stopping := True\<rparr>, sy_api := Close_Scan 0\<rparr>)"
| close_scan:
    "sy_api y = Close_Scan i \<Longrightarrow> i < length (sy_xfers y) \<Longrightarrow>
     stream_step ok y ((cancel_slot i y)\<lparr>sy_api := Close_Scan (Suc i)\<rparr>)"
| close_scanned:
    "sy_api y = Close_Scan (length (sy_xfers y)) \<Longrightarrow> stream_step ok y (y\<lparr>sy_api := Close_Wait\<rparr>)"
| close_free:
    "sy_api y = Close_Wait \<Longrightarrow> pending_cancel (sy_stream y) \<le> 0 \<Longrightarrow>
     stream_step ok y (y\<lparr>sy_api := Close_Freed\<rparr>)"
| restart_start:
    "sy_api y = Api_Idle \<Longrightarrow> \<not> stopping (sy_stream y) \<Longrightarrow>
     stream_step ok y (y\<lparr>sy_api := Restart_Scan 0\<rparr>)"
| restart_scan:
    "sy_api y = Restart_Scan i \<Longrightarrow> i < length (sy_xfers y) \<Longrightarrow>
     stream_step ok y ((cancel_slot i y)\<lparr>sy_api := Restart_Scan (Suc i)\<rparr>)"
| restart_scanned:
    "sy_api y = Restart_Scan (length (sy_xfers y)) \<Longrightarrow> stream_step ok y (y\<lparr>sy_api := Restart_Wait\<rparr>)"
| restart_reset:
    "sy_api y = Restart_Wait \<Longrightarrow> pending_cancel (sy_stream y) \<le> 0 \<Longrightarrow>
     stream_step ok y (y\<lparr>sy_stream := (sy_stream y)
         \<lparr>urbs := map (\<lambda>u. u\<lparr>us_state := 0\<rparr>) (urbs (sy_stream y))\<rparr>, sy_api := Restart_Submit 0\<rparr>)"
| restart_submit:
    "sy_api y = Restart_Submit i \<Longrightarrow> i < length (sy_xfers y) \<Longrightarrow> sy_xfers y ! i = X_Idle \<Longrightarrow>
     stream_step ok y (y\<lparr>sy_xfers := (sy_xfers y)[i := X_Flight], sy_api := Restart_Submit (Suc i)\<rparr>)"
| restart_submit_fails:
    "sy_api y = Restart_Submit i \<Longrightarrow> i < length (sy_xfers y) \<Longrightarrow> \<not> ok \<or> sy_xfers y ! i \<noteq> X_Idle \<Longrightarrow>
     stream_step ok y (y\<lparr>sy_api := Restart_Fail\<rparr>)"
| restart_fail:
    "sy_api y = Restart_Fail \<Longrightarrow>
     stream_step ok y (y\<lparr>sy_stream := (sy_stream y)\<lparr>stopping := True\<rparr>, sy_api := Api_Idle\<rparr>)"
| restart_done:
    "sy_api y = Restart_Submit (length (sy_xfers y)) \<Longrightarrow> stream_step ok y (y\<lparr>sy_api := Api_Idle\<rparr>)"
| caller_reads:
    "sy_api y = Api_Idle \<Longrightarrow>
     stream_step ok y (y\<lparr>sy_stream := snd (ring_dequeue (sy_stream y) cap)\<rparr>)"
| caller_flushes:
    "sy_api y = Api_Idle \<Longrightarrow> stream_step ok y (y\<lparr>sy_stream := ring_flush (sy_stream y)\<rparr>)"

abbreviation stream_runs :: "bool \<Rightarrow> sys \<Rightarrow> sys \<Rightarrow> bool" where
  "stream_runs ok \<equiv> (stream_step ok)\<^sup>*\<^sup>*"

subsection \<open>Cancellations are counted exactly\<close>

fun ev_pending :: "ev_pc \<Rightarrow> nat" where
  "ev_pending (Ev_Cancelled i) = 1"
| "ev_pending _ = 0"

fun ev_slot_ok :: "nat \<Rightarrow> ev_pc \<Rightarrow> bool" where
  "ev_slot_ok n (Ev_Data c) = (co_slot c < n)"
| "ev_slot_ok n (Ev_Check i) = (i < n)"
| "ev_slot_ok n (Ev_Submit i) = (i < n)"
| "ev_slot_ok n _ = True"

abbreviation cancelling_xfers :: "xfer_st list \<Rightarrow> nat" where
  "cancelling_xfers xs \<equiv> length (filter (\<lambda>x. x = X_Cancelling) xs)"

definition cancelling :: "sys \<Rightarrow> nat" where
  "cancelling y = cancelling_xfers (sy_xfers y) + ev_pending (sy_ev y)"

definition sys_inv :: "sys \<Rightarrow> bool" where
  "sys_inv y \<longleftrightarrow> ring_wf (sy_stream y) \<and> length (sy_xfers y) = pool_depth (sy_stream y) \<and>
     pending_cancel (sy_stream y) = int (cancelling y) \<and> ev_slot_ok (pool_depth (sy_stream y)) (sy_ev y)"

lemma filter_update:
  "i < length xs \<Longrightarrow> length (filter P (xs[i := x])) + (if P (xs ! i) then 1 else 0)
     = length (filter P xs) + (if P x then 1 else 0)"
proof (induction xs arbitrary: i)
  case (Cons y ys)
  then show ?case by (cases i) auto
qed simp

lemma cancelling_xfers_update:
  "i < length xs \<Longrightarrow> cancelling_xfers (xs[i := x])
     = cancelling_xfers xs + (if x = X_Cancelling then 1 else 0)
       - (if xs ! i = X_Cancelling then 1 else 0)"
  using filter_update [of i xs "\<lambda>x. x = X_Cancelling" x] by simp

lemma ring_wf_updates [simp]:
  "ring_wf (s\<lparr>urbs := us\<rparr>) = ring_wf s" "ring_wf (s\<lparr>pending_cancel := n\<rparr>) = ring_wf s"
  "ring_wf (s\<lparr>stopping := b\<rparr>) = ring_wf s" for s :: stream
  by (simp_all add: ring_wf_def)

lemma section_frame [simp]:
  "ring_wf (cb_cancelled s) = ring_wf s" "ring_wf (cb_fail s) = ring_wf s"
  "urbs (cb_fail s) = urbs s" "pending_cancel (cb_fail s) = pending_cancel s"
  "stopping (cb_fail s)"
  "urbs (ring_flush s) = urbs s" "pending_cancel (ring_flush s) = pending_cancel s"
  "stopping (ring_flush s) = stopping s"
  "urbs (snd (ring_dequeue s n)) = urbs s"
  "pending_cancel (snd (ring_dequeue s n)) = pending_cancel s"
  "stopping (snd (ring_dequeue s n)) = stopping s"
  by (simp_all add: cb_cancelled_def cb_fail_def Let_def ring_flush_def ring_dequeue_def)

lemma section_wf:
  "ring_wf s \<Longrightarrow> ring_wf (cb_push s c)" for s :: stream
  by (simp add: cb_push_def ring_push_wf)

lemma cb_cancelled_count:
  "0 < pending_cancel s \<Longrightarrow> pending_cancel (cb_cancelled s) = pending_cancel s - 1"
  by (simp add: cb_cancelled_def Let_def)

lemma cancel_slot_frame [simp]:
  "sy_ev (cancel_slot i y) = sy_ev y" "sy_api (cancel_slot i y) = sy_api y"
  "length (sy_xfers (cancel_slot i y)) = length (sy_xfers y)"
  "pool_depth (sy_stream (cancel_slot i y)) = pool_depth (sy_stream y)"
  "ring_wf (sy_stream (cancel_slot i y)) = ring_wf (sy_stream y)"
  "stopping (sy_stream (cancel_slot i y)) = stopping (sy_stream y)"
  by (simp_all add: cancel_slot_def Let_def pool_depth_def)

lemma cancel_slot_count:
  assumes "i < length (sy_xfers y)"
  shows "pending_cancel (sy_stream (cancel_slot i y)) - int (cancelling (cancel_slot i y))
       = pending_cancel (sy_stream y) - int (cancelling y)"
  using assms by (simp add: cancel_slot_def Let_def cancelling_def cancelling_xfers_update)

lemma sys_inv_init: "stream_ready s \<Longrightarrow> sys_inv (sys_init s)"
  by (simp add: sys_inv_def sys_init_def stream_ready_def cancelling_def)

lemma step_inv: "stream_step ok y y' \<Longrightarrow> sys_inv y \<Longrightarrow> sys_inv y'"
proof (induction rule: stream_step.induct)
  case (deliver_cancelled y i)
  moreover have "0 < cancelling_xfers (sy_xfers y)"
    using deliver_cancelled(2,3) nth_mem [of i "sy_xfers y"] by (auto simp: filter_empty_conv)
  ultimately show ?case
    by (simp add: sys_inv_def cancelling_def cancelling_xfers_update)
next
  case (ev_cancelled y i)
  then show ?case by (simp add: sys_inv_def cancelling_def cb_cancelled_count pool_depth_def)
next
  case (close_scan y i)
  then show ?case using cancel_slot_count [of i y]
    by (auto simp: sys_inv_def cancelling_def)
next
  case (restart_scan y i)
  then show ?case using cancel_slot_count [of i y]
    by (auto simp: sys_inv_def cancelling_def)
qed (simp_all add: sys_inv_def cancelling_def cancelling_xfers_update section_wf
      pool_depth_def ring_dequeue_wf ring_flush_wf)

lemma runs_inv: "stream_runs ok y y' \<Longrightarrow> sys_inv y \<Longrightarrow> sys_inv y'"
  by (induction rule: rtranclp_induct) (auto intro: step_inv)

subsection \<open>No wait is left alone\<close>

definition waiting :: "sys \<Rightarrow> bool" where
  "waiting y \<longleftrightarrow> sy_api y = Close_Wait \<or> sy_api y = Restart_Wait"

lemma waiting_mutex: "waiting y \<Longrightarrow> mutex_free y"
  by (auto simp: waiting_def mutex_free_def)

text \<open>While a call waits, the event thread alone can finish the callback it is in.\<close>

lemma ev_to_idle:
  assumes "waiting y" "sys_inv y"
  shows "\<exists>y'. stream_runs ok y y' \<and> sy_api y' = sy_api y \<and> sy_ev y' = Ev_Idle \<and>
           pending_cancel (sy_stream y') \<le> pending_cancel (sy_stream y)"
proof -
  note free = waiting_mutex [OF assms(1)]
  let ?goal = "\<lambda>y. \<exists>y'. stream_runs ok y y' \<and> sy_api y' = sy_api y \<and> sy_ev y' = Ev_Idle \<and>
      pending_cancel (sy_stream y') \<le> pending_cancel (sy_stream y)"
  have here: "?goal y" if "stream_step ok y y'" "sy_api y' = sy_api y" "sy_ev y' = Ev_Idle"
    "pending_cancel (sy_stream y') \<le> pending_cancel (sy_stream y)" for y y'
    using that by blast
  have fail: "?goal y" if "sy_ev y = Ev_Fail" "mutex_free y" for y
    by (rule here [OF stream_step.ev_fail [OF that]]) simp_all
  have submit: "?goal y" if e: "sy_ev y = Ev_Submit i" "mutex_free y" for y i
  proof (cases "sy_xfers y ! i = X_Idle")
    case True
    then show ?thesis
      by (intro here [OF stream_step.ev_submit [OF e(1) True]]) simp_all
  next
    case False
    let ?y = "y\<lparr>sy_ev := Ev_Fail\<rparr>"
    have "?goal ?y" using e by (intro fail) (simp_all add: mutex_free_def)
    then show ?thesis
      using stream_step.ev_submit_fails [OF e(1), of ok] False
      by (auto intro: converse_rtranclp_into_rtranclp)
  qed
  have check: "?goal y" if e: "sy_ev y = Ev_Check i" "mutex_free y" for y i
  proof -
    let ?y = "y\<lparr>sy_ev := if cb_done (sy_stream y) i then Ev_Idle else Ev_Submit i\<rparr>"
    have "?goal ?y"
      using submit [of ?y i] e by (auto simp: mutex_free_def)
    then show ?thesis
      using stream_step.ev_check [OF e, of ok] by (auto intro: converse_rtranclp_into_rtranclp)
  qed
  have data: "?goal y" if e: "sy_ev y = Ev_Data c" "mutex_free y" for y c
  proof -
    let ?y = "y\<lparr>sy_stream := cb_push (sy_stream y) c, sy_ev := Ev_Check (co_slot c)\<rparr>"
    have "?goal ?y" using check [of ?y "co_slot c"] e by (auto simp: mutex_free_def)
    then show ?thesis
      using stream_step.ev_data [OF e, of ok] by (auto intro: converse_rtranclp_into_rtranclp)
  qed
  have cancelled: "?goal y" if e: "sy_ev y = Ev_Cancelled i" for i
    using assms(2) e
    by (intro here [OF stream_step.ev_cancelled [OF e free]])
       (simp_all add: cb_cancelled_count sys_inv_def cancelling_def)
  show ?thesis
    using fail submit check data cancelled free by (cases "sy_ev y") auto
qed

lemma wait_progress:
  "waiting y \<Longrightarrow> sys_inv y \<Longrightarrow>
     \<exists>y'. stream_runs ok y y' \<and> sy_api y' = sy_api y \<and> pending_cancel (sy_stream y') \<le> 0"
proof (induction "nat (pending_cancel (sy_stream y))" arbitrary: y rule: less_induct)
  case less
  obtain y1 where y1: "stream_runs ok y y1" "sy_api y1 = sy_api y" "sy_ev y1 = Ev_Idle"
    "pending_cancel (sy_stream y1) \<le> pending_cancel (sy_stream y)"
    using ev_to_idle [OF less.prems] by blast
  have inv1: "sys_inv y1" by (rule runs_inv [OF y1(1) less.prems(2)])
  show ?case
  proof (cases "pending_cancel (sy_stream y1) \<le> 0")
    case True
    then show ?thesis using y1 by blast
  next
    case False
    then have "filter (\<lambda>x. x = X_Cancelling) (sy_xfers y1) \<noteq> []"
      using inv1 y1(3) by (auto simp: sys_inv_def cancelling_def)
    then obtain i where i: "i < length (sy_xfers y1)" "sy_xfers y1 ! i = X_Cancelling"
      by (auto simp: filter_empty_conv in_set_conv_nth)
    define y2 where "y2 = y1\<lparr>sy_xfers := (sy_xfers y1)[i := X_Idle], sy_ev := Ev_Cancelled i\<rparr>"
    define y3 where "y3 = y2\<lparr>sy_stream := cb_cancelled (sy_stream y2), sy_ev := Ev_Idle\<rparr>"
    have "waiting y1" using less.prems(1) y1(2) by (simp add: waiting_def)
    then have "mutex_free y2" using waiting_mutex [of y1] by (simp add: y2_def mutex_free_def)
    then have "stream_step ok y2 y3"
      unfolding y3_def by (intro stream_step.ev_cancelled [of _ i]) (simp_all add: y2_def)
    moreover have "stream_step ok y1 y2"
      unfolding y2_def using y1(3) i by (rule stream_step.deliver_cancelled)
    ultimately have r: "stream_runs ok y y3" using y1(1) by (meson rtranclp.rtrancl_into_rtrancl)
    have "pending_cancel (sy_stream y3) = pending_cancel (sy_stream y1) - 1"
      using False by (simp add: y3_def y2_def cb_cancelled_count)
    then have m: "nat (pending_cancel (sy_stream y3)) < nat (pending_cancel (sy_stream y))"
      using False y1(4) by simp
    have "waiting y3" "sy_api y3 = sy_api y"
      using less.prems(1) y1(2) by (simp_all add: y3_def y2_def waiting_def)
    from less.hyps [OF m this(1) runs_inv [OF r less.prems(2)]] this(2) show ?thesis
      using rtranclp_trans [OF r] by metis
  qed
qed

subsection \<open>A close that no completion overlaps\<close>

fun quiet_ev :: "ev_pc \<Rightarrow> bool" where
  "quiet_ev Ev_Idle = True"
| "quiet_ev (Ev_Cancelled i) = True"
| "quiet_ev _ = False"

text \<open>A step after which the event thread handles no data while close scans the pool.\<close>

inductive quiet_step :: "bool \<Rightarrow> sys \<Rightarrow> sys \<Rightarrow> bool" for ok :: bool where
  "stream_step ok y y' \<Longrightarrow> (\<And>i. sy_api y' = Close_Scan i \<Longrightarrow> quiet_ev (sy_ev y')) \<Longrightarrow>
     quiet_step ok y y'"

definition marks_clear :: "nat \<Rightarrow> sys \<Rightarrow> bool" where
  "marks_clear i y \<longleftrightarrow> (\<forall>j < length (sy_xfers y). i \<le> j \<longrightarrow> us_state (urbs (sy_stream y) ! j) = 0)"

definition none_in_flight :: "nat \<Rightarrow> sys \<Rightarrow> bool" where
  "none_in_flight i y \<longleftrightarrow> (\<forall>j < min i (length (sy_xfers y)). sy_xfers y ! j \<noteq> X_Flight)"

fun close_ok :: "api_pc \<Rightarrow> sys \<Rightarrow> bool" where
  "close_ok (Close_Scan i) y = (quiet_ev (sy_ev y) \<and> none_in_flight i y \<and> marks_clear i y)"
| "close_ok Close_Wait y = (quiet_ev (sy_ev y) \<and> none_in_flight (length (sy_xfers y)) y)"
| "close_ok Close_Freed y = (sy_ev y = Ev_Idle \<and> (\<forall>j < length (sy_xfers y). sy_xfers y ! j = X_Idle))"
| "close_ok (Restart_Scan i) y = True"
| "close_ok Restart_Wait y = True"
| "close_ok _ y = marks_clear 0 y"

definition close_inv :: "sys \<Rightarrow> bool" where
  "close_inv y \<longleftrightarrow> close_ok (sy_api y) y"

lemma close_inv_init: "stream_ready s \<Longrightarrow> close_inv (sys_init s)"
  by (simp add: close_inv_def sys_init_def stream_ready_def marks_clear_def pool_depth_def)

lemma cancel_slot_marks:
  "marks_clear i y \<Longrightarrow> i < length (sy_xfers y) \<Longrightarrow> length (sy_xfers y) = pool_depth (sy_stream y) \<Longrightarrow>
     marks_clear (Suc i) (cancel_slot i y)"
  by (simp add: marks_clear_def cancel_slot_def Let_def pool_depth_def)

lemma cancel_slot_flight:
  "none_in_flight i y \<Longrightarrow> i < length (sy_xfers y) \<Longrightarrow> us_state (urbs (sy_stream y) ! i) = 0 \<Longrightarrow>
     none_in_flight (Suc i) (cancel_slot i y)"
  by (auto simp: none_in_flight_def cancel_slot_def Let_def nth_list_update less_Suc_eq)

lemma close_inv_step:
  "stream_step ok y y' \<Longrightarrow> (\<And>i. sy_api y' = Close_Scan i \<Longrightarrow> quiet_ev (sy_ev y')) \<Longrightarrow>
     sys_inv y \<Longrightarrow> close_inv y \<Longrightarrow> close_inv y'"
proof (induction rule: stream_step.induct)
  case (close_scan y i)
  then have "marks_clear i y" "none_in_flight i y" "quiet_ev (sy_ev y)"
    "length (sy_xfers y) = pool_depth (sy_stream y)"
    by (simp_all add: close_inv_def sys_inv_def)
  moreover from this have "us_state (urbs (sy_stream y) ! i) = 0"
    using close_scan by (simp add: marks_clear_def)
  ultimately show ?case
    using cancel_slot_marks [of i y] cancel_slot_flight [of i y] close_scan(2)
    by (simp add: close_inv_def marks_clear_def none_in_flight_def)
next
  case (close_free y)
  then have "cancelling y = 0" by (simp add: sys_inv_def)
  then have "sy_ev y = Ev_Idle" "X_Cancelling \<notin> set (sy_xfers y)"
    using close_free by (cases "sy_ev y"; auto simp: cancelling_def close_inv_def filter_empty_conv)+
  moreover have "sy_xfers y ! j \<noteq> X_Flight" if "j < length (sy_xfers y)" for j
    using close_free that by (simp add: close_inv_def none_in_flight_def)
  ultimately show ?case
    by (auto simp: close_inv_def) (metis nth_mem xfer_st.exhaust)
next
  case (restart_scan y i)
  then show ?case by (simp add: close_inv_def)
next
  case (restart_reset y)
  then show ?case by (simp add: close_inv_def marks_clear_def sys_inv_def pool_depth_def)
next
  case (deliver_done y c)
  then show ?case
    by (cases "sy_api y")
       (auto simp: close_inv_def none_in_flight_def marks_clear_def nth_list_update)
next
  case (deliver_cancelled y i)
  then show ?case
    by (cases "sy_api y")
       (auto simp: close_inv_def none_in_flight_def marks_clear_def nth_list_update)
next
  case (ev_cancelled y i)
  then show ?case by (cases "sy_api y") (simp_all add: close_inv_def none_in_flight_def marks_clear_def)
next
  case (ev_data y c)
  then show ?case by (cases "sy_api y") (simp_all add: close_inv_def none_in_flight_def marks_clear_def)
next
  case (ev_check y i)
  then show ?case by (cases "sy_api y") (simp_all add: close_inv_def none_in_flight_def marks_clear_def)
next
  case (ev_submit y i)
  then show ?case by (cases "sy_api y") (simp_all add: close_inv_def none_in_flight_def marks_clear_def)
next
  case (ev_submit_fails y i)
  then show ?case by (cases "sy_api y") (simp_all add: close_inv_def none_in_flight_def marks_clear_def)
next
  case (ev_fail y)
  then show ?case by (cases "sy_api y") (simp_all add: close_inv_def none_in_flight_def marks_clear_def)
qed (simp_all add: close_inv_def none_in_flight_def marks_clear_def
      split: api_pc.splits)

lemma quiet_runs_inv:
  "(quiet_step ok)\<^sup>*\<^sup>* y y' \<Longrightarrow> sys_inv y \<Longrightarrow> close_inv y \<Longrightarrow> sys_inv y' \<and> close_inv y'"
  by (induction rule: rtranclp_induct)
     (auto elim!: quiet_step.cases dest: step_inv intro: close_inv_step)

subsection \<open>Properties\<close>

text \<open>C2: However callbacks, cancellations, restarts, reads, flushes and device failures interleave, the
  pending count of a stream is exactly the number of accepted cancellations whose callback has not
  counted itself yet, and its ring stays well formed; so a close or restart that waits never waits in
  vain: from every reachable waiting state the event thread can bring the count to zero.\<close>

theorem stream_wait_progress:
  assumes "stream_ready s" "stream_runs ok (sys_init s) y"
  shows "ring_wf (sy_stream y) \<and> pending_cancel (sy_stream y) = int (cancelling y) \<and>
    (waiting y \<longrightarrow> (\<exists>y'. stream_runs ok y y' \<and> sy_api y' = sy_api y \<and>
                        pending_cancel (sy_stream y') \<le> 0))"
  using runs_inv [OF assms(2) sys_inv_init [OF assms(1)]] wait_progress [of y ok]
  by (auto simp: sys_inv_def)

text \<open>A stream with a single transfer, and a completion of it that carries no data.\<close>

definition one_slot :: stream where
  "one_slot = ring.extend (ring_flush sample_ring)
     \<lparr>urbs = [\<lparr>us_xfer = 7, us_buf = True, us_state = 0\<rparr>], pending_cancel = 0, stopping = False,
      wake_fd = -1\<rparr>"

definition empty_done :: completion where
  "empty_done = \<lparr>co_slot = 0, co_status = Xfer_Completed, co_data = []\<rparr>"

lemma one_slot_simps [simp]:
  "urbs one_slot = [\<lparr>us_xfer = 7, us_buf = True, us_state = 0\<rparr>]" "pending_cancel one_slot = 0"
  "\<not> stopping one_slot" "pool_depth one_slot = Suc 0" "stream_ready one_slot"
  by (simp_all add: one_slot_def ring.extend_def sample_ring_def ring_flush_def stream_ready_def
      ring_wf_def pool_depth_def)

definition one_closing :: "nat \<Rightarrow> sys" where
  "one_closing n =
     (let y0 = sys_init one_slot;
          y1 = y0\<lparr>sy_stream := one_slot\<lparr>stopping := True\<rparr>, sy_api := Close_Scan 0\<rparr>;
          y2 = (cancel_slot 0 y1)\<lparr>sy_api := Close_Scan 1\<rparr>
      in [y0, y1, y2, y2\<lparr>sy_api := Close_Wait\<rparr>] ! n)"

lemma one_closing_runs: "stream_runs ok (sys_init one_slot) (one_closing 3)"
proof -
  have "stream_step ok (one_closing 0) (one_closing 1)"
    using stream_step.close_start [of "one_closing 0" ok] by (simp add: one_closing_def Let_def sys_init_def)
  moreover have "stream_step ok (one_closing 1) (one_closing 2)"
    using stream_step.close_scan [of "one_closing 1" 0 ok] by (simp add: one_closing_def Let_def sys_init_def)
  moreover have "stream_step ok (one_closing 2) (one_closing 3)"
    using stream_step.close_scanned [of "one_closing 2" ok] by (simp add: one_closing_def Let_def sys_init_def)
  moreover have "one_closing 0 = sys_init one_slot" by (simp add: one_closing_def Let_def)
  ultimately show ?thesis by (metis rtranclp.simps)
qed

lemma stream_wait_progress_witness:
  "pending_cancel (sy_stream (one_closing 3)) = 1 \<and>
   (\<exists>y'. stream_runs True (one_closing 3) y' \<and> sy_api y' = Close_Wait \<and>
      pending_cancel (sy_stream y') \<le> 0)"
proof -
  have w: "waiting (one_closing 3)" "sy_api (one_closing 3) = Close_Wait" "cancelling (one_closing 3) = 1"
    by (simp_all add: waiting_def one_closing_def Let_def cancel_slot_def sys_init_def cancelling_def
        numeral_3_eq_3)
  show ?thesis
    using stream_wait_progress [OF _ one_closing_runs [of True]] w by simp
qed

text \<open>C21: When no completion is being handled while close scans the pool, close frees the pool only
  when libusb holds none of its transfers and the event thread is in none of its callbacks; nothing of
  the stream runs after that.\<close>

theorem stream_quiet_close_safe:
  assumes "stream_ready s" "(quiet_step ok)\<^sup>*\<^sup>* (sys_init s) y" "sy_api y = Close_Freed"
  shows "sy_ev y = Ev_Idle \<and> (\<forall>j < length (sy_xfers y). sy_xfers y ! j = X_Idle) \<and>
    (\<forall>y'. \<not> stream_step ok y y')"
proof -
  have "close_inv y"
    using quiet_runs_inv [OF assms(2) sys_inv_init [OF assms(1)] close_inv_init [OF assms(1)]] by simp
  then have i: "sy_ev y = Ev_Idle" "\<forall>j < length (sy_xfers y). sy_xfers y ! j = X_Idle"
    using assms(3) by (simp_all add: close_inv_def)
  have "\<not> stream_step ok y y'" for y'
    by (rule notI, erule stream_step.cases) (use i assms(3) in auto)
  with i show ?thesis by simp
qed

definition one_freed :: "nat \<Rightarrow> sys" where
  "one_freed n =
     (let y3 = one_closing 3;
          y4 = y3\<lparr>sy_xfers := [X_Idle], sy_ev := Ev_Cancelled 0\<rparr>;
          y5 = y4\<lparr>sy_stream := cb_cancelled (sy_stream y4), sy_ev := Ev_Idle\<rparr>
      in [one_closing 0, one_closing 1, one_closing 2, y3, y4, y5, y5\<lparr>sy_api := Close_Freed\<rparr>] ! n)"

lemma stream_quiet_close_safe_witness:
  "(quiet_step True)\<^sup>*\<^sup>* (sys_init one_slot) (one_freed 6) \<and> sy_ev (one_freed 6) = Ev_Idle"
proof -
  note defs = one_freed_def one_closing_def Let_def sys_init_def cancel_slot_def numeral_eq_Suc
  have q: "quiet_step True y y'" if "stream_step True y y'" "sy_ev y' = Ev_Idle \<or> sy_api y' = Close_Wait"
    for y y' using that by (auto intro: quiet_step.intros)
  have s0: "stream_step True (one_freed 0) (one_freed 1)"
    using stream_step.close_start [of "one_freed 0" True] by (simp add: defs)
  have s1: "stream_step True (one_freed 1) (one_freed 2)"
    using stream_step.close_scan [of "one_freed 1" 0 True] by (simp add: defs)
  have s2: "stream_step True (one_freed 2) (one_freed 3)"
    using stream_step.close_scanned [of "one_freed 2" True] by (simp add: defs)
  have s3: "stream_step True (one_freed 3) (one_freed 4)"
    using stream_step.deliver_cancelled [of "one_freed 3" 0 True] by (simp add: defs)
  have s4: "stream_step True (one_freed 4) (one_freed 5)"
    using stream_step.ev_cancelled [of "one_freed 4" 0 True] by (simp add: defs mutex_free_def)
  have s5: "stream_step True (one_freed 5) (one_freed 6)"
    using stream_step.close_free [of "one_freed 5" True] by (simp add: defs cb_cancelled_def)
  have e: "sy_ev (one_freed 1) = Ev_Idle" "sy_ev (one_freed 2) = Ev_Idle" "sy_ev (one_freed 3) = Ev_Idle"
    "sy_api (one_freed 4) = Close_Wait" "sy_ev (one_freed 5) = Ev_Idle" "sy_ev (one_freed 6) = Ev_Idle"
    "sy_api (one_freed 6) = Close_Freed"
    by (simp_all add: defs)
  have "(quiet_step True)\<^sup>*\<^sup>* (one_freed 0) (one_freed 6)"
    using q [OF s0] q [OF s1] q [OF s2] q [OF s3] q [OF s4] q [OF s5] e
    by (meson converse_rtranclp_into_rtranclp rtranclp.rtrancl_refl)
  moreover have "one_freed 0 = sys_init one_slot" by (simp add: defs)
  ultimately show ?thesis using stream_quiet_close_safe [of one_slot True "one_freed 6"] e(7) by simp
qed

text \<open>C27: That condition is needed: with a device that never fails, a completion whose callback has
  read the flags just before close takes the mutex is not in flight when the scan tries to cancel it,
  so close waits for nothing and frees the stream; the callback then submits the freed transfer, and
  libusb has it in flight.\<close>

theorem stream_close_race:
  "\<exists>y. stream_runs True (sys_init one_slot) y \<and> sy_api y = Close_Freed \<and> sy_xfers y = [X_Flight]"
proof -
  define y0 where "y0 = sys_init one_slot"
  define y1 where "y1 = y0\<lparr>sy_xfers := [X_Idle], sy_ev := Ev_Check 0\<rparr>"
  define y2 where "y2 = y1\<lparr>sy_ev := Ev_Submit 0\<rparr>"
  define y3 where "y3 = y2\<lparr>sy_stream := one_slot\<lparr>stopping := True\<rparr>, sy_api := Close_Scan 0\<rparr>"
  define y4 where "y4 = (cancel_slot 0 y3)\<lparr>sy_api := Close_Scan 1\<rparr>"
  define y5 where "y5 = y4\<lparr>sy_api := Close_Wait\<rparr>"
  define y6 where "y6 = y5\<lparr>sy_api := Close_Freed\<rparr>"
  define y7 where "y7 = y6\<lparr>sy_xfers := [X_Flight], sy_ev := Ev_Idle\<rparr>"
  note defs = y0_def y1_def y2_def y3_def y4_def y5_def y6_def y7_def sys_init_def cancel_slot_def
    Let_def
  have "stream_step True y0 y1"
    using stream_step.deliver_done [of y0 empty_done True]
    by (simp add: defs empty_done_def cb_wants_data_def)
  moreover have "stream_step True y1 y2"
    using stream_step.ev_check [of y1 0 True] by (simp add: defs mutex_free_def cb_done_def)
  moreover have "stream_step True y2 y3"
    using stream_step.close_start [of y2 True] by (simp add: defs)
  moreover have "stream_step True y3 y4"
    using stream_step.close_scan [of y3 0 True] by (simp add: defs)
  moreover have "stream_step True y4 y5"
    using stream_step.close_scanned [of y4 True] by (simp add: defs)
  moreover have "stream_step True y5 y6"
    using stream_step.close_free [of y5 True] by (simp add: defs)
  moreover have "stream_step True y6 y7"
    using stream_step.ev_submit [of y6 0 True] by (simp add: defs)
  ultimately have "stream_runs True y0 y7"
    by (meson converse_rtranclp_into_rtranclp rtranclp.rtrancl_refl)
  moreover have "sy_api y7 = Close_Freed" "sy_xfers y7 = [X_Flight]" by (simp_all add: defs)
  ultimately show ?thesis unfolding y0_def by blast
qed

text \<open>C28: The same window breaks restart: with a device that never fails and no close, a restart that
  completes while a callback is between its check and its submission makes that submission fail as
  busy, and the callback stops the stream for good.\<close>

theorem stream_restart_race:
  "\<exists>y. stream_runs True (sys_init one_slot) y \<and> sy_api y = Api_Idle \<and> stopping (sy_stream y) \<and>
     sy_xfers y = [X_Flight]"
proof -
  define y0 where "y0 = sys_init one_slot"
  define y1 where "y1 = y0\<lparr>sy_xfers := [X_Idle], sy_ev := Ev_Check 0\<rparr>"
  define y2 where "y2 = y1\<lparr>sy_ev := Ev_Submit 0\<rparr>"
  define y3 where "y3 = y2\<lparr>sy_api := Restart_Scan 0\<rparr>"
  define y4 where "y4 = (cancel_slot 0 y3)\<lparr>sy_api := Restart_Scan 1\<rparr>"
  define y5 where "y5 = y4\<lparr>sy_api := Restart_Wait\<rparr>"
  define y6 where "y6 = y5\<lparr>sy_stream := (sy_stream y5)
    \<lparr>urbs := map (\<lambda>u. u\<lparr>us_state := 0\<rparr>) (urbs (sy_stream y5))\<rparr>, sy_api := Restart_Submit 0\<rparr>"
  define y7 where "y7 = y6\<lparr>sy_xfers := [X_Flight], sy_api := Restart_Submit 1\<rparr>"
  define y8 where "y8 = y7\<lparr>sy_api := Api_Idle\<rparr>"
  define y9 where "y9 = y8\<lparr>sy_ev := Ev_Fail\<rparr>"
  define y10 where "y10 = y9\<lparr>sy_stream := cb_fail (sy_stream y9), sy_ev := Ev_Idle\<rparr>"
  note defs = y0_def y1_def y2_def y3_def y4_def y5_def y6_def y7_def y8_def y9_def y10_def
    sys_init_def cancel_slot_def Let_def
  have "stream_step True y0 y1"
    using stream_step.deliver_done [of y0 empty_done True]
    by (simp add: defs empty_done_def cb_wants_data_def)
  moreover have "stream_step True y1 y2"
    using stream_step.ev_check [of y1 0 True] by (simp add: defs mutex_free_def cb_done_def)
  moreover have "stream_step True y2 y3"
    using stream_step.restart_start [of y2 True] by (simp add: defs)
  moreover have "stream_step True y3 y4"
    using stream_step.restart_scan [of y3 0 True] by (simp add: defs)
  moreover have "stream_step True y4 y5"
    using stream_step.restart_scanned [of y4 True] by (simp add: defs)
  moreover have "stream_step True y5 y6"
    unfolding y6_def by (rule stream_step.restart_reset) (simp_all add: defs)
  moreover have "stream_step True y6 y7"
    using stream_step.restart_submit [of y6 0 True] by (simp add: defs)
  moreover have "stream_step True y7 y8"
    using stream_step.restart_done [of y7 True] by (simp add: defs)
  moreover have "stream_step True y8 y9"
    using stream_step.ev_submit_fails [of y8 0 True] by (simp add: defs)
  moreover have "stream_step True y9 y10"
    unfolding y10_def by (rule stream_step.ev_fail) (simp_all add: defs mutex_free_def)
  ultimately have "stream_runs True y0 y10"
    by (meson converse_rtranclp_into_rtranclp rtranclp.rtrancl_refl)
  moreover have "sy_api y10 = Api_Idle" "stopping (sy_stream y10)" "sy_xfers y10 = [X_Flight]"
    by (simp_all add: defs cb_fail_def)
  ultimately show ?thesis unfolding y0_def by blast
qed

end
