(* ===== verification/Evt_Race.thy ===== *)
theory Evt_Race
  imports Usbq_Lib "HOL-Library.Multiset"
begin

text \<open>
  The life of the event thread under concurrent callers (\<open>usbq/src/usbq.c\<close>: \<open>evt_thread_main\<close>,
  \<open>usbq_evt_acquire\<close>, \<open>usbq_evt_release\<close>). A step is a section under the mutex of \<open>g_evt\<close>, the reading of
  \<open>g_evt.tid\<close> by a releaser outside it, the return of its \<open>pthread_join\<close>, or an event thread that sees the stop flag
  and ends. Threads are numbered in the order of their creation; as documented, joining returns once the
  thread has ended. \<open>serial\<close> says that no call starts while a release is still under way.
\<close>

datatype evt_release = Unlocked | Joining nat

record evt_sys =
  et_lib :: usbq_lib
  et_tid :: nat                         \<comment> \<open>\<open>g_evt.tid\<close>\<close>
  et_next :: nat                        \<comment> \<open>the next thread's number\<close>
  et_running :: "nat set"               \<comment> \<open>the event threads that have not ended\<close>
  et_releases :: "evt_release multiset" \<comment> \<open>the releases between their two sections\<close>
  et_wire :: wire

inductive evt_step :: "host \<Rightarrow> bool \<Rightarrow> evt_sys \<Rightarrow> evt_sys \<Rightarrow> bool" for env :: host and serial :: bool where
  acquire:
    "\<not> serial \<or> et_releases y = {#} \<Longrightarrow> usbq_evt_acquire env (et_lib y) (et_wire y) = (rc, g, w) \<Longrightarrow>
     rc \<noteq> 0 \<or> evt_refcount (et_lib y) \<noteq> 0 \<Longrightarrow>
     evt_step env serial y (y\<lparr>et_lib := g, et_wire := w\<rparr>)"
| acquire_first:
    "\<not> serial \<or> et_releases y = {#} \<Longrightarrow> usbq_evt_acquire env (et_lib y) (et_wire y) = (0, g, w) \<Longrightarrow>
     evt_refcount (et_lib y) = 0 \<Longrightarrow>
     evt_step env serial y (y\<lparr>et_lib := g, et_wire := w, et_tid := et_next y, et_next := Suc (et_next y),
                             et_running := insert (et_next y) (et_running y)\<rparr>)"
| release:
    "\<not> serial \<or> et_releases y = {#} \<Longrightarrow> evt_release_begin (et_lib y) = (False, g) \<Longrightarrow>
     evt_step env serial y (y\<lparr>et_lib := g\<rparr>)"
| release_last:
    "\<not> serial \<or> et_releases y = {#} \<Longrightarrow> evt_release_begin (et_lib y) = (True, g) \<Longrightarrow>
     evt_step env serial y (y\<lparr>et_lib := g, et_releases := add_mset Unlocked (et_releases y)\<rparr>)"
| join_starts:
    "et_releases y = add_mset Unlocked R \<Longrightarrow>
     evt_step env serial y (y\<lparr>et_releases := add_mset (Joining (et_tid y)) R, et_wire := et_wire y @ [Thread_Join]\<rparr>)"
| join_returns:
    "et_releases y = add_mset (Joining t) R \<Longrightarrow> t \<notin> et_running y \<Longrightarrow>
     evt_step env serial y (y\<lparr>et_lib := evt_release_end (et_lib y), et_releases := R\<rparr>)"
| thread_ends:
    "t \<in> et_running y \<Longrightarrow> evt_stop (et_lib y) \<Longrightarrow>
     evt_step env serial y (y\<lparr>et_running := et_running y - {t}\<rparr>)"

abbreviation "evt_runs env serial \<equiv> (evt_step env serial)\<^sup>*\<^sup>*"

definition evt_sys_start :: evt_sys where
  "evt_sys_start = \<lparr>et_lib = usbq_lib_start, et_tid = 0, et_next = 0, et_running = {}, et_releases = {#}, et_wire = []\<rparr>"

subsection \<open>Calls one after another\<close>

text \<open>Between calls the one thread of \<open>g_evt\<close> runs exactly while references are held; a release under way is the
  only one, it waits for that thread, and the thread has been told to stop.\<close>

definition evt_sys_inv :: "evt_sys \<Rightarrow> bool" where
  "evt_sys_inv y \<longleftrightarrow>
     (if et_releases y = {#} then
        evt_inv (et_lib y) \<and> et_running y = (if 0 < evt_refcount (et_lib y) then {et_tid y} else {})
      else
        (et_releases y = {#Unlocked#} \<or> et_releases y = {#Joining (et_tid y)#}) \<and>
        evt_refcount (et_lib y) = 0 \<and> evt_stop (et_lib y) \<and> et_running y \<subseteq> {et_tid y})"

lemma evt_sys_inv_start: "evt_sys_inv evt_sys_start"
  by (simp add: evt_sys_inv_def evt_sys_start_def evt_inv_start) (simp add: usbq_lib_start_def)

lemma evt_step_inv: "evt_step env True y z \<Longrightarrow> evt_sys_inv y \<Longrightarrow> evt_sys_inv z"
proof (induction rule: evt_step.induct)
  case (acquire y rc g w)
  then show ?case
    using evt_acquire_inv [OF _ acquire(2)]
    by (auto simp: evt_sys_inv_def usbq_evt_acquire_def ask_def Let_def evt_inv_def split: if_splits)
next
  case (acquire_first y g w)
  then show ?case
    using evt_acquire_inv [OF _ acquire_first(2)]
    by (auto simp: evt_sys_inv_def usbq_evt_acquire_def ask_def Let_def evt_inv_def split: if_splits)
qed (auto simp: evt_sys_inv_def evt_release_begin_def evt_release_end_def evt_inv_def Let_def split: if_splits)

lemma evt_runs_inv: "evt_runs env True y z \<Longrightarrow> evt_sys_inv y \<Longrightarrow> evt_sys_inv z"
  by (induction rule: rtranclp_induct) (auto intro: evt_step_inv)

text \<open>The join of a release under way, once its thread has seen the stop flag.\<close>

lemma release_returns:
  assumes "evt_sys_inv y" "et_releases y \<noteq> {#}"
  shows "\<exists>z. evt_runs env True y z \<and> et_releases z = {#}"
proof -
  define y1 where "y1 = y\<lparr>et_running := {}\<rparr>"
  define y2 where "y2 = (if et_releases y = {#Unlocked#}
    then y1\<lparr>et_releases := {#Joining (et_tid y)#}, et_wire := et_wire y @ [Thread_Join]\<rparr> else y1)"
  define y3 where "y3 = y2\<lparr>et_lib := evt_release_end (et_lib y2), et_releases := {#}\<rparr>"
  have i: "evt_stop (et_lib y)" "et_running y \<subseteq> {et_tid y}"
    "et_releases y = {#Unlocked#} \<or> et_releases y = {#Joining (et_tid y)#}"
    using assms by (auto simp: evt_sys_inv_def split: if_splits)
  have "evt_runs env True y y1"
  proof (cases "et_running y = {}")
    case False
    then have r: "et_running y = {et_tid y}" using i(2) by auto
    have "evt_step env True y y1"
      using evt_step.thread_ends [of "et_tid y" y env True] i(1) r by (simp add: y1_def)
    then show ?thesis by blast
  next
    case True
    then have "y1 = y" unfolding y1_def by (cases y) simp
    then show ?thesis by simp
  qed
  moreover have "evt_runs env True y1 y2"
  proof (cases "et_releases y = {#Unlocked#}")
    case True
    then have "evt_step env True y1 y2"
      using evt_step.join_starts [of y1 "{#}" env True] by (simp add: y1_def y2_def)
    then show ?thesis by blast
  qed (simp add: y2_def)
  moreover have "evt_step env True y2 y3"
    using evt_step.join_returns [of y2 "et_tid y" "{#}" env True] i(3) by (auto simp: y1_def y2_def y3_def)
  ultimately have "evt_runs env True y y3" by auto
  then show ?thesis by (auto simp: y3_def)
qed

text \<open>C7: The event thread under calls that do not overlap a pending release. Between calls there is exactly one
  event thread while references are held, the one \<open>g_evt\<close> knows, not told to stop, and none otherwise; at any
  time there is at most one; and a release under way can always be brought to its return.\<close>
theorem evt_thread_follows_references:
  assumes "evt_runs env True evt_sys_start y"
  shows "(et_releases y = {#} \<longrightarrow>
            et_running y = (if 0 < evt_refcount (et_lib y) then {et_tid y} else {}) \<and> evt_inv (et_lib y)) \<and>
    et_running y \<subseteq> {et_tid y} \<and> (\<exists>z. evt_runs env True y z \<and> et_releases z = {#})"
proof -
  have i: "evt_sys_inv y" by (rule evt_runs_inv [OF assms evt_sys_inv_start])
  then have "\<exists>z. evt_runs env True y z \<and> et_releases z = {#}"
    using release_returns [of y env] by (cases "et_releases y = {#}") auto
  then show ?thesis using i by (auto simp: evt_sys_inv_def split: if_splits)
qed

subsection \<open>A release against an acquire\<close>

text \<open>A host on which threads can be created, and a run on it: a holder releases the last reference; while it joins,
  its thread ends and another caller acquires; the release's second section then takes the new thread for gone; the
  other caller releases.\<close>

definition thread_host :: host where
  "thread_host w = \<lparr>r_rc = 0, r_data = [], r_devs = [], r_handle = 0, r_fds = (0, 0)\<rparr>"

definition evt_lib_of :: "int \<Rightarrow> bool \<Rightarrow> bool \<Rightarrow> usbq_lib" where
  "evt_lib_of n alive stop = usbq_lib_start\<lparr>evt_refcount := n, evt_alive := alive, evt_stop := stop\<rparr>"

definition evt_at :: "usbq_lib \<Rightarrow> nat \<Rightarrow> nat set \<Rightarrow> evt_release multiset \<Rightarrow> wire \<Rightarrow> evt_sys" where
  "evt_at g n ts R w = \<lparr>et_lib = g, et_tid = n - 1, et_next = n, et_running = ts, et_releases = R, et_wire = w\<rparr>"

lemmas evt_run_simps = evt_lib_of_def evt_at_def evt_sys_start_def usbq_lib_start_def thread_host_def
  usbq_evt_acquire_def evt_release_begin_def evt_release_end_def ask_def Let_def

lemma evt_start_eq: "evt_sys_start = evt_at (evt_lib_of 0 False False) 0 {} {#} []"
  by (simp add: evt_run_simps)

lemma evt_first: "\<not> s \<or> R = {#} \<Longrightarrow>
    evt_step thread_host s (evt_at (evt_lib_of 0 a st) n ts R w)
      (evt_at (evt_lib_of 1 True False) (Suc n) (insert n ts) R (w @ [Thread_Create]))"
  using evt_step.acquire_first [where y = "evt_at (evt_lib_of 0 a st) n ts R w" and serial = s and env = thread_host]
  by (simp add: evt_run_simps)

lemma evt_last: "\<not> s \<or> R = {#} \<Longrightarrow>
    evt_step thread_host s (evt_at (evt_lib_of 1 True st) n ts R w)
      (evt_at (evt_lib_of 0 True True) n ts (add_mset Unlocked R) w)"
  using evt_step.release_last [where y = "evt_at (evt_lib_of 1 True st) n ts R w" and serial = s and env = thread_host]
  by (simp add: evt_run_simps)

lemma evt_join: "evt_step thread_host s (evt_at g n ts (add_mset Unlocked R) w)
    (evt_at g n ts (add_mset (Joining (n - 1)) R) (w @ [Thread_Join]))"
  using evt_step.join_starts [where y = "evt_at g n ts (add_mset Unlocked R) w" and serial = s and env = thread_host]
  by (simp add: evt_at_def)

lemma evt_ends: "t \<in> ts \<Longrightarrow>
    evt_step thread_host s (evt_at (evt_lib_of k a True) n ts R w) (evt_at (evt_lib_of k a True) n (ts - {t}) R w)"
  using evt_step.thread_ends [where y = "evt_at (evt_lib_of k a True) n ts R w" and serial = s and env = thread_host]
  by (simp add: evt_at_def evt_lib_of_def)

lemma evt_joined: "t \<notin> ts \<Longrightarrow>
    evt_step thread_host s (evt_at (evt_lib_of k a st) n ts (add_mset (Joining t) R) w)
      (evt_at (evt_lib_of k False st) n ts R w)"
  using evt_step.join_returns [where y = "evt_at (evt_lib_of k a st) n ts (add_mset (Joining t) R) w"
      and serial = s and env = thread_host]
  by (simp add: evt_run_simps)

lemma evt_lost: "\<not> s \<or> R = {#} \<Longrightarrow>
    evt_step thread_host s (evt_at (evt_lib_of 1 False st) n ts R w) (evt_at (evt_lib_of 0 False st) n ts R w)"
  using evt_step.release [where y = "evt_at (evt_lib_of 1 False st) n ts R w" and serial = s and env = thread_host]
  by (simp add: evt_run_simps)

lemmas evt_then = rtranclp.rtrancl_into_rtrancl [where r = "evt_step thread_host s" for s]

lemma evt_held_run:
  "evt_runs thread_host s evt_sys_start (evt_at (evt_lib_of 1 True False) 1 {0} {#} [Thread_Create])"
  using r_into_rtranclp [of "evt_step thread_host s", OF evt_first [of s "{#}" False False 0 "{}" "[]"]]
  by (simp add: evt_start_eq)

lemma evt_joining_run:
  "evt_runs thread_host s evt_sys_start
     (evt_at (evt_lib_of 0 True True) 1 {0} {#Joining 0#} [Thread_Create, Thread_Join])"
  using evt_then [OF evt_then [OF evt_held_run evt_last] evt_join] by simp

lemma evt_thread_follows_references_witness:
  "\<exists>z. evt_runs thread_host True (evt_at (evt_lib_of 0 True True) 1 {0} {#Joining 0#} [Thread_Create, Thread_Join]) z \<and>
     et_releases z = {#}"
  using evt_thread_follows_references [OF evt_joining_run] by blast

text \<open>C40: Without that discipline the event thread gets out of step with its references. An acquire that falls into
  the join of a last release, after the thread has ended, starts a thread that the release's second section
  marks as gone: it keeps running, not told to stop, when the last reference is given back. If the acquire comes before the
  thread has seen the stop flag, it takes the flag back: two event threads run, and the release waits for one that was
  told to go on.\<close>
theorem evt_release_race:
  "(\<exists>y. evt_runs thread_host False evt_sys_start y \<and> et_releases y = {#} \<and> evt_refcount (et_lib y) = 0 \<and>
        \<not> evt_stop (et_lib y) \<and> et_running y = {1}) \<and>
   (\<exists>y. evt_runs thread_host False evt_sys_start y \<and> et_releases y = {#Joining 0#} \<and>
        evt_refcount (et_lib y) = 1 \<and> \<not> evt_stop (et_lib y) \<and> et_running y = {0, 1})"
proof
  let ?w = "[Thread_Create, Thread_Join]"
  have ended: "evt_runs thread_host False evt_sys_start (evt_at (evt_lib_of 0 True True) 1 {} {#Joining 0#} ?w)"
    using evt_then [OF evt_joining_run evt_ends [of 0 "{0}"]] by simp
  have "evt_runs thread_host False evt_sys_start
      (evt_at (evt_lib_of 1 True False) 2 {1} {#Joining 0#} (?w @ [Thread_Create]))"
    using evt_then [OF ended evt_first] by (simp add: numeral_2_eq_2)
  from evt_then [OF evt_then [OF this evt_joined [where t = 0]] evt_lost]
  have "evt_runs thread_host False evt_sys_start (evt_at (evt_lib_of 0 False False) 2 {1} {#} (?w @ [Thread_Create]))"
    by simp
  then show "\<exists>y. evt_runs thread_host False evt_sys_start y \<and> et_releases y = {#} \<and> evt_refcount (et_lib y) = 0 \<and>
        \<not> evt_stop (et_lib y) \<and> et_running y = {1}"
    by (intro exI conjI) (auto simp: evt_at_def evt_lib_of_def)
next
  let ?w = "[Thread_Create, Thread_Join]"
  have "evt_runs thread_host False evt_sys_start
      (evt_at (evt_lib_of 1 True False) 2 {1, 0} {#Joining 0#} (?w @ [Thread_Create]))"
    using evt_then [OF evt_joining_run evt_first [where s = False]] by (simp add: numeral_2_eq_2)
  then show "\<exists>y. evt_runs thread_host False evt_sys_start y \<and> et_releases y = {#Joining 0#} \<and>
        evt_refcount (et_lib y) = 1 \<and> \<not> evt_stop (et_lib y) \<and> et_running y = {0, 1}"
    by (intro exI conjI) (auto simp: evt_at_def evt_lib_of_def)
qed

end
