(* ===== verification/I2c_Core.thy ===== *)
theory I2c_Core
  imports Prelude "HOL-Library.Monad_Syntax"
begin

text \<open>
  The i2c subsystem the chip drivers are given (\<open>linuxdvbkpi/src/i2c.c\<close>, \<open>i2c_mux.c\<close>, \<open>regmap.c\<close>,
  \<open>linux/string.h\<close>). An adapter is a transfer function on the state of its bridge; a transfer may not
  return (the em28xx bridge polls a status register until a deadline), so it is option-valued, and
  the operations above it are written in the option monad.

  \<open>i2c_master\<close> is the contract between a bridge's transfer function and everything above it. The
  three bridges are interpretations of it, the mux's child adapter is another instance
  (\<open>sublocale\<close>), and the register-map operations are proved once inside it.
\<close>

record i2c_msg =
  m_addr :: u16
  m_flags :: u16
  m_len :: u16
  m_buf :: bytes

definition I2C_M_RD :: u16 where "I2C_M_RD = 0x0001"
definition I2C_M_NOSTART :: u16 where "I2C_M_NOSTART = 0x4000"

definition is_read :: "i2c_msg \<Rightarrow> bool" where
  "is_read m \<longleftrightarrow> m_flags m AND I2C_M_RD \<noteq> 0"

type_synonym 's master = "i2c_msg list \<Rightarrow> 's \<Rightarrow> (int \<times> i2c_msg list \<times> 's) option"

subsection \<open>Strings\<close>

definition I2C_NAME_SIZE :: nat where "I2C_NAME_SIZE = 20"

text \<open>\<open>strscpy\<close>: what it leaves in \<open>dst\<close> and what it returns.\<close>

definition strscpy :: "string \<Rightarrow> nat \<Rightarrow> string \<Rightarrow> int \<times> string" where
  "strscpy src sz dst =
     (if sz = 0 then (- E2BIG, dst)
      else (if length src > sz - 1 then - E2BIG else int (length src), take (sz - 1) src))"

lemma strscpy_fits: "sz \<noteq> 0 \<Longrightarrow> length (snd (strscpy src sz dst)) < sz"
  by (auto simp: strscpy_def)

subsection \<open>Adapters and clients\<close>

text \<open>\<open>None\<close> is a missing adapter, algorithm or transfer function.\<close>

definition i2c_transfer :: "'s master option \<Rightarrow> 's master" where
  "i2c_transfer adap msgs s =
     (case adap of None \<Rightarrow> Some (- EIO, msgs, s) | Some xfer \<Rightarrow> xfer msgs s)"

record ('s, 'p) i2c_client =
  cl_adapter :: "'s master option"
  cl_addr :: u16
  cl_flags :: u16
  cl_name :: string
  cl_dev_name :: string
  cl_platform_data :: "'p option"   \<comment> \<open>the chip's configuration\<close>
  cl_driver :: "nat option"     \<comment> \<open>the identity of the bound driver\<close>
  cl_device_id :: "(string \<times> nat) option"

text \<open>The one-message transfers; \<open>(u16)count\<close> truncates.\<close>

definition i2c_master_send :: "('s, 'p) i2c_client option \<Rightarrow> bytes \<Rightarrow> int \<Rightarrow> 's \<Rightarrow> (int \<times> 's) option" where
  "i2c_master_send client buf count s =
     (case client of
        None \<Rightarrow> Some (- EIO, s)
      | Some c \<Rightarrow>
          if cl_adapter c = None then Some (- EIO, s)
          else do {
            (ret, _, s) \<leftarrow> i2c_transfer (cl_adapter c)
               [\<lparr>m_addr = cl_addr c, m_flags = cl_flags c AND NOT I2C_M_RD,
                 m_len = word_of_int count, m_buf = buf\<rparr>] s;
            Some (if ret = 1 then count else if ret < 0 then ret else - EIO, s)
          })"

definition i2c_master_recv :: "('s, 'p) i2c_client option \<Rightarrow> bytes \<Rightarrow> int \<Rightarrow> 's \<Rightarrow> (int \<times> bytes \<times> 's) option"
where
  "i2c_master_recv client buf count s =
     (case client of
        None \<Rightarrow> Some (- EIO, buf, s)
      | Some c \<Rightarrow>
          if cl_adapter c = None then Some (- EIO, buf, s)
          else do {
            (ret, msgs, s) \<leftarrow> i2c_transfer (cl_adapter c)
               [\<lparr>m_addr = cl_addr c, m_flags = (cl_flags c AND NOT I2C_M_RD) OR I2C_M_RD,
                 m_len = word_of_int count, m_buf = buf\<rparr>] s;
            Some (if ret = 1 then count else if ret < 0 then ret else - EIO,
                  (case msgs of [] \<Rightarrow> buf | m # _ \<Rightarrow> m_buf m), s)
          })"

subsection \<open>The driver registry\<close>

text \<open>A driver is a chip module's static structure; its identity stands for its address. Probe and
  remove are the chip's code.\<close>

record ('s, 'p) i2c_driver =
  drv_id :: nat
  drv_name :: "string option"
  drv_probe :: "(('s, 'p) i2c_client \<Rightarrow> 's \<Rightarrow> (int \<times> ('s, 'p) i2c_client \<times> 's) option) option"
  drv_remove :: "(('s, 'p) i2c_client \<Rightarrow> 's \<Rightarrow> 's) option"
  drv_ids :: "(string \<times> nat) list option"   \<comment> \<open>up to the terminating empty name\<close>

definition register_i2c_driver :: "('s, 'p) i2c_driver option \<Rightarrow> bool \<Rightarrow> ('s, 'p) i2c_driver list \<Rightarrow> ('s, 'p) i2c_driver list"
where
  "register_i2c_driver drv alloc_ok drivers =
     (case drv of None \<Rightarrow> drivers | Some d \<Rightarrow> if alloc_ok then d # drivers else drivers)"

text \<open>\<open>strncmp(a, b, I2C_NAME_SIZE) == 0\<close>.\<close>

definition same_name :: "string \<Rightarrow> string \<Rightarrow> bool" where
  "same_name a b \<longleftrightarrow> take I2C_NAME_SIZE a = take I2C_NAME_SIZE b"

fun find_id :: "string \<Rightarrow> (string \<times> nat) list \<Rightarrow> (string \<times> nat) option" where
  "find_id name [] = None"
| "find_id name (i # is) =
     (if fst i = [] then None else if same_name (fst i) name then Some i else find_id name is)"

fun find_driver_by_name :: "string \<Rightarrow> ('s, 'p) i2c_driver list
    \<Rightarrow> (('s, 'p) i2c_driver \<times> (string \<times> nat) option) option" where
  "find_driver_by_name name [] = None"
| "find_driver_by_name name (d # ds) =
     (case (case drv_ids d of None \<Rightarrow> None | Some ids \<Rightarrow> find_id name ids) of
        Some i \<Rightarrow> Some (d, Some i)
      | None \<Rightarrow>
          (case drv_name d of
             Some n \<Rightarrow> if same_name n name then Some (d, None) else find_driver_by_name name ds
           | None \<Rightarrow> find_driver_by_name name ds))"

subsection \<open>Client lifecycle\<close>

record 'p i2c_board_info =
  bi_type :: string
  bi_flags :: u16
  bi_addr :: u16
  bi_platform_data :: "'p option"

text \<open>The name of an unnamed client's device prints its adapter's address, a parameter here; \<open>None\<close>
  is a failed allocation.\<close>

definition alloc_client :: "bool \<Rightarrow> 's master option \<Rightarrow> string \<Rightarrow> u16 \<Rightarrow> string option
    \<Rightarrow> ('s, 'p) i2c_client option" where
  "alloc_client alloc_ok adap anon addr name =
     (if alloc_ok then
        Some \<lparr>cl_adapter = adap, cl_addr = addr, cl_flags = 0,
              cl_name = (case name of None \<Rightarrow> [] | Some n \<Rightarrow> snd (strscpy n I2C_NAME_SIZE [])),
              cl_dev_name = (case name of None \<Rightarrow> anon | Some n \<Rightarrow> snd (strscpy n 64 [])),
              cl_platform_data = None, cl_driver = None, cl_device_id = None\<rparr>
      else None)"

text \<open>The outer option is a probe that does not return; \<open>Inl\<close> is \<open>ERR_PTR\<close>.\<close>

definition i2c_new_client_device :: "('s, 'p) i2c_driver list \<Rightarrow> bool \<Rightarrow> 's master option
    \<Rightarrow> 'p i2c_board_info option \<Rightarrow> 's \<Rightarrow> ((int + ('s, 'p) i2c_client) \<times> 's) option" where
  "i2c_new_client_device drivers alloc_ok adap info s =
     (case (adap, info) of
        (Some xfer, Some i) \<Rightarrow>
          (case alloc_client alloc_ok adap [] (bi_addr i) (Some (bi_type i)) of
             None \<Rightarrow> Some (Inl (- ENOMEM), s)
           | Some c \<Rightarrow>
               let c = c\<lparr>cl_flags := bi_flags i, cl_platform_data := bi_platform_data i\<rparr>
               in (case find_driver_by_name (bi_type i) drivers of
                     None \<Rightarrow> Some (Inr c, s)
                   | Some (drv, matched) \<Rightarrow>
                       (case drv_probe drv of
                          None \<Rightarrow> Some (Inr c, s)
                        | Some probe \<Rightarrow> do {
                            (ret, c, s) \<leftarrow> probe (c\<lparr>cl_device_id := matched\<rparr>) s;
                            Some (if ret < 0 then Inl ret else Inr (c\<lparr>cl_driver := Some (drv_id drv)\<rparr>), s)
                          })))
      | _ \<Rightarrow> Some (Inl (- EINVAL), s))"

definition i2c_new_dummy_device :: "bool \<Rightarrow> 's master option \<Rightarrow> u16 \<Rightarrow> int + ('s, 'p) i2c_client" where
  "i2c_new_dummy_device alloc_ok adap addr =
     (if adap = None then Inl (- EINVAL)
      else
        (case alloc_client alloc_ok adap [] addr
                 (Some (take (I2C_NAME_SIZE - 1) (''dummy-'' @ hex_padded 2 (unat addr)))) of
           None \<Rightarrow> Inl (- ENOMEM)
         | Some c \<Rightarrow> Inr c))"

definition i2c_client_has_driver :: "('s, 'p) i2c_client option \<Rightarrow> bool" where
  "i2c_client_has_driver c = (case c of None \<Rightarrow> False | Some c \<Rightarrow> cl_driver c \<noteq> None)"

definition i2c_client_get_device_id :: "('s, 'p) i2c_client option \<Rightarrow> (string \<times> nat) option" where
  "i2c_client_get_device_id client = (case client of None \<Rightarrow> None | Some c \<Rightarrow> cl_device_id c)"

text \<open>A number for debug output, from the adapter's address.\<close>

definition i2c_adapter_id :: "64 word \<Rightarrow> int" where
  "i2c_adapter_id adap = uint (drop_bit 4 adap AND 0xffff)"

definition i2c_unregister_device :: "('s, 'p) i2c_driver list \<Rightarrow> (int + ('s, 'p) i2c_client) option \<Rightarrow> 's \<Rightarrow> 's" where
  "i2c_unregister_device drivers client s =
     (case client of
        Some (Inr c) \<Rightarrow>
          (case cl_driver c of
             None \<Rightarrow> s
           | Some k \<Rightarrow>
               (case find (\<lambda>d. drv_id d = k) drivers of
                  None \<Rightarrow> s
                | Some d \<Rightarrow> (case drv_remove d of None \<Rightarrow> s | Some remove \<Rightarrow> remove c s)))
      | _ \<Rightarrow> s)"

subsection \<open>The mux\<close>

text \<open>The chip driver's select and deselect callbacks run around the parent's transfer.\<close>

definition mux_master_xfer :: "(u32 \<Rightarrow> 's \<Rightarrow> (int \<times> 's) option) option
    \<Rightarrow> (u32 \<Rightarrow> 's \<Rightarrow> (int \<times> 's) option) option \<Rightarrow> 's master option \<Rightarrow> 's master" where
  "mux_master_xfer select deselect parent msgs s =
     (if parent = None then Some (- EIO, msgs, s)
      else do {
        (rc, s) \<leftarrow> (case select of None \<Rightarrow> Some (0, s) | Some f \<Rightarrow> f 0 s);
        if rc < 0 then Some (rc, msgs, s)
        else do {
          (xfer_rc, msgs, s) \<leftarrow> i2c_transfer parent msgs s;
          (des_rc, s) \<leftarrow> (case deselect of None \<Rightarrow> Some (0, s) | Some f \<Rightarrow> f 0 s);
          Some (if xfer_rc < 0 then xfer_rc else if des_rc < 0 then des_rc else xfer_rc, msgs, s)
        }
      })"

record mux_core =
  mux_num_adapters :: int
  mux_max_adapters :: int

definition i2c_mux_alloc :: "bool \<Rightarrow> bool \<Rightarrow> int \<Rightarrow> mux_core option" where
  "i2c_mux_alloc alloc_ok has_parent max_adapters =
     (if \<not> has_parent \<or> max_adapters < 1 then None
      else if \<not> alloc_ok then None
      else Some \<lparr>mux_num_adapters = 0, mux_max_adapters = max_adapters\<rparr>)"

definition i2c_mux_add_adapter :: "mux_core option \<Rightarrow> int \<times> mux_core option" where
  "i2c_mux_add_adapter muxc =
     (case muxc of
        None \<Rightarrow> (- EINVAL, None)
      | Some m \<Rightarrow>
          if mux_num_adapters m \<ge> mux_max_adapters m then (- ENOSPC, Some m)
          else (0, Some (m\<lparr>mux_num_adapters := mux_num_adapters m + 1\<rparr>)))"

text \<open>The children live inside the core's block: deleting them frees it.\<close>

definition i2c_mux_del_adapters :: "mux_core option \<Rightarrow> mux_core option" where
  "i2c_mux_del_adapters muxc = None"

text \<open>What the parent's algorithm answers for itself; both it and its operation may be missing.\<close>

definition I2C_FUNC_I2C :: u32 where "I2C_FUNC_I2C = 1"

definition mux_functionality :: "u32 option option \<Rightarrow> u32" where
  "mux_functionality parent = (case parent of Some (Some f) \<Rightarrow> f | _ \<Rightarrow> I2C_FUNC_I2C)"

lemma mux_add_bounded:
  assumes "i2c_mux_add_adapter (Some m) = (rc, Some m')" "mux_num_adapters m \<le> mux_max_adapters m"
  shows "mux_num_adapters m' \<le> mux_max_adapters m' \<and> (rc = 0 \<longleftrightarrow> mux_num_adapters m < mux_max_adapters m)"
  using assms by (auto simp: i2c_mux_add_adapter_def split: if_splits)

subsection \<open>Register maps\<close>

record ('s, 'p) regmap =
  rm_client :: "('s, 'p) i2c_client"
  rm_reg_bits :: int
  rm_val_bits :: int

definition regmap_init_i2c :: "bool \<Rightarrow> ('s, 'p) i2c_client option \<Rightarrow> (int \<times> int) option \<Rightarrow> int + ('s, 'p) regmap" where
  "regmap_init_i2c alloc_ok client config =
     (case (client, config) of
        (Some c, Some (reg_bits, val_bits)) \<Rightarrow>
          if reg_bits \<noteq> 8 \<or> val_bits \<noteq> 8 then Inl (- EOPNOTSUPP)
          else if \<not> alloc_ok then Inl (- ENOMEM)
          else Inr \<lparr>rm_client = c, rm_reg_bits = reg_bits, rm_val_bits = val_bits\<rparr>
      | _ \<Rightarrow> Inl (- EINVAL))"

definition write_msg :: "('s, 'p) regmap \<Rightarrow> bytes \<Rightarrow> i2c_msg" where
  "write_msg m buf = \<lparr>m_addr = cl_addr (rm_client m), m_flags = 0, m_len = word_of_nat (length buf),
                      m_buf = buf\<rparr>"

definition read_msg :: "('s, 'p) regmap \<Rightarrow> u16 \<Rightarrow> bytes \<Rightarrow> i2c_msg" where
  "read_msg m len buf = \<lparr>m_addr = cl_addr (rm_client m), m_flags = I2C_M_RD, m_len = len, m_buf = buf\<rparr>"

text \<open>\<open>*val\<close> is written only on success.\<close>

definition regmap_read :: "('s, 'p) regmap option \<Rightarrow> u32 \<Rightarrow> u32 \<Rightarrow> 's \<Rightarrow> (int \<times> u32 \<times> 's) option" where
  "regmap_read mp reg val s =
     (case mp of
        None \<Rightarrow> Some (- EINVAL, val, s)
      | Some m \<Rightarrow> do {
          (ret, msgs, s) \<leftarrow> i2c_transfer (cl_adapter (rm_client m))
             [write_msg m [ucast reg], read_msg m 1 [0]] s;
          Some (if ret < 0 then (ret, val, s)
                else if ret \<noteq> 2 then (- EIO, val, s)
                else (0, ucast (hd (m_buf (msgs ! 1))), s))
        })"

definition regmap_write :: "('s, 'p) regmap option \<Rightarrow> u32 \<Rightarrow> u32 \<Rightarrow> 's \<Rightarrow> (int \<times> 's) option" where
  "regmap_write mp reg val s =
     (case mp of
        None \<Rightarrow> Some (- EINVAL, s)
      | Some m \<Rightarrow> do {
          (ret, _, s) \<leftarrow> i2c_transfer (cl_adapter (rm_client m)) [write_msg m [ucast reg, ucast val]] s;
          Some (if ret < 0 then ret else if ret = 1 then 0 else - EIO, s)
        })"

definition regmap_bulk_read :: "('s, 'p) regmap option \<Rightarrow> u32 \<Rightarrow> bytes option \<Rightarrow> nat \<Rightarrow> 's
    \<Rightarrow> (int \<times> bytes option \<times> 's) option" where
  "regmap_bulk_read mp reg val count s =
     (case (mp, val) of
        (Some m, Some buf) \<Rightarrow> do {
          (ret, msgs, s) \<leftarrow> i2c_transfer (cl_adapter (rm_client m))
             [write_msg m [ucast reg], read_msg m (word_of_nat count) buf] s;
          Some (if ret < 0 then ret else if ret = 2 then 0 else - EIO,
                Some (m_buf (msgs ! 1)), s)
        }
      | _ \<Rightarrow> Some (- EINVAL, val, s))"

definition regmap_bulk_write :: "('s, 'p) regmap option \<Rightarrow> u32 \<Rightarrow> bytes option \<Rightarrow> nat \<Rightarrow> 's
    \<Rightarrow> (int \<times> 's) option" where
  "regmap_bulk_write mp reg val count s =
     (case (mp, val) of
        (Some m, Some v) \<Rightarrow>
          if count > 64 then Some (- EOPNOTSUPP, s)
          else do {
            (ret, _, s) \<leftarrow> i2c_transfer (cl_adapter (rm_client m))
               [write_msg m (ucast reg # take count v)] s;
            Some (if ret < 0 then ret else if ret = 1 then 0 else - EIO, s)
          }
      | _ \<Rightarrow> Some (- EINVAL, s))"

definition regmap_update_bits :: "('s, 'p) regmap option \<Rightarrow> u32 \<Rightarrow> u32 \<Rightarrow> u32 \<Rightarrow> 's \<Rightarrow> (int \<times> 's) option" where
  "regmap_update_bits mp reg msk val s = do {
     (ret, cur, s) \<leftarrow> regmap_read mp reg 0 s;
     if ret < 0 then Some (ret, s)
     else let new = (cur AND NOT msk) OR (val AND msk)
          in if new = cur then Some (0, s) else regmap_write mp reg new s
   }"

subsection \<open>The contract of a bridge\<close>

definition msg_shape :: "i2c_msg \<Rightarrow> u16 \<times> u16 \<times> u16 \<times> nat" where
  "msg_shape m = (m_addr m, m_flags m, m_len m, length (m_buf m))"

text \<open>The buffer holds the length, and the length is one the bridge handles.\<close>

definition msg_fits :: "nat \<Rightarrow> i2c_msg \<Rightarrow> bool" where
  "msg_fits k m \<longleftrightarrow> unat (m_len m) \<le> length (m_buf m) \<and> unat (m_len m) \<le> k"

locale i2c_master =
  fixes xfer :: "'s master"
    and safe :: "'s \<Rightarrow> bool"
    and max_len :: nat
  assumes xfer_rc: "xfer msgs s = Some (rc, msgs', s') \<Longrightarrow> \<forall>m \<in> set msgs. msg_fits max_len m \<Longrightarrow>
      safe s \<Longrightarrow> rc < 0 \<or> rc = int (length msgs)"
    and xfer_shape: "xfer msgs s = Some (rc, msgs', s') \<Longrightarrow> \<forall>m \<in> set msgs. msg_fits max_len m \<Longrightarrow>
      safe s \<Longrightarrow> map msg_shape msgs' = map msg_shape msgs"
    and xfer_writes: "xfer msgs s = Some (rc, msgs', s') \<Longrightarrow> \<forall>m \<in> set msgs. msg_fits max_len m \<Longrightarrow>
      safe s \<Longrightarrow> i < length msgs \<Longrightarrow> \<not> is_read (msgs ! i) \<Longrightarrow> msgs' ! i = msgs ! i"
    and xfer_safe: "xfer msgs s = Some (rc, msgs', s') \<Longrightarrow> \<forall>m \<in> set msgs. msg_fits max_len m \<Longrightarrow>
      safe s \<Longrightarrow> safe s'"
    and max_len: "60 \<le> max_len"
begin

lemma transfer_some [simp]: "i2c_transfer (Some xfer) = xfer"
  by (rule ext)+ (simp add: i2c_transfer_def)

lemma write_msg_fits:
  "length buf \<le> max_len \<Longrightarrow> length buf < 65536 \<Longrightarrow> msg_fits max_len (write_msg m buf)"
  by (simp add: msg_fits_def write_msg_def unat_of_nat take_bit_nat_eq_self)

lemma read_msg_fits:
  "unat len \<le> max_len \<Longrightarrow> unat len \<le> length buf \<Longrightarrow> msg_fits max_len (read_msg m len buf)"
  by (simp add: msg_fits_def read_msg_def)

lemma one_byte_fits: "msg_fits max_len (read_msg m 1 [b])" "msg_fits max_len (write_msg m [b])"
  "msg_fits max_len (write_msg m [b, c])"
  using max_len by (simp_all add: msg_fits_def read_msg_def write_msg_def)

lemma read_back:
  "xfer [a, b] s = Some (rc, msgs', s') \<Longrightarrow> msg_fits max_len a \<Longrightarrow> msg_fits max_len b \<Longrightarrow> safe s \<Longrightarrow>
     \<exists>a' b'. msgs' = [a', b'] \<and> msg_shape b' = msg_shape b"
  using xfer_shape [of "[a, b]" s rc msgs' s'] by (auto simp: map_eq_Cons_conv)

subsection \<open>Register maps over any bridge\<close>

lemma regmap_read_spec:
  assumes "cl_adapter (rm_client m) = Some xfer" "regmap_read (Some m) reg val s = Some (ret, val', s')"
  shows "ret \<le> 0" "ret \<noteq> 0 \<Longrightarrow> val' = val" "ret = 0 \<Longrightarrow> val' \<le> 0xFF" "safe s \<Longrightarrow> safe s'"
proof -
  obtain rc msgs' where x: "xfer [write_msg m [ucast reg], read_msg m 1 [0]] s = Some (rc, msgs', s')"
    and res: "(ret, val') = (if rc < 0 then (rc, val) else if rc \<noteq> 2 then (- EIO, val)
        else (0, ucast (hd (m_buf (msgs' ! 1)))))"
    using assms by (auto simp: regmap_read_def bind_eq_Some_conv split: if_splits prod.splits)
  show "ret \<le> 0" "ret \<noteq> 0 \<Longrightarrow> val' = val" using res by (auto split: if_splits)
  show "val' \<le> 0xFF" if "ret = 0"
  proof -
    have "unat (ucast b :: u32) \<le> 255" for b :: u8
    proof -
      have "unat b < 2 ^ LENGTH(8)" by (rule unsigned_less)
      then have "unat b < 256" by simp
      then show ?thesis by (simp add: unsigned_ucast_eq take_bit_nat_eq_self)
    qed
    then show ?thesis
      using res that by (auto simp: word_le_nat_alt split: if_splits)
  qed
  show "safe s \<Longrightarrow> safe s'" using xfer_safe [OF x] by (simp add: one_byte_fits)
qed

lemma regmap_write_spec:
  assumes "cl_adapter (rm_client m) = Some xfer" "regmap_write (Some m) reg val s = Some (ret, s')"
  shows "ret \<le> 0" "safe s \<Longrightarrow> safe s'"
proof -
  obtain rc msgs' where x: "xfer [write_msg m [ucast reg, ucast val]] s = Some (rc, msgs', s')"
    and res: "ret = (if rc < 0 then rc else if rc = 1 then 0 else - EIO)"
    using assms by (auto simp: regmap_write_def bind_eq_Some_conv)
  show "ret \<le> 0" using res by (auto split: if_splits)
  show "safe s \<Longrightarrow> safe s'" using xfer_safe [OF x] by (simp add: one_byte_fits)
qed

lemma regmap_bulk_write_spec:
  assumes "cl_adapter (rm_client m) = Some xfer" "count < max_len" "count \<le> length v"
    "regmap_bulk_write (Some m) reg (Some v) count s = Some (ret, s')"
  shows "ret \<le> 0" "safe s \<Longrightarrow> safe s'" "64 < count \<Longrightarrow> ret = - EOPNOTSUPP \<and> s' = s"
proof -
  consider "64 < count" "ret = - EOPNOTSUPP" "s' = s"
    | rc msgs' where "count \<le> 64" "xfer [write_msg m (ucast reg # take count v)] s = Some (rc, msgs', s')"
      "ret = (if rc < 0 then rc else if rc = 1 then 0 else - EIO)"
    using assms by (auto simp: regmap_bulk_write_def bind_eq_Some_conv split: if_splits)
  note c = this
  show "ret \<le> 0" using c by cases auto
  show "safe s \<Longrightarrow> safe s'"
    using c
  proof cases
    case 2
    then show "safe s \<Longrightarrow> safe s'"
      using xfer_safe [OF 2(2)] write_msg_fits [of "ucast reg # take count v" m] assms(2,3) by simp
  qed simp
  show "64 < count \<Longrightarrow> ret = - EOPNOTSUPP \<and> s' = s" using c by cases auto
qed

lemma regmap_bulk_read_spec:
  assumes "cl_adapter (rm_client m) = Some xfer" "count \<le> max_len" "count < 65536" "count \<le> length buf"
    "regmap_bulk_read (Some m) reg (Some buf) count s = Some (ret, out, s')"
  shows "ret \<le> 0" "safe s \<Longrightarrow> safe s'" "safe s \<Longrightarrow> \<exists>b. out = Some b \<and> length b = length buf"
proof -
  have c: "unat (word_of_nat count :: u16) = count"
    using assms(3) by (simp add: unat_of_nat take_bit_nat_eq_self)
  have f: "msg_fits max_len (read_msg m (word_of_nat count) buf)"
    using assms(2,4) by (intro read_msg_fits) (simp_all add: c)
  obtain rc msgs' where
    x: "xfer [write_msg m [ucast reg], read_msg m (word_of_nat count) buf] s = Some (rc, msgs', s')"
    and res: "ret = (if rc < 0 then rc else if rc = 2 then 0 else - EIO)" "out = Some (m_buf (msgs' ! 1))"
    using assms(1,5) by (auto simp: regmap_bulk_read_def bind_eq_Some_conv)
  show "ret \<le> 0" using res by (auto split: if_splits)
  show "safe s \<Longrightarrow> safe s'" using xfer_safe [OF x] f by (simp add: one_byte_fits)
  show "safe s \<Longrightarrow> \<exists>b. out = Some b \<and> length b = length buf"
    using read_back [OF x one_byte_fits(2) f] res(2) by (auto simp: msg_shape_def read_msg_def)
qed

text \<open>An update of some bits reads the register, and writes it back only when it changes, with the bits
  outside the mask as they were read.\<close>

lemma regmap_update_bits_spec:
  assumes a: "cl_adapter (rm_client m) = Some xfer"
    and u: "regmap_update_bits (Some m) reg msk val s = Some (ret, s')"
  shows "ret \<le> 0" "safe s \<Longrightarrow> safe s'"
    "ret = 0 \<Longrightarrow> \<exists>cur s1. regmap_read (Some m) reg 0 s = Some (0, cur, s1) \<and>
       (if cur AND msk = val AND msk then s' = s1
        else \<exists>new. new AND msk = val AND msk \<and> new AND NOT msk = cur AND NOT msk \<and>
          regmap_write (Some m) reg new s1 = Some (0, s'))"
proof -
  obtain r cur s1 where r: "regmap_read (Some m) reg 0 s = Some (r, cur, s1)"
    using u by (auto simp: regmap_update_bits_def bind_eq_Some_conv)
  note spec = regmap_read_spec [OF a r]
  have same: "merge_bits cur val msk = cur \<longleftrightarrow> cur AND msk = val AND msk"
  proof
    assume "merge_bits cur val msk = cur"
    then show "cur AND msk = val AND msk" using merge_bits_in [of cur val msk] by simp
  next
    assume "cur AND msk = val AND msk"
    then have "merge_bits cur val msk = (cur AND NOT msk) OR (cur AND msk)"
      by (simp add: merge_bits_def)
    also have "\<dots> = cur" by (rule bit_word_eqI) (auto simp: bit_simps)
    finally show "merge_bits cur val msk = cur" .
  qed
  have res: "(if r < 0 then ret = r \<and> s' = s1
      else if cur AND msk = val AND msk then ret = 0 \<and> s' = s1
      else regmap_write (Some m) reg (merge_bits cur val msk) s1 = Some (ret, s'))"
    using u r by (auto simp: regmap_update_bits_def Let_def simp flip: merge_bits_def same split: if_splits)
  show "ret \<le> 0" using res spec(1) regmap_write_spec(1) [OF a] by (auto split: if_splits)
  show "safe s \<Longrightarrow> safe s'"
    using res spec(4) regmap_write_spec(2) [OF a] by (auto split: if_splits)
  show "\<exists>cur s1. regmap_read (Some m) reg 0 s = Some (0, cur, s1) \<and>
       (if cur AND msk = val AND msk then s' = s1
        else \<exists>new. new AND msk = val AND msk \<and> new AND NOT msk = cur AND NOT msk \<and>
          regmap_write (Some m) reg new s1 = Some (0, s'))" if "ret = 0"
  proof -
    have "r = 0" using res spec(1) that by (auto split: if_splits)
    then show ?thesis
      using r res that merge_bits_in [of cur val msk] merge_bits_out [of cur val msk]
      by (auto split: if_splits)
  qed
qed

end

subsection \<open>The child adapter of a mux is a bridge\<close>

locale i2c_mux = i2c_master +
  fixes select deselect :: "(u32 \<Rightarrow> 's \<Rightarrow> (int \<times> 's) option) option"
  assumes select_safe: "select = Some f \<Longrightarrow> f ch s = Some (rc, s') \<Longrightarrow> safe s \<Longrightarrow> safe s'"
    and deselect_safe: "deselect = Some f \<Longrightarrow> f ch s = Some (rc, s') \<Longrightarrow> safe s \<Longrightarrow> safe s'"
begin

lemma mux_cases:
  assumes "mux_master_xfer select deselect (Some xfer) msgs s = Some (rc, msgs', s')"
  obtains (refused) "rc < 0" "msgs' = msgs" "safe s \<longrightarrow> safe s'"
  | (ran) xrc s1 s2 where "xfer msgs s1 = Some (xrc, msgs', s2)" "safe s \<longrightarrow> safe s1"
      "safe s2 \<longrightarrow> safe s'" "rc < 0 \<or> rc = xrc"
proof -
  obtain r s1 where sel: "(case select of None \<Rightarrow> Some (0, s) | Some f \<Rightarrow> f 0 s) = Some (r, s1)"
    using assms by (auto simp: mux_master_xfer_def bind_eq_Some_conv)
  have s1: "safe s \<longrightarrow> safe s1" using sel select_safe by (auto split: option.splits)
  show ?thesis
  proof (cases "r < 0")
    case True
    then show ?thesis using assms sel s1 refused by (auto simp: mux_master_xfer_def)
  next
    case False
    then obtain xrc s2 d where x: "xfer msgs s1 = Some (xrc, msgs', s2)"
      and des: "(case deselect of None \<Rightarrow> Some (0, s2) | Some f \<Rightarrow> f 0 s2) = Some (d, s')"
      and rc: "rc = (if xrc < 0 then xrc else if d < 0 then d else xrc)"
      using assms sel by (auto simp: mux_master_xfer_def bind_eq_Some_conv)
    have "safe s2 \<longrightarrow> safe s'" using des deselect_safe by (auto split: option.splits)
    then show ?thesis using ran [OF x s1] rc by auto
  qed
qed

end

sublocale i2c_mux \<subseteq> child: i2c_master "mux_master_xfer select deselect (Some xfer)" safe max_len
proof
  fix msgs s rc msgs' s'
  assume m: "mux_master_xfer select deselect (Some xfer) msgs s = Some (rc, msgs', s')"
  assume fits: "\<forall>m \<in> set msgs. msg_fits max_len m" and safe: "safe s"
  show "rc < 0 \<or> rc = int (length msgs)"
    using m by (cases rule: mux_cases) (use safe in \<open>auto dest: xfer_rc [OF _ fits]\<close>)
  show "map msg_shape msgs' = map msg_shape msgs"
    using m by (cases rule: mux_cases) (use safe in \<open>auto dest: xfer_shape [OF _ fits]\<close>)
  show "msgs' ! i = msgs ! i" if "i < length msgs" "\<not> is_read (msgs ! i)" for i
    using m by (cases rule: mux_cases) (use safe that in \<open>auto dest: xfer_writes [OF _ fits]\<close>)
  show "safe s'"
    using m by (cases rule: mux_cases) (use safe in \<open>auto dest: xfer_safe [OF _ fits]\<close>)
qed (rule max_len)

end
