(* ===== verification/Em28xx_Bridge.thy ===== *)
theory Em28xx_Bridge
  imports Usb_Wire I2c_Core
begin

text \<open>
  The em28xx bridge (\<open>bridges/em28xx/bridge/src/em28xx_core.c\<close>, \<open>em28xx_i2c.c\<close>, \<open>em28xx_gpio.c\<close>,
  \<open>em28xx_ts.c\<close>): register access over vendor control transfers, the i2c master with its status poll
  and its bus switch, the GPIO sequences and the TS capture switch. A \<open>NULL\<close> device is \<open>None\<close>; a
  buffer argument is one the callers pass, never \<open>NULL\<close>. The status poll runs until a deadline of the
  host's clock, so it is a \<open>partial_function\<close>; \<open>em28xx_i2c_returns\<close> shows that it ends when the clock
  advances over a sleep.
\<close>

record em28xx_dev =
  em_usb :: usbq_dev
  em_chip_id :: int
  em_i2c_speed :: u8
  em_cur_i2c_bus :: int

definition EM28XX_URB_MAX_CTRL_SIZE :: int where "EM28XX_URB_MAX_CTRL_SIZE = 64"
definition EM28XX_CTRL_TIMEOUT_MS :: u32 where "EM28XX_CTRL_TIMEOUT_MS = 1000"

subsection \<open>Register access\<close>

definition em28xx_read_reg_req_len :: "host \<Rightarrow> em28xx_dev option \<Rightarrow> u8 \<Rightarrow> u16 \<Rightarrow> bytes \<Rightarrow> int \<Rightarrow> wire
    \<Rightarrow> int \<times> bytes \<times> wire" where
  "em28xx_read_reg_req_len env dev req reg buf len w =
     (case dev of
        None \<Rightarrow> (- EINVAL, buf, w)
      | Some d \<Rightarrow>
          if len \<le> 0 \<or> len > EM28XX_URB_MAX_CTRL_SIZE then (- EINVAL, buf, w)
          else usbq_control env (Some (em_usb d)) 0xC0 req 0 reg buf (word_of_int len)
                 EM28XX_CTRL_TIMEOUT_MS w)"

definition em28xx_write_regs_req :: "host \<Rightarrow> em28xx_dev option \<Rightarrow> u8 \<Rightarrow> u16 \<Rightarrow> bytes \<Rightarrow> int \<Rightarrow> wire
    \<Rightarrow> int \<times> wire" where
  "em28xx_write_regs_req env dev req reg buf len w =
     (case dev of
        None \<Rightarrow> (- EINVAL, w)
      | Some d \<Rightarrow>
          if len < 1 \<or> len > EM28XX_URB_MAX_CTRL_SIZE then (- EINVAL, w)
          else
            let (ret, _, w) = usbq_control env (Some (em_usb d)) 0x40 req 0 reg buf (word_of_int len)
                                EM28XX_CTRL_TIMEOUT_MS w
            in (ret, w))"

definition em28xx_read_reg_len :: "host \<Rightarrow> em28xx_dev option \<Rightarrow> u16 \<Rightarrow> bytes \<Rightarrow> int \<Rightarrow> wire
    \<Rightarrow> int \<times> bytes \<times> wire" where
  "em28xx_read_reg_len env dev reg buf len w = em28xx_read_reg_req_len env dev 0 reg buf len w"

definition em28xx_read_reg :: "host \<Rightarrow> em28xx_dev option \<Rightarrow> u16 \<Rightarrow> wire \<Rightarrow> int \<times> wire" where
  "em28xx_read_reg env dev reg w =
     (let (ret, v, w) = em28xx_read_reg_len env dev reg [0] 1 w
      in if ret < 0 then (ret, w) else (uint (hd v), w))"

definition em28xx_write_regs :: "host \<Rightarrow> em28xx_dev option \<Rightarrow> u16 \<Rightarrow> bytes \<Rightarrow> int \<Rightarrow> wire \<Rightarrow> int \<times> wire"
where
  "em28xx_write_regs env dev reg buf len w =
     (let (ret, w) = em28xx_write_regs_req env dev 0 reg buf len w in (if ret < 0 then ret else 0, w))"

definition em28xx_write_reg :: "host \<Rightarrow> em28xx_dev option \<Rightarrow> u16 \<Rightarrow> u8 \<Rightarrow> wire \<Rightarrow> int \<times> wire" where
  "em28xx_write_reg env dev reg val w = em28xx_write_regs env dev reg [val] 1 w"

definition em28xx_write_reg_bits :: "host \<Rightarrow> em28xx_dev option \<Rightarrow> u16 \<Rightarrow> u8 \<Rightarrow> u8 \<Rightarrow> wire \<Rightarrow> int \<times> wire"
where
  "em28xx_write_reg_bits env dev reg val bitmask w =
     (let (oldval, w) = em28xx_read_reg env dev reg w
      in if oldval < 0 then (oldval, w)
         else em28xx_write_regs env dev reg
                [(word_of_int oldval AND NOT bitmask) OR (val AND bitmask)] 1 w)"

subsection \<open>Lifecycle\<close>

definition em28xx_open :: "host \<Rightarrow> usbq_dev option \<Rightarrow> wire \<Rightarrow> em28xx_dev option \<times> wire" where
  "em28xx_open env usb w =
     (case usb of
        None \<Rightarrow> (None, w)
      | Some u \<Rightarrow>
          let (r, w) = ask env Alloc w
          in if r_rc r = 0 then (None, w)
             else
               let dev = \<lparr>em_usb = u, em_chip_id = 0, em_i2c_speed = 0, em_cur_i2c_bus = -1\<rparr>;
                   (chip, w) = em28xx_read_reg env (Some dev) 0x0a w
               in (Some (dev\<lparr>em_chip_id := if chip < 0 then 0 else chip\<rparr>), w))"

definition em28xx_chip_id :: "em28xx_dev option \<Rightarrow> int" where
  "em28xx_chip_id dev = (case dev of None \<Rightarrow> 0 | Some d \<Rightarrow> em_chip_id d)"

definition em28xx_usb_handle :: "em28xx_dev option \<Rightarrow> usbq_dev option" where
  "em28xx_usb_handle dev = (case dev of None \<Rightarrow> None | Some d \<Rightarrow> Some (em_usb d))"

subsection \<open>The i2c status poll\<close>

definition em28xx_now_ms :: "host \<Rightarrow> wire \<Rightarrow> int \<times> wire" where
  "em28xx_now_ms env w = (let (r, w) = ask env Clock_ms w in (r_rc r, w))"

partial_function (option) em28xx_poll :: "host \<Rightarrow> em28xx_dev option \<Rightarrow> int \<Rightarrow> wire \<Rightarrow> (int \<times> wire) option"
where
  "em28xx_poll env dev deadline w =
     (let (s, w) = em28xx_read_reg env dev 0x05 w
      in if s < 0 then Some (s, w)
         else if s = 0x00 then Some (0, w)
         else if s = 0x10 then Some (- ENXIO, w)
         else
           let (now, w) = em28xx_now_ms env w
           in if now \<ge> deadline then Some (if s = 0x02 \<or> s = 0x04 then - ETIMEDOUT else - EIO, w)
              else em28xx_poll env dev deadline (w @ [Sleep_us 5000]))"

definition em28xx_i2c_wait_status :: "host \<Rightarrow> em28xx_dev option \<Rightarrow> wire \<Rightarrow> (int \<times> wire) option" where
  "em28xx_i2c_wait_status env dev w =
     (let (now, w) = em28xx_now_ms env w in em28xx_poll env dev (now + 36) w)"

subsection \<open>Messages\<close>

definition em28xx_i2c_send_bytes :: "host \<Rightarrow> em28xx_dev option \<Rightarrow> u16 \<Rightarrow> bytes \<Rightarrow> u16 \<Rightarrow> bool \<Rightarrow> wire
    \<Rightarrow> (int \<times> wire) option" where
  "em28xx_i2c_send_bytes env dev addr buf len stop w =
     (let l = uint len
      in if l < 1 \<or> l > EM28XX_URB_MAX_CTRL_SIZE then Some (- EOPNOTSUPP, w)
         else
           let (ret, w) = em28xx_write_regs_req env dev (if stop then 2 else 3) addr buf l w
           in if ret < 0 then Some (ret, w)
              else if ret \<noteq> l then Some (- EIO, w)
              else do {
                (s, w) \<leftarrow> em28xx_i2c_wait_status env dev w;
                Some (if s < 0 then s else l, w)
              })"

definition em28xx_i2c_recv_bytes :: "host \<Rightarrow> em28xx_dev option \<Rightarrow> u16 \<Rightarrow> bytes \<Rightarrow> u16 \<Rightarrow> wire
    \<Rightarrow> (int \<times> bytes \<times> wire) option" where
  "em28xx_i2c_recv_bytes env dev addr buf len w =
     (let l = uint len
      in if l < 1 \<or> l > EM28XX_URB_MAX_CTRL_SIZE then Some (- EOPNOTSUPP, buf, w)
         else
           let (ret, buf, w) = em28xx_read_reg_req_len env dev 2 addr buf l w
           in if ret < 0 then Some (ret, buf, w)
              else do {
                (s, w) \<leftarrow> em28xx_i2c_wait_status env dev w;
                Some (if s < 0 then s else ret, buf, w)
              })"

definition em28xx_i2c_check_for_device :: "host \<Rightarrow> em28xx_dev option \<Rightarrow> u16 \<Rightarrow> wire
    \<Rightarrow> (int \<times> wire) option" where
  "em28xx_i2c_check_for_device env dev addr w = do {
     (ret, _, w) \<leftarrow> em28xx_i2c_recv_bytes env dev addr [0] 1 w;
     Some (if ret = 1 then 0 else if ret < 0 then ret else - EIO, w)
   }"

text \<open>One turn of the message loop: the address is shifted in 16 bits, a short read or write is an
  error.\<close>

definition em28xx_one_msg :: "host \<Rightarrow> em28xx_dev option \<Rightarrow> bool \<Rightarrow> i2c_msg \<Rightarrow> wire
    \<Rightarrow> (int \<times> i2c_msg \<times> wire) option" where
  "em28xx_one_msg env dev is_last m w =
     (let addr_w = push_bit 1 (m_addr m)
      in if m_len m = 0 then do {
           (rc, w) \<leftarrow> em28xx_i2c_check_for_device env dev addr_w w;
           Some (rc, m, w)
         }
         else if is_read m then do {
           (rc, buf, w) \<leftarrow> em28xx_i2c_recv_bytes env dev addr_w (m_buf m) (m_len m) w;
           Some (if rc \<ge> 0 \<and> rc \<noteq> uint (m_len m) then - EIO else if rc = uint (m_len m) then 0 else rc,
                 m\<lparr>m_buf := buf\<rparr>, w)
         }
         else do {
           (rc, w) \<leftarrow> em28xx_i2c_send_bytes env dev addr_w (m_buf m) (m_len m) is_last w;
           Some (if rc = uint (m_len m) then 0 else if rc \<ge> 0 then - EIO else rc, m, w)
         })"

fun em28xx_msgs :: "host \<Rightarrow> em28xx_dev option \<Rightarrow> i2c_msg list \<Rightarrow> wire
    \<Rightarrow> (int \<times> i2c_msg list \<times> wire) option" where
  "em28xx_msgs env dev [] w = Some (0, [], w)"
| "em28xx_msgs env dev (m # ms) w = do {
     (rc, m, w) \<leftarrow> em28xx_one_msg env dev (ms = []) m w;
     if rc < 0 then Some (rc, m # ms, w)
     else do {
       (rc, ms, w) \<leftarrow> em28xx_msgs env dev ms w;
       Some (rc, m # ms, w)
     }
   }"

text \<open>\<open>num\<close> is the length of the message array.\<close>

definition em28xx_i2c_xfer :: "host \<Rightarrow> em28xx_dev option \<Rightarrow> int \<Rightarrow> i2c_msg list \<Rightarrow> wire
    \<Rightarrow> (int \<times> i2c_msg list \<times> em28xx_dev option \<times> wire) option" where
  "em28xx_i2c_xfer env dev bus msgs w =
     (case dev of
        None \<Rightarrow> Some (- EINVAL, msgs, dev, w)
      | Some d \<Rightarrow>
          if bus \<noteq> 0 \<and> bus \<noteq> 1 then Some (- EINVAL, msgs, dev, w)
          else
            let (ret, d, w) =
                  (if bus \<noteq> em_cur_i2c_bus d
                   then let (ret, w) = em28xx_write_reg_bits env (Some d) 0x06
                                         (if bus = 1 then 0x04 else 0) 0x04 w
                        in if ret < 0 then (ret, d, w) else (0, d\<lparr>em_cur_i2c_bus := bus\<rparr>, w)
                   else (0, d, w))
            in if ret < 0 then Some (ret, msgs, Some d, w)
               else do {
                 (rc, msgs, w) \<leftarrow> em28xx_msgs env (Some d) msgs w;
                 Some (if rc < 0 then rc else int (length msgs), msgs, Some d, w)
               })"

definition em28xx_i2c_set_speed :: "host \<Rightarrow> em28xx_dev option \<Rightarrow> u8 \<Rightarrow> wire
    \<Rightarrow> int \<times> em28xx_dev option \<times> wire" where
  "em28xx_i2c_set_speed env dev val w =
     (case dev of
        None \<Rightarrow> (- EINVAL, None, w)
      | Some d \<Rightarrow>
          let (ret, w) = em28xx_write_reg env dev 0x06 val w
          in if ret < 0 then (ret, Some d, w)
             else (0, Some (d\<lparr>em_i2c_speed := val AND NOT 0x04,
                              em_cur_i2c_bus := if val AND 0x04 \<noteq> 0 then 1 else 0\<rparr>), w))"

text \<open>The adapter handed to the chip drivers: its state is the bridge and the wire.\<close>

definition em28xx_kpi_master_xfer :: "host \<Rightarrow> int \<Rightarrow> (em28xx_dev \<times> wire) master" where
  "em28xx_kpi_master_xfer env bus msgs s = do {
     (rc, msgs, d, w) \<leftarrow> em28xx_i2c_xfer env (Some (fst s)) bus msgs (snd s);
     Some (rc, msgs, (case d of None \<Rightarrow> fst s | Some d \<Rightarrow> d), w)
   }"

definition em28xx_get_i2c_adapter :: "host \<Rightarrow> em28xx_dev option \<Rightarrow> int
    \<Rightarrow> (em28xx_dev \<times> wire) master option" where
  "em28xx_get_i2c_adapter env dev bus =
     (if dev = None \<or> (bus \<noteq> 0 \<and> bus \<noteq> 1) then None else Some (em28xx_kpi_master_xfer env bus))"

subsection \<open>GPIO sequences and TS capture\<close>

datatype em28xx_mode = EM28XX_MODE_SUSPEND | EM28XX_MODE_ANALOG | EM28XX_MODE_DIGITAL

record em28xx_reg_seq =
  rs_reg :: int
  rs_val :: int
  rs_mask :: int
  rs_sleep_ms :: int

definition em28xx_set_xclk :: "host \<Rightarrow> em28xx_dev option \<Rightarrow> u8 \<Rightarrow> wire \<Rightarrow> int \<times> wire" where
  "em28xx_set_xclk env dev xclk w =
     (if dev = None then (- EINVAL, w) else em28xx_write_reg env dev 0x0f xclk w)"

text \<open>The walk stops at the first negative sleep, the end marker of every sequence.\<close>

fun em28xx_gpio_walk :: "host \<Rightarrow> em28xx_dev option \<Rightarrow> em28xx_reg_seq list \<Rightarrow> wire \<Rightarrow> int \<times> wire" where
  "em28xx_gpio_walk env dev [] w = (0, w)"
| "em28xx_gpio_walk env dev (q # qs) w =
     (if rs_sleep_ms q < 0 then (0, w)
      else
        let (ret, w) = (if rs_reg q \<ge> 0
                        then em28xx_write_reg_bits env dev (word_of_int (rs_reg q))
                               (word_of_int (rs_val q)) (word_of_int (rs_mask q)) w
                        else (0, w))
        in if ret < 0 then (ret, w)
           else em28xx_gpio_walk env dev qs
                  (if rs_sleep_ms q > 0 then msleep (nat (rs_sleep_ms q)) w else w))"

definition em28xx_gpio_set :: "host \<Rightarrow> em28xx_dev option \<Rightarrow> em28xx_mode \<Rightarrow> em28xx_reg_seq list option
    \<Rightarrow> wire \<Rightarrow> int \<times> wire" where
  "em28xx_gpio_set env dev mode sq w =
     (if dev = None then (- EINVAL, w)
      else
        let (ret, w) =
              (if mode \<noteq> EM28XX_MODE_SUSPEND then
                 let (ret, w) = em28xx_write_reg env dev 0x48 0x00 w
                 in if ret < 0 then (ret, w)
                    else
                      let (ret, w) = em28xx_write_reg env dev 0x12
                            (if mode = EM28XX_MODE_ANALOG then 0x67 else 0x37) w
                      in if ret < 0 then (ret, w) else (0, msleep 10 w)
               else (0, w))
        in if ret < 0 then (ret, w)
           else (case sq of None \<Rightarrow> (0, w) | Some qs \<Rightarrow> em28xx_gpio_walk env dev qs w))"

definition em2874_family :: "int \<Rightarrow> bool" where
  "em2874_family chip \<longleftrightarrow> chip = 65 \<or> chip = 68 \<or> chip = 113 \<or> chip = 114"

definition em28xx_enable_dual_ts_bulk :: "host \<Rightarrow> em28xx_dev option \<Rightarrow> wire \<Rightarrow> int \<times> wire" where
  "em28xx_enable_dual_ts_bulk env dev w =
     (if dev = None then (- EINVAL, w)
      else if \<not> em2874_family (em28xx_chip_id dev) then (- ENOTSUP, w)
      else
        let (ret, w) = em28xx_write_reg env dev 0x0b 0x96 w
        in if ret < 0 then (ret, w)
           else
             let (ret, w) = em28xx_write_reg env dev 0x0b 0x80 (msleep 100 w)
             in if ret < 0 then (ret, w) else (0, msleep 100 w))"

definition em28xx_capture_start :: "host \<Rightarrow> em28xx_dev option \<Rightarrow> int \<Rightarrow> bool \<Rightarrow> wire \<Rightarrow> int \<times> wire" where
  "em28xx_capture_start env dev ts_index enable w =
     (if dev = None \<or> (ts_index \<noteq> 0 \<and> ts_index \<noteq> 1) then (- EINVAL, w)
      else if \<not> em2874_family (em28xx_chip_id dev) then (- ENOTSUP, w)
      else
        let (ret, w) = em28xx_write_reg env dev (if ts_index = 0 then 0x5d else 0x5e) 0xff w
        in if ret < 0 then (ret, w)
           else
             let m = (if ts_index = 0 then 0x01 OR 0x02 OR 0x04 else 0x10 OR 0x20 OR 0x40);
                 v = (if ts_index = 0 then (if enable then 0x01 else 0)
                      else (if enable then 0x10 else 0))
             in em28xx_write_reg_bits env dev 0x5f v m w)"

subsection \<open>What the i2c operations put on the wire\<close>

text \<open>A step from \<open>w\<close> to \<open>w'\<close> that stays within its buffers, with the i2c frames (requests 2 and 3) it
  issued.\<close>

definition i2c_frames :: "wire \<Rightarrow> wire" where
  "i2c_frames v = filter (\<lambda>q. case q of Control h bm req val idx buf len t \<Rightarrow> req \<noteq> 0 | _ \<Rightarrow> False) v"

definition ran :: "wire \<Rightarrow> wire \<Rightarrow> wire \<Rightarrow> bool" where
  "ran w w' fs \<longleftrightarrow> (\<exists>v. w' = w @ v \<and> i2c_frames v = fs \<and> (\<forall>q \<in> set v. req_in_bounds q))"

lemma ran_refl [simp]: "ran w w []"
  by (simp add: ran_def i2c_frames_def)

lemma ran_trans: "ran w w1 fs \<Longrightarrow> ran w1 w2 gs \<Longrightarrow> ran w w2 (fs @ gs)"
  by (auto simp: ran_def i2c_frames_def)

lemma ran_trans0: "ran w w1 fs \<Longrightarrow> ran w1 w2 [] \<Longrightarrow> ran w w2 fs"
  using ran_trans by fastforce

lemma ran_step: "req_in_bounds q \<Longrightarrow> ran w (w @ [q]) (i2c_frames [q])"
  by (simp add: ran_def)

lemma ran_tidy: "ran w w' fs \<Longrightarrow> tidy w w'"
  by (auto simp: ran_def tidy_def)

lemma i2c_frames_simps [simp]:
  "i2c_frames [Clock_ms] = []" "i2c_frames [Sleep_us n] = []" "i2c_frames [] = []"
  "i2c_frames [Control h bm 0 val idx buf len t] = []"
  "req \<noteq> 0 \<Longrightarrow> i2c_frames [Control h bm req val idx buf len t] = [Control h bm req val idx buf len t]"
  by (simp_all add: i2c_frames_def)

lemma ran_clock: "ran w (w @ [Clock_ms]) []" "ran w (w @ [Sleep_us n]) []"
  using ran_step [of Clock_ms w] ran_step [of "Sleep_us n" w] by simp_all

definition em_ctrl :: "em28xx_dev \<Rightarrow> u8 \<Rightarrow> u8 \<Rightarrow> u16 \<Rightarrow> bytes \<Rightarrow> int \<Rightarrow> usb_req" where
  "em_ctrl d bm req reg buf len =
     Control (ud_handle (em_usb d)) bm req 0 reg buf (word_of_int len) EM28XX_CTRL_TIMEOUT_MS"

lemma unat_word_len: "0 \<le> l \<Longrightarrow> l \<le> 64 \<Longrightarrow> unat (word_of_int l :: u16) = nat l"
  by (simp add: unat_eq_nat_uint uint_word_of_int)

lemma em_ctrl_in_bounds: "0 \<le> l \<Longrightarrow> l \<le> 64 \<Longrightarrow> nat l \<le> length buf \<Longrightarrow>
    req_in_bounds (em_ctrl d bm req reg buf l)"
  by (simp add: em_ctrl_def unat_word_len)

lemma em_ctrl_frames [simp]:
  "i2c_frames [em_ctrl d bm 0 reg buf l] = []"
  "req \<noteq> 0 \<Longrightarrow> i2c_frames [em_ctrl d bm req reg buf l] = [em_ctrl d bm req reg buf l]"
  by (simp_all add: em_ctrl_def)

lemma em28xx_read_eq:
  "1 \<le> l \<Longrightarrow> l \<le> 64 \<Longrightarrow> em28xx_read_reg_req_len env (Some d) req reg buf l w =
     (let w' = w @ [em_ctrl d 0xC0 req reg buf l]
      in (r_rc (env w'), fill_buffer buf (nat l) (r_data (env w')), w'))"
  by (simp add: em28xx_read_reg_req_len_def EM28XX_URB_MAX_CTRL_SIZE_def usbq_control_def ask_def
      em_ctrl_def unat_word_len Let_def)

lemma em28xx_write_eq:
  "1 \<le> l \<Longrightarrow> l \<le> 64 \<Longrightarrow> em28xx_write_regs_req env (Some d) req reg buf l w =
     (let w' = w @ [em_ctrl d 0x40 req reg buf l] in (r_rc (env w'), w'))"
  by (simp add: em28xx_write_regs_req_def EM28XX_URB_MAX_CTRL_SIZE_def usbq_control_def ask_def
      em_ctrl_def Let_def)

lemma em28xx_read_reg_eq:
  "em28xx_read_reg env (Some d) reg w =
     (let w' = w @ [em_ctrl d 0xC0 0 reg [0] 1]; r = env w'
      in (if r_rc r < 0 then r_rc r else uint (hd (fill_buffer [0] 1 (r_data r))), w'))"
  by (simp add: em28xx_read_reg_def em28xx_read_reg_len_def em28xx_read_eq Let_def)

lemma em28xx_write_reg_eq:
  "em28xx_write_reg env (Some d) reg v w =
     (let w' = w @ [em_ctrl d 0x40 0 reg [v] 1] in (if r_rc (env w') < 0 then r_rc (env w') else 0, w'))"
  by (simp add: em28xx_write_reg_def em28xx_write_regs_def em28xx_write_eq Let_def)

lemma em28xx_write_reg_bits_eq:
  "em28xx_write_reg_bits env (Some d) reg v m w =
     (let (old, w1) = em28xx_read_reg env (Some d) reg w
      in if old < 0 then (old, w1)
         else em28xx_write_reg env (Some d) reg (merge_bits (word_of_int old) v m) w1)"
  by (simp add: em28xx_write_reg_bits_def em28xx_write_reg_def merge_bits_def split: prod.split)

lemma ran_read_reg: "em28xx_read_reg env (Some d) reg w = (v, w') \<Longrightarrow> ran w w' []"
  using ran_step [OF em_ctrl_in_bounds [of 1 "[0]" d "0xC0" 0 reg], of w]
  by (auto simp: em28xx_read_reg_eq Let_def)

lemma ran_write_reg: "em28xx_write_reg env (Some d) reg v w = (r, w') \<Longrightarrow> ran w w' [] \<and> r \<le> 0"
  using ran_step [OF em_ctrl_in_bounds [of 1 "[v]" d "0x40" 0 reg], of w]
  by (auto simp: em28xx_write_reg_eq Let_def split: if_splits)

lemma ran_write_bits: "em28xx_write_reg_bits env (Some d) reg v m w = (r, w') \<Longrightarrow> ran w w' [] \<and> r \<le> 0"
  by (auto simp: em28xx_write_reg_bits_eq Let_def split: if_splits prod.splits
      dest: ran_read_reg ran_write_reg intro: ran_trans0)

subsection \<open>The poll\<close>

lemma em28xx_poll_spec:
  assumes "em28xx_poll env (Some d) deadline w = Some r"
  shows "fst r \<le> 0 \<and> ran w (snd r) []"
proof -
  have "Some d \<noteq> None \<longrightarrow> fst r \<le> 0 \<and> ran w (snd r) []"
  proof (rule em28xx_poll.raw_induct
      [where P = "\<lambda>env dev dl w r. dev \<noteq> None \<longrightarrow> fst r \<le> 0 \<and> ran w (snd r) []", OF _ assms])
    fix poll env dev deadline w and r :: "int \<times> wire"
    assume IH: "\<And>env dev deadline w r. poll env dev deadline w = Some r \<Longrightarrow>
        dev \<noteq> None \<longrightarrow> fst r \<le> 0 \<and> ran w (snd r) []"
      and body: "(let (s, w) = em28xx_read_reg env dev 0x05 w
      in if s < 0 then Some (s, w)
         else if s = 0x00 then Some (0, w)
         else if s = 0x10 then Some (- ENXIO, w)
         else
           let (now, w) = em28xx_now_ms env w
           in if now \<ge> deadline then Some (if s = 0x02 \<or> s = 0x04 then - ETIMEDOUT else - EIO, w)
              else poll env dev deadline (w @ [Sleep_us 5000])) = Some r"
    show "dev \<noteq> None \<longrightarrow> fst r \<le> 0 \<and> ran w (snd r) []"
    proof
      assume "dev \<noteq> None"
      then obtain d where d: "dev = Some d" by blast
      obtain v w1 where rd: "em28xx_read_reg env (Some d) 0x05 w = (v, w1)" by force
      note r1 = ran_read_reg [OF rd]
      have r2: "ran w (w1 @ [Clock_ms]) []"
        by (rule ran_trans0 [OF r1 ran_clock(1)])
      have r3: "ran w ((w1 @ [Clock_ms]) @ [Sleep_us 5000]) []"
        by (rule ran_trans0 [OF r2 ran_clock(2)])
      obtain s1 w2 where r: "r = (s1, w2)" by force
      show "fst r \<le> 0 \<and> ran w (snd r) []"
        unfolding r using body [unfolded r] d rd r1 r2 IH [of env "Some d" deadline "(w1 @ [Clock_ms]) @ [Sleep_us 5000]" "(s1, w2)"]
          ran_trans0 [OF r3]
        by (auto simp: em28xx_now_ms_def ask_def split: if_splits)
    qed
  qed
  then show ?thesis by simp
qed

lemma em28xx_wait_spec:
  assumes "em28xx_i2c_wait_status env (Some d) w = Some (s, w')"
  shows "s \<le> 0" "ran w w' []"
  using assms em28xx_poll_spec [of env d _ "w @ [Clock_ms]" "(s, w')"]
    ran_trans0 [OF ran_clock(1)]
  by (auto simp: em28xx_i2c_wait_status_def em28xx_now_ms_def ask_def)

subsection \<open>Messages\<close>

lemma em28xx_send_spec:
  assumes "em28xx_i2c_send_bytes env (Some d) addr buf len stop w = Some (rc, w')"
    and "unat len \<le> length buf"
  shows "rc < 0 \<and> tidy w w' \<or> rc = uint len \<and> uint len \<in> {1..64} \<and>
    ran w w' [em_ctrl d 0x40 (if stop then 2 else 3) addr buf (uint len)]"
proof (cases "1 \<le> uint len \<and> uint len \<le> 64")
  case False
  then show ?thesis
    using assms by (auto simp: em28xx_i2c_send_bytes_def Let_def EM28XX_URB_MAX_CTRL_SIZE_def)
next
  case True
  define w1 where "w1 = w @ [em_ctrl d 0x40 (if stop then 2 else 3) addr buf (uint len)]"
  have "req_in_bounds (em_ctrl d 0x40 (if stop then 2 else 3) addr buf (uint len))"
    using True assms(2) by (intro em_ctrl_in_bounds) (simp_all add: nat_uint_eq)
  from ran_step [OF this, of w]
  have r1: "ran w w1 [em_ctrl d 0x40 (if stop then 2 else 3) addr buf (uint len)]"
    by (simp add: w1_def)
  show ?thesis
    using assms(1) True r1 ran_tidy [OF r1] em28xx_wait_spec [of env d w1] ran_trans0 [OF r1]
      ran_tidy [OF ran_trans0 [OF r1]]
    by (auto simp: em28xx_i2c_send_bytes_def EM28XX_URB_MAX_CTRL_SIZE_def em28xx_write_eq Let_def
        bind_eq_Some_conv simp flip: w1_def split: if_splits)
qed

lemma em28xx_recv_spec:
  assumes "em28xx_i2c_recv_bytes env (Some d) addr buf len w = Some (rc, buf', w')"
    and "unat len \<le> length buf"
  shows "length buf' = length buf \<and>
    (rc < 0 \<and> tidy w w' \<or> 0 \<le> rc \<and> uint len \<in> {1..64} \<and>
       ran w w' [em_ctrl d 0xC0 2 addr buf (uint len)])"
proof (cases "1 \<le> uint len \<and> uint len \<le> 64")
  case False
  then show ?thesis
    using assms by (auto simp: em28xx_i2c_recv_bytes_def Let_def EM28XX_URB_MAX_CTRL_SIZE_def)
next
  case True
  define w1 where "w1 = w @ [em_ctrl d 0xC0 2 addr buf (uint len)]"
  have "req_in_bounds (em_ctrl d 0xC0 2 addr buf (uint len))"
    using True assms(2) by (intro em_ctrl_in_bounds) (simp_all add: nat_uint_eq)
  from ran_step [OF this, of w]
  have r1: "ran w w1 [em_ctrl d 0xC0 2 addr buf (uint len)]"
    by (simp add: w1_def)
  show ?thesis
    using assms(1) True r1 ran_tidy [OF r1] em28xx_wait_spec [of env d w1] ran_trans0 [OF r1]
      ran_tidy [OF ran_trans0 [OF r1]]
    by (auto simp: em28xx_i2c_recv_bytes_def EM28XX_URB_MAX_CTRL_SIZE_def em28xx_read_eq Let_def
        bind_eq_Some_conv simp flip: w1_def split: if_splits)
qed

text \<open>The frame a message is on the wire: a probe reads one byte, a read asks for its length, a write
  ends with the stop request only when it is the last message.\<close>

definition em28xx_frame :: "em28xx_dev \<Rightarrow> bool \<Rightarrow> i2c_msg \<Rightarrow> usb_req" where
  "em28xx_frame d is_last m =
     (if m_len m = 0 then em_ctrl d 0xC0 2 (push_bit 1 (m_addr m)) [0] 1
      else if is_read m then em_ctrl d 0xC0 2 (push_bit 1 (m_addr m)) (m_buf m) (uint (m_len m))
      else em_ctrl d 0x40 (if is_last then 2 else 3) (push_bit 1 (m_addr m)) (m_buf m) (uint (m_len m)))"

fun em28xx_frames :: "em28xx_dev \<Rightarrow> i2c_msg list \<Rightarrow> usb_req list" where
  "em28xx_frames d [] = []"
| "em28xx_frames d (m # ms) = em28xx_frame d (ms = []) m # em28xx_frames d ms"

lemma em28xx_one_msg_spec:
  assumes "em28xx_one_msg env (Some d) is_last m w = Some (rc, m', w')"
    and fits: "unat (m_len m) \<le> length (m_buf m)"
  shows "rc \<le> 0" "msg_shape m' = msg_shape m" "\<not> is_read m \<Longrightarrow> m' = m" "tidy w w'"
    "rc = 0 \<Longrightarrow> ran w w' [em28xx_frame d is_last m]"
proof -
  note run = assms(1) [unfolded em28xx_one_msg_def Let_def]
  have "rc \<le> 0 \<and> msg_shape m' = msg_shape m \<and> (\<not> is_read m \<longrightarrow> m' = m) \<and> tidy w w' \<and>
      (rc = 0 \<longrightarrow> ran w w' [em28xx_frame d is_last m])"
  proof (cases "m_len m = 0")
    case True
    then obtain r b where x:
      "em28xx_i2c_recv_bytes env (Some d) (push_bit 1 (m_addr m)) [0] 1 w = Some (r, b, w')"
      "rc = (if r = 1 then 0 else if r < 0 then r else - EIO)" "m' = m"
      using run by (auto simp: em28xx_i2c_check_for_device_def bind_eq_Some_conv)
    show ?thesis
      using em28xx_recv_spec [OF x(1)] x(2,3) True by (auto simp: em28xx_frame_def dest: ran_tidy)
  next
    case len: False
    show ?thesis
    proof (cases "is_read m")
      case True
      obtain r b w1 where r:
        "em28xx_i2c_recv_bytes env (Some d) (push_bit 1 (m_addr m)) (m_buf m) (m_len m) w = Some (r, b, w1)"
        using run len True
        by (cases "em28xx_i2c_recv_bytes env (Some d) (push_bit 1 (m_addr m)) (m_buf m) (m_len m) w") auto
      have x: "em28xx_i2c_recv_bytes env (Some d) (push_bit 1 (m_addr m)) (m_buf m) (m_len m) w
          = Some (r, b, w')"
        "rc = (if r \<ge> 0 \<and> r \<noteq> uint (m_len m) then - EIO else if r = uint (m_len m) then 0 else r)"
        "m' = m\<lparr>m_buf := b\<rparr>"
        using run len True r by simp_all
      note q = em28xx_recv_spec [OF x(1) fits]
      have "tidy w w'" using q by (auto dest: ran_tidy)
      moreover have "rc \<le> 0" using x(2) by (simp split: if_splits)
      moreover have "rc = 0 \<longrightarrow> ran w w' [em28xx_frame d is_last m]"
      proof
        assume "rc = 0"
        then have "r = uint (m_len m)" using x(2) by (simp split: if_splits)
        then have "\<not> r < 0" by simp
        with q show "ran w w' [em28xx_frame d is_last m]" using True len by (simp add: em28xx_frame_def)
      qed
      ultimately show ?thesis using x(3) True q by (simp add: msg_shape_def)
    next
      case False
      obtain r w1 where r:
        "em28xx_i2c_send_bytes env (Some d) (push_bit 1 (m_addr m)) (m_buf m) (m_len m) is_last w = Some (r, w1)"
        using run len False
        by (cases "em28xx_i2c_send_bytes env (Some d) (push_bit 1 (m_addr m)) (m_buf m) (m_len m) is_last w")
           auto
      have x: "em28xx_i2c_send_bytes env (Some d) (push_bit 1 (m_addr m)) (m_buf m) (m_len m) is_last w
          = Some (r, w')"
        "rc = (if r = uint (m_len m) then 0 else if r \<ge> 0 then - EIO else r)" "m' = m"
        using run len False r by auto
      note q = em28xx_send_spec [OF x(1) fits]
      have "tidy w w'" using q by (auto dest: ran_tidy)
      moreover have "rc \<le> 0" using x(2) by (simp split: if_splits)
      moreover have "rc = 0 \<longrightarrow> ran w w' [em28xx_frame d is_last m]"
      proof
        assume "rc = 0"
        then have "r = uint (m_len m)" using x(2) by (simp split: if_splits)
        then have "\<not> r < 0" by simp
        with q show "ran w w' [em28xx_frame d is_last m]" using False len by (simp add: em28xx_frame_def)
      qed
      ultimately show ?thesis using x(3) False q by (simp add: msg_shape_def)
    qed
  qed
  then show "rc \<le> 0" "msg_shape m' = msg_shape m" "\<not> is_read m \<Longrightarrow> m' = m" "tidy w w'"
    "rc = 0 \<Longrightarrow> ran w w' [em28xx_frame d is_last m]" by auto
qed

lemma em28xx_msgs_spec:
  assumes "em28xx_msgs env (Some d) ms w = Some (rc, ms', w')"
    and "\<forall>m \<in> set ms. unat (m_len m) \<le> length (m_buf m)"
  shows "rc \<le> 0 \<and> map msg_shape ms' = map msg_shape ms \<and>
    (\<forall>i < length ms. \<not> is_read (ms ! i) \<longrightarrow> ms' ! i = ms ! i) \<and>
    tidy w w' \<and> (rc = 0 \<longrightarrow> ran w w' (em28xx_frames d ms))"
  using assms
proof (induction ms arbitrary: w rc ms' w')
  case Nil
  then show ?case by simp
next
  case (Cons m ms)
  obtain r m1 w1 where one: "em28xx_one_msg env (Some d) (ms = []) m w = Some (r, m1, w1)"
    using Cons.prems(1) by (auto simp: bind_eq_Some_conv)
  have fits: "unat (m_len m) \<le> length (m_buf m)" using Cons.prems(2) by simp
  note spec = em28xx_one_msg_spec [OF one fits]
  show ?case
  proof (cases "r < 0")
    case True
    then show ?thesis
      using Cons.prems(1) one spec by (auto simp: nth_Cons split: nat.splits)
  next
    case False
    then obtain ms1 where rest: "em28xx_msgs env (Some d) ms w1 = Some (rc, ms1, w')" "ms' = m1 # ms1"
      using Cons.prems(1) one by (auto simp: bind_eq_Some_conv)
    from Cons.IH [OF rest(1)] Cons.prems(2)
    have "rc \<le> 0 \<and> map msg_shape ms1 = map msg_shape ms \<and>
      (\<forall>i < length ms. \<not> is_read (ms ! i) \<longrightarrow> ms1 ! i = ms ! i) \<and>
      tidy w1 w' \<and> (rc = 0 \<longrightarrow> ran w1 w' (em28xx_frames d ms))"
      by simp
    moreover have "ran w w1 [em28xx_frame d (ms = []) m]" using spec(1,5) False by simp
    ultimately show ?thesis
      using rest(2) spec(2,3) tidy_trans [OF spec(4)] ran_trans [of w w1 "[em28xx_frame d (ms = []) m]"]
      by (auto simp: nth_Cons split: nat.splits)
  qed
qed

subsection \<open>The bridge meets the contract\<close>

definition em_select_frames :: "em28xx_dev \<Rightarrow> int \<Rightarrow> nat" where
  "em_select_frames d bus = (if bus = em_cur_i2c_bus d then 0 else 2)"

lemma em28xx_frame_usb: "em_usb d' = em_usb d \<Longrightarrow> em28xx_frames d' ms = em28xx_frames d ms"
  by (induction ms) (simp_all add: em28xx_frame_def em_ctrl_def)

lemma em28xx_xfer_spec:
  assumes x: "em28xx_i2c_xfer env (Some d) bus msgs w = Some (rc, msgs', dev', w')"
    and fits: "\<forall>m \<in> set msgs. unat (m_len m) \<le> length (m_buf m)"
  shows "(rc < 0 \<or> rc = int (length msgs)) \<and> map msg_shape msgs' = map msg_shape msgs \<and>
    (\<forall>i < length msgs. \<not> is_read (msgs ! i) \<longrightarrow> msgs' ! i = msgs ! i) \<and> tidy w w' \<and>
    (\<exists>d'. dev' = Some d' \<and> em_usb d' = em_usb d \<and>
       (0 \<le> rc \<longrightarrow> em_cur_i2c_bus d' = bus \<and> ran w w' (em28xx_frames d msgs)))"
proof (cases "bus = 0 \<or> bus = 1")
  case False
  then show ?thesis using x by (auto simp: em28xx_i2c_xfer_def)
next
  case bus: True
  obtain ret d1 w1 where sw: "(if bus \<noteq> em_cur_i2c_bus d
       then let (ret, w) = em28xx_write_reg_bits env (Some d) 0x06 (if bus = 1 then 0x04 else 0) 0x04 w
            in if ret < 0 then (ret, d, w) else (0, d\<lparr>em_cur_i2c_bus := bus\<rparr>, w)
       else (0, d, w)) = (ret, d1, w1)" (is "?sw = _") by (cases ?sw)
  have sw1: "ran w w1 []" "em_usb d1 = em_usb d" "0 \<le> ret \<longrightarrow> em_cur_i2c_bus d1 = bus"
    using sw by (auto simp: Let_def dest!: ran_write_bits split: if_splits prod.splits)
  have res: "em28xx_i2c_xfer env (Some d) bus msgs w =
      (if ret < 0 then Some (ret, msgs, Some d1, w1)
       else do {
         (rc, msgs, w) \<leftarrow> em28xx_msgs env (Some d1) msgs w1;
         Some (if rc < 0 then rc else int (length msgs), msgs, Some d1, w)
       })"
    using bus sw by (auto simp: em28xx_i2c_xfer_def)
  show ?thesis
  proof (cases "ret < 0")
    case True
    then show ?thesis using x res sw1 by (auto dest: ran_tidy)
  next
    case False
    then obtain r where ms: "em28xx_msgs env (Some d1) msgs w1 = Some (r, msgs', w')"
      "rc = (if r < 0 then r else int (length msgs'))" "dev' = Some d1"
      using x res by (auto simp: bind_eq_Some_conv)
    note spec = em28xx_msgs_spec [OF ms(1) fits]
    have len: "length msgs' = length msgs" using spec by (metis length_map)
    have "tidy w w'" using spec sw1 by (meson ran_tidy tidy_trans)
    moreover have "ran w w' (em28xx_frames d msgs)" if "0 \<le> rc"
    proof -
      have "r = 0" using that ms(2) spec by (simp split: if_splits)
      then have "ran w1 w' (em28xx_frames d msgs)" using spec em28xx_frame_usb [OF sw1(2)] by simp
      then show ?thesis using ran_trans [OF sw1(1)] by simp
    qed
    ultimately show ?thesis using spec ms sw1 False len by simp
  qed
qed

lemma em28xx_kpi_cases:
  assumes "em28xx_kpi_master_xfer env bus msgs s = Some (rc, msgs', s')"
    "\<forall>m \<in> set msgs. msg_fits 65535 m"
  shows "(rc < 0 \<or> rc = int (length msgs)) \<and> map msg_shape msgs' = map msg_shape msgs \<and>
    (\<forall>i < length msgs. \<not> is_read (msgs ! i) \<longrightarrow> msgs' ! i = msgs ! i) \<and> tidy (snd s) (snd s')"
proof -
  obtain dev' where x: "em28xx_i2c_xfer env (Some (fst s)) bus msgs (snd s) = Some (rc, msgs', dev', snd s')"
    using assms(1) by (auto simp: em28xx_kpi_master_xfer_def bind_eq_Some_conv)
  show ?thesis using em28xx_xfer_spec [OF x] assms(2) by (auto simp: msg_fits_def)
qed

interpretation em28xx: i2c_master "em28xx_kpi_master_xfer env bus" wire_safe 65535 for env bus
  by unfold_locales
     (use em28xx_kpi_cases [of env bus] in \<open>fastforce simp: wire_safe_def dest: tidy_safe\<close>)+

text \<open>A mux without callbacks on an em28xx bus, as the mux core allows.\<close>

interpretation em28xx_mux: i2c_mux "em28xx_kpi_master_xfer env bus" wire_safe 65535 None None
  for env bus
  by unfold_locales simp_all

subsection \<open>The poll ends\<close>

text \<open>The host's millisecond clock never goes back, and moves on over a sleep of a millisecond or more.\<close>

definition clock_advances :: "host \<Rightarrow> bool" where
  "clock_advances env \<longleftrightarrow>
     (\<forall>w v. r_rc (env (w @ [Clock_ms])) + (if \<exists>us \<ge> 1000. Sleep_us us \<in> set v then 1 else 0)
        \<le> r_rc (env (w @ Clock_ms # v @ [Clock_ms])))"

lemma em28xx_poll_returns:
  assumes "clock_advances env"
  shows "w = w0 @ Clock_ms # v \<Longrightarrow>
    nat (deadline - r_rc (env (w0 @ [Clock_ms]))) + (if Sleep_us 5000 \<in> set v then 0 else 1) \<le> n \<Longrightarrow>
    em28xx_poll env (Some d) deadline w \<noteq> None"
proof (induction n arbitrary: w w0 v)
  case (Suc n w w0 v)
  let ?now = "r_rc (env (w0 @ [Clock_ms]))"
  obtain s w1 where rd: "em28xx_read_reg env (Some d) 0x05 w = (s, w1)" by force
  then have w1: "w1 = w @ [em_ctrl d 0xC0 0 0x05 [0] 1]" by (simp add: em28xx_read_reg_eq Let_def)
  define now where "now = r_rc (env (w1 @ [Clock_ms]))"
  have adv: "?now + (if Sleep_us 5000 \<in> set v then 1 else 0) \<le> now"
    using assms [unfolded clock_advances_def, rule_format, of w0 "v @ [em_ctrl d 0xC0 0 0x05 [0] 1]"]
    by (auto simp: now_def w1 Suc.prems(1) split: if_splits intro: order_trans)
  have step: "em28xx_poll env (Some d) deadline ((w1 @ [Clock_ms]) @ [Sleep_us 5000]) \<noteq> None"
    if "now < deadline"
  proof (rule Suc.IH [of _ w1 "[Sleep_us 5000]"])
    show "nat (deadline - r_rc (env (w1 @ [Clock_ms])))
        + (if Sleep_us 5000 \<in> set [Sleep_us 5000] then 0 else 1) \<le> n"
      using Suc.prems(2) adv that by (auto simp flip: now_def split: if_splits)
  qed simp
  show ?case
    by (subst em28xx_poll.simps)
       (use step in \<open>auto simp: rd em28xx_now_ms_def ask_def simp flip: now_def\<close>)
next
  case 0
  then have dl: "deadline \<le> r_rc (env (w0 @ [Clock_ms]))" by (simp split: if_splits)
  obtain s w1 where rd: "em28xx_read_reg env (Some d) 0x05 w = (s, w1)" by force
  then have w1: "w1 = w @ [em_ctrl d 0xC0 0 0x05 [0] 1]" by (simp add: em28xx_read_reg_eq Let_def)
  have "deadline \<le> r_rc (env (w1 @ [Clock_ms]))"
    using dl assms [unfolded clock_advances_def, rule_format, of w0 "v @ [em_ctrl d 0xC0 0 0x05 [0] 1]"]
    by (auto simp: w1 0(1) split: if_splits)
  then show ?case
    by (subst em28xx_poll.simps) (auto simp: rd em28xx_now_ms_def ask_def)
qed

lemma em28xx_wait_returns:
  "clock_advances env \<Longrightarrow> em28xx_i2c_wait_status env (Some d) w \<noteq> None"
  using em28xx_poll_returns [of env "w @ [Clock_ms]" w "[]" "r_rc (env (w @ [Clock_ms])) + 36" 37 d]
  by (auto simp: em28xx_i2c_wait_status_def em28xx_now_ms_def ask_def)

definition returns :: "'a option \<Rightarrow> bool" where
  "returns x \<longleftrightarrow> x \<noteq> None"

lemma returns_Some [simp]: "returns (Some y)"
  by (simp add: returns_def)

lemma returns_bind: "returns x \<Longrightarrow> (\<And>y. returns (f y)) \<Longrightarrow> returns (x \<bind> f)"
  by (cases x) (simp_all add: returns_def)

lemma em28xx_one_msg_returns:
  assumes "clock_advances env"
  shows "returns (em28xx_one_msg env (Some d) is_last m w)"
proof -
  have wait: "returns (em28xx_i2c_wait_status env (Some d) w)" for w
    using em28xx_wait_returns [OF assms] by (simp add: returns_def)
  have r: "returns (em28xx_i2c_recv_bytes env (Some d) addr buf len w)" for addr buf len w
    by (auto simp: em28xx_i2c_recv_bytes_def Let_def wait 
        intro!: returns_bind split: prod.splits)
  have s: "returns (em28xx_i2c_send_bytes env (Some d) addr buf len stop w)" for addr buf len stop w
    by (auto simp: em28xx_i2c_send_bytes_def Let_def wait 
        intro!: returns_bind split: prod.splits)
  show ?thesis
    by (auto simp: em28xx_one_msg_def em28xx_i2c_check_for_device_def Let_def r s
        intro!: returns_bind split: prod.splits)
qed

lemma em28xx_msgs_returns:
  "clock_advances env \<Longrightarrow> returns (em28xx_msgs env (Some d) ms w)"
proof (induction ms arbitrary: w)
  case (Cons m ms)
  then show ?case
    by (auto simp: em28xx_one_msg_returns intro!: returns_bind
        split: prod.splits if_splits)
qed simp

subsection \<open>Properties\<close>

text \<open>C23: An i2c transfer over the em28xx bridge returns whatever the device answers, provided the host's
  clock moves on over a sleep: every status poll ends by its 36 ms deadline.\<close>

theorem em28xx_i2c_returns:
  assumes "clock_advances env"
  shows "returns (em28xx_i2c_xfer env dev bus msgs w)"
proof (cases dev)
  case None
  then show ?thesis by (simp add: em28xx_i2c_xfer_def)
next
  case (Some d)
  then show ?thesis
    by (auto simp: em28xx_i2c_xfer_def Let_def em28xx_msgs_returns [OF assms] 
        intro!: returns_bind split: prod.splits)
qed

text \<open>A host whose clock reads the length of the history and whose device always answers \<open>busy\<close>.\<close>

definition busy_host :: host where
  "busy_host w = \<lparr>r_rc = (if last w = Clock_ms then int (length w) else 1), r_data = [1], r_devs = [],
                  r_handle = 1, r_fds = (3, 4)\<rparr>"

definition sample_em :: em28xx_dev where
  "sample_em = \<lparr>em_usb = \<lparr>ud_handle = 5, ud_vid = 0x2040, ud_pid = 0x8265, ud_bus = 1, ud_addr = 7,
     ud_auto_detach = True\<rparr>, em_chip_id = 113, em_i2c_speed = 0, em_cur_i2c_bus = 0\<rparr>"

lemma em28xx_i2c_returns_witness:
  "clock_advances busy_host \<and>
   em28xx_i2c_xfer busy_host (Some sample_em) 0
     [\<lparr>m_addr = 0x64, m_flags = 0, m_len = 1, m_buf = [1]\<rparr>] [] \<noteq> None"
proof -
  have "clock_advances busy_host"
    by (auto simp: clock_advances_def busy_host_def)
  then show ?thesis using em28xx_i2c_returns unfolding returns_def by blast
qed

text \<open>C22: A successful i2c transfer issued exactly the frames its messages stand for, in order: each
  message is one control transfer to its shifted address, a write asks for a stop only when it is the
  last message, a read asks for its length, an empty message probes one byte. The bridge is then on
  the requested bus, the messages keep their shape, the write messages their contents, and no request
  of the transfer, successful or not, reaches past its buffer.\<close>

theorem em28xx_i2c_xfer_frames:
  assumes "em28xx_i2c_xfer env (Some d) bus msgs w = Some (rc, msgs', dev', w')"
    and "\<forall>m \<in> set msgs. unat (m_len m) \<le> length (m_buf m)"
  shows "(rc < 0 \<or> rc = int (length msgs)) \<and> map msg_shape msgs' = map msg_shape msgs \<and>
    (\<forall>i < length msgs. \<not> is_read (msgs ! i) \<longrightarrow> msgs' ! i = msgs ! i) \<and>
    (\<exists>v d'. w' = w @ v \<and> dev' = Some d' \<and> (\<forall>q \<in> set v. req_in_bounds q) \<and>
       (0 \<le> rc \<longrightarrow> em_cur_i2c_bus d' = bus \<and> i2c_frames v = em28xx_frames d msgs))"
proof -
  note x = em28xx_xfer_spec [OF assms]
  then obtain d' v where "dev' = Some d'" "w' = w @ v" "\<forall>q \<in> set v. req_in_bounds q"
    "0 \<le> rc \<longrightarrow> em_cur_i2c_bus d' = bus \<and> ran w w' (em28xx_frames d msgs)"
    by (auto simp: tidy_def)
  then show ?thesis using x by (auto simp: ran_def)
qed

text \<open>A host that accepts every transfer and answers zeros.\<close>

definition quiet_host :: host where
  "quiet_host w = \<lparr>r_rc = (case last w of Control h bm req val idx buf len t \<Rightarrow> uint len | _ \<Rightarrow> 0),
                   r_data = replicate 64 0, r_devs = [], r_handle = 1, r_fds = (3, 4)\<rparr>"

lemma em28xx_i2c_xfer_frames_witness:
  "\<exists>msgs' dev' v. em28xx_i2c_xfer quiet_host (Some sample_em) 0
      [\<lparr>m_addr = 0x64, m_flags = 0, m_len = 1, m_buf = [0xFF]\<rparr>] [] = Some (1, msgs', dev', v) \<and>
    i2c_frames v = [Control 5 0x40 2 0 0xC8 [0xFF] 1 1000]"
proof -
  let ?m = "\<lparr>m_addr = 0x64, m_flags = 0, m_len = 1, m_buf = [0xFF]\<rparr> :: i2c_msg"
  have run: "em28xx_i2c_xfer quiet_host (Some sample_em) 0 [?m] [] = Some (1, [?m], Some sample_em,
      [Control 5 0x40 2 0 0xC8 [0xFF] 1 1000, Clock_ms, Control 5 0xC0 0 0 5 [0] 1 1000])"
    by (subst em28xx_i2c_xfer_def)
       (simp add: sample_em_def em28xx_one_msg_def is_read_def em28xx_i2c_send_bytes_def
        EM28XX_URB_MAX_CTRL_SIZE_def em28xx_write_eq em_ctrl_def quiet_host_def
        em28xx_i2c_wait_status_def em28xx_now_ms_def ask_def em28xx_poll.simps em28xx_read_reg_eq
        EM28XX_CTRL_TIMEOUT_MS_def fill_buffer_def)
  show ?thesis
    using em28xx_i2c_xfer_frames [OF run] run
    by (auto simp: em28xx_frame_def em_ctrl_def is_read_def sample_em_def EM28XX_CTRL_TIMEOUT_MS_def)
qed

text \<open>The register writes and the sleeps of a stretch of wire, in order.\<close>

fun gpio_log :: "wire \<Rightarrow> (u16 + nat) list" where
  "gpio_log [] = []"
| "gpio_log (Control h bm req val idx buf len t # v) = (if bm = 0x40 then [Inl idx] else []) @ gpio_log v"
| "gpio_log (Sleep_us n # v) = Inr n # gpio_log v"
| "gpio_log (_ # v) = gpio_log v"

lemma gpio_log_append [simp]: "gpio_log (u @ v) = gpio_log u @ gpio_log v"
  by (induction u rule: gpio_log.induct) simp_all

fun gpio_plan :: "em28xx_reg_seq list \<Rightarrow> (u16 + nat) list" where
  "gpio_plan [] = []"
| "gpio_plan (q # qs) =
     (if rs_sleep_ms q < 0 then []
      else (if rs_reg q \<ge> 0 then [Inl (word_of_int (rs_reg q))] else [])
           @ (if rs_sleep_ms q > 0 then [Inr (nat (rs_sleep_ms q) * 1000)] else []) @ gpio_plan qs)"

lemma gpio_log_write:
  "em28xx_write_reg env (Some d) reg v w = (r, w') \<Longrightarrow> \<exists>u. w' = w @ u \<and> gpio_log u = [Inl reg]"
  by (auto simp: em28xx_write_reg_eq Let_def em_ctrl_def)

lemma gpio_log_bits:
  assumes "em28xx_write_reg_bits env (Some d) reg v m w = (r, w')" "0 \<le> r"
  shows "\<exists>u. w' = w @ u \<and> gpio_log u = [Inl reg]"
  using assms
  by (auto simp: em28xx_write_reg_bits_eq em28xx_read_reg_eq Let_def em_ctrl_def split: if_splits
      dest!: gpio_log_write)

lemma gpio_walk_log:
  "em28xx_gpio_walk env (Some d) qs w = (r, w') \<Longrightarrow> 0 \<le> r \<Longrightarrow>
     \<exists>u. w' = w @ u \<and> gpio_log u = gpio_plan qs"
proof (induction qs arbitrary: w)
  case (Cons q qs)
  show ?case
  proof (cases "rs_sleep_ms q < 0")
    case True
    then show ?thesis using Cons.prems by simp
  next
    case False
    obtain r1 w1 where one: "(if rs_reg q \<ge> 0
        then em28xx_write_reg_bits env (Some d) (word_of_int (rs_reg q)) (word_of_int (rs_val q))
               (word_of_int (rs_mask q)) w
        else (0, w)) = (r1, w1)" by fastforce
    have r1: "0 \<le> r1" using Cons.prems False one by (auto simp: Let_def split: if_splits)
    obtain u1 where u1: "w1 = w @ u1"
      "gpio_log u1 = (if rs_reg q \<ge> 0 then [Inl (word_of_int (rs_reg q))] else [])"
      using one r1 gpio_log_bits [of env d "word_of_int (rs_reg q)" "word_of_int (rs_val q)"
          "word_of_int (rs_mask q)" w r1 w1] by (auto split: if_splits)
    define w2 where "w2 = (if rs_sleep_ms q > 0 then msleep (nat (rs_sleep_ms q)) w1 else w1)"
    have "em28xx_gpio_walk env (Some d) qs w2 = (r, w')"
      using Cons.prems False one r1 by (simp add: w2_def)
    from Cons.IH [OF this Cons.prems(2)] obtain u2 where "w' = w2 @ u2" "gpio_log u2 = gpio_plan qs"
      by blast
    then show ?thesis
      using u1 False by (auto simp: w2_def split: if_splits)
  qed
qed simp

text \<open>A GPIO sequence that succeeds wrote exactly its registers and slept exactly its delays, in
  order, up to the end marker, after the prelude (register 0x48, VINENABLE, 10 ms) when the mode is
  not suspend.\<close>

theorem em28xx_gpio_sequence:
  assumes "em28xx_gpio_set env (Some d) mode sq w = (r, w')" "0 \<le> r"
  shows "\<exists>u. w' = w @ u \<and> gpio_log u =
    (if mode = EM28XX_MODE_SUSPEND then [] else [Inl 0x48, Inl 0x12, Inr 10000])
    @ (case sq of None \<Rightarrow> [] | Some qs \<Rightarrow> gpio_plan qs)"
proof -
  obtain r1 w1 where pre: "(if mode \<noteq> EM28XX_MODE_SUSPEND then
       let (ret, w) = em28xx_write_reg env (Some d) 0x48 0x00 w
       in if ret < 0 then (ret, w)
          else let (ret, w) = em28xx_write_reg env (Some d) 0x12
                     (if mode = EM28XX_MODE_ANALOG then 0x67 else 0x37) w
               in if ret < 0 then (ret, w) else (0, msleep 10 w)
     else (0, w)) = (r1, w1)" (is "?pre = _") by (cases ?pre)
  have res: "(r, w') = (if r1 < 0 then (r1, w1)
      else (case sq of None \<Rightarrow> (0, w1) | Some qs \<Rightarrow> em28xx_gpio_walk env (Some d) qs w1))"
    using assms(1) pre by (simp add: em28xx_gpio_set_def)
  have r1: "0 \<le> r1" using res assms(2) by (auto split: if_splits)
  obtain u1 where u1: "w1 = w @ u1"
    "gpio_log u1 = (if mode = EM28XX_MODE_SUSPEND then [] else [Inl 0x48, Inl 0x12, Inr 10000])"
    using pre r1 by (auto simp: Let_def split: if_splits prod.splits dest!: gpio_log_write)
  show ?thesis
    using res r1 u1 assms(2) gpio_walk_log [of env d _ w1 r w']
    by (cases sq) fastforce+
qed

lemma em28xx_gpio_sequence_witness:
  "\<exists>u. em28xx_gpio_set quiet_host (Some sample_em) EM28XX_MODE_SUSPEND
      (Some [\<lparr>rs_reg = 0x80, rs_val = 0xFF, rs_mask = 0xFF, rs_sleep_ms = 50\<rparr>,
             \<lparr>rs_reg = -1, rs_val = -1, rs_mask = -1, rs_sleep_ms = -1\<rparr>]) [] = (0, u) \<and>
    gpio_log u = [Inl 0x80, Inr 50000]"
proof -
  let ?q = "[\<lparr>rs_reg = 0x80, rs_val = 0xFF, rs_mask = 0xFF, rs_sleep_ms = 50\<rparr>,
             \<lparr>rs_reg = -1, rs_val = -1, rs_mask = -1, rs_sleep_ms = -1\<rparr>] :: em28xx_reg_seq list"
  obtain r u where run: "em28xx_gpio_set quiet_host (Some sample_em) EM28XX_MODE_SUSPEND (Some ?q) [] = (r, u)"
    by force
  then have "r = 0"
    by (auto simp: em28xx_gpio_set_def em28xx_write_reg_bits_eq em28xx_read_reg_eq
        em28xx_write_reg_eq Let_def quiet_host_def em_ctrl_def split: if_splits)
  then show ?thesis using em28xx_gpio_sequence [OF run] run by auto
qed

text \<open>A register update touches only the bits of its mask: on success the one write it issues is of
  the register it read, with the masked bits from the new value and the others as read.\<close>

theorem em28xx_update_keeps_other_bits:
  assumes "em28xx_write_reg_bits env (Some d) reg v m w = (r, w')" "0 \<le> r"
  shows "\<exists>old new. em28xx_read_reg env (Some d) reg w = (uint old, w @ [em_ctrl d 0xC0 0 reg [0] 1]) \<and>
    w' = w @ [em_ctrl d 0xC0 0 reg [0] 1, em_ctrl d 0x40 0 reg [new] 1] \<and>
    new AND m = v AND m \<and> new AND NOT m = old AND NOT (m :: u8)"
proof -
  define w1 where "w1 = w @ [em_ctrl d 0xC0 0 reg [0] 1]"
  define old where "old = hd (fill_buffer [0] 1 (r_data (env w1)))"
  have rd: "em28xx_read_reg env (Some d) reg w = (uint old, w1)"
    using assms by (auto simp: em28xx_write_reg_bits_eq em28xx_read_reg_eq Let_def old_def w1_def
        split: if_splits)
  then have "w' = w1 @ [em_ctrl d 0x40 0 reg [merge_bits old v m] 1]"
    using assms by (simp add: em28xx_write_reg_bits_eq em28xx_write_reg_eq Let_def)
  then show ?thesis
    using rd merge_bits_in [of old v m] merge_bits_out [of old v m]
    by (auto simp: w1_def)
qed

lemma em28xx_update_keeps_other_bits_witness:
  "\<exists>w'. em28xx_write_reg_bits quiet_host (Some sample_em) 0x5f 1 7 [] = (0, w') \<and>
     w' = [em_ctrl sample_em 0xC0 0 0x5f [0] 1, em_ctrl sample_em 0x40 0 0x5f [1] 1]"
proof -
  obtain r w' where run: "em28xx_write_reg_bits quiet_host (Some sample_em) 0x5f 1 7 [] = (r, w')"
    by force
  then have r: "r = 0" "w' = [em_ctrl sample_em 0xC0 0 0x5f [0] 1, em_ctrl sample_em 0x40 0 0x5f [1] 1]"
    by (auto simp: em28xx_write_reg_bits_eq em28xx_read_reg_eq em28xx_write_reg_eq Let_def
        quiet_host_def em_ctrl_def fill_buffer_def merge_bits_def split: if_splits)
  then show ?thesis using em28xx_update_keeps_other_bits [OF run] run by auto
qed

text \<open>A status read that delivers no byte counts as success: whatever the slave did, a write message
  to it is reported as sent.\<close>

theorem em28xx_empty_status_is_ok:
  assumes "\<And>w. r_rc (env (w @ [em_ctrl d 0xC0 0 0x05 [0] 1])) = 0"
    and "\<And>w. r_data (env (w @ [em_ctrl d 0xC0 0 0x05 [0] 1])) = []"
    and "0 < len" "len \<le> 64"
    and "r_rc (env (w @ [em_ctrl d 0x40 2 addr buf (uint len)])) = uint len"
  shows "\<exists>w'. em28xx_i2c_send_bytes env (Some d) addr buf len True w = Some (uint len, w')"
proof -
  have l: "1 \<le> uint len" "uint len \<le> 64" using assms(3,4) by (simp_all add: word_less_def word_le_def)
  show ?thesis
    using assms(1,2,5) l
    by (simp add: em28xx_i2c_send_bytes_def EM28XX_URB_MAX_CTRL_SIZE_def em28xx_write_eq
        em28xx_i2c_wait_status_def em28xx_now_ms_def ask_def em28xx_poll.simps em28xx_read_reg_eq Let_def)
qed

definition no_status_host :: host where
  "no_status_host w =
     \<lparr>r_rc = (case last w of Control h bm req val idx buf len t \<Rightarrow> if req = 0 then 0 else uint len | _ \<Rightarrow> 0),
      r_data = [], r_devs = [], r_handle = 1, r_fds = (3, 4)\<rparr>"

lemma em28xx_empty_status_is_ok_witness:
  "\<exists>w'. em28xx_i2c_send_bytes no_status_host (Some sample_em) 0xC8 [1] 1 True [] = Some (1, w')"
proof -
  have h: "r_rc (no_status_host (w @ [em_ctrl sample_em 0xC0 0 0x05 [0] 1])) = 0"
    "r_data (no_status_host (w @ [em_ctrl sample_em 0xC0 0 0x05 [0] 1])) = []" for w
    by (simp_all add: no_status_host_def em_ctrl_def)
  have "r_rc (no_status_host ([] @ [em_ctrl sample_em 0x40 2 0xC8 [1] (uint (1 :: u16))])) = uint (1 :: u16)"
    by (simp add: no_status_host_def em_ctrl_def)
  from em28xx_empty_status_is_ok [OF h _ _ this] show ?thesis by simp
qed

end
