(* ===== verification/Dib0700_Bridge.thy ===== *)
theory Dib0700_Bridge
  imports Usb_Wire I2c_Core
begin

text \<open>
  The dib0700 bridge (\<open>bridges/dib0700/bridge/src/dib0700_core.c\<close>, \<open>dib0700_i2c.c\<close>, \<open>dib0700_fw.c\<close>,
  \<open>dib0700_stream.c\<close>): vendor control transfers through the device's scratch buffer, the i2c master of
  the new protocol, the firmware upload and the streaming switch. A \<open>NULL\<close> device is \<open>None\<close>.
\<close>

record dib0700_dev =
  db_usb :: usbq_dev
  db_fw_version :: u32
  db_use_new_i2c :: bool
  db_channel_state :: u8
  db_buf :: bytes         \<comment> \<open>256 bytes of scratch\<close>

definition DIB0700_CTRL_TIMEOUT_MS :: u32 where "DIB0700_CTRL_TIMEOUT_MS = 5000"

definition DIB0700_BUF_LEN :: nat where "DIB0700_BUF_LEN = 256"

definition dib0700_open :: "host \<Rightarrow> usbq_dev option \<Rightarrow> wire \<Rightarrow> dib0700_dev option \<times> wire" where
  "dib0700_open env usb w =
     (case usb of
        None \<Rightarrow> (None, w)
      | Some u \<Rightarrow>
          let (r, w) = ask env Alloc w
          in (if r_rc r = 0 then None
              else Some \<lparr>db_usb = u, db_fw_version = 0, db_use_new_i2c = False, db_channel_state = 0,
                         db_buf = replicate DIB0700_BUF_LEN 0\<rparr>, w))"

definition dib0700_usb_handle :: "dib0700_dev option \<Rightarrow> usbq_dev option" where
  "dib0700_usb_handle dev = (case dev of None \<Rightarrow> None | Some d \<Rightarrow> Some (db_usb d))"

subsection \<open>Vendor control transfers\<close>

definition dib0700_ctrl_wr :: "host \<Rightarrow> dib0700_dev option \<Rightarrow> bytes option \<Rightarrow> int \<Rightarrow> wire \<Rightarrow> int \<times> wire" where
  "dib0700_ctrl_wr env dev tx txlen w =
     (case (dev, tx) of
        (Some d, Some t) \<Rightarrow>
          if txlen < 1 then (- EINVAL, w)
          else
            let (rc, _, w) = usbq_control env (Some (db_usb d)) 0x40 (hd t) 0 0 t (word_of_int txlen)
                               DIB0700_CTRL_TIMEOUT_MS w
            in (if rc < 0 then rc else 0, w)
      | _ \<Rightarrow> (- EINVAL, w))"

definition dib0700_ctrl_rd :: "host \<Rightarrow> dib0700_dev option \<Rightarrow> bytes option \<Rightarrow> int \<Rightarrow> bytes option \<Rightarrow> int
    \<Rightarrow> wire \<Rightarrow> int \<times> bytes option \<times> wire" where
  "dib0700_ctrl_rd env dev tx txlen rx rxlen w =
     (case (dev, tx, rx) of
        (Some d, Some t, Some r) \<Rightarrow>
          if txlen < 2 \<or> txlen > 4 \<or> rxlen < 1 then (- EINVAL, rx, w)
          else
            let value = word_of_int ((txlen - 2) * 256) OR ucast (t ! 1);
                index = (if txlen > 2 then push_bit 8 (ucast (t ! 2)) else 0)
                        OR (if txlen > 3 then ucast (t ! 3) else 0);
                (rc, out, w) = usbq_control env (Some (db_usb d)) 0xC0 (t ! 0) value index r
                                 (word_of_int rxlen) DIB0700_CTRL_TIMEOUT_MS w
            in (rc, Some out, w)
      | _ \<Rightarrow> (- EINVAL, rx, w))"

text \<open>Writing the first bytes of the scratch buffer.\<close>

definition set_buf :: "bytes \<Rightarrow> dib0700_dev \<Rightarrow> dib0700_dev" where
  "set_buf bs d = d\<lparr>db_buf := memcpy_at (db_buf d) 0 bs (length bs)\<rparr>"

text \<open>Direction and value of a pin: their low bits.\<close>

definition dib0700_set_gpio :: "host \<Rightarrow> dib0700_dev option \<Rightarrow> u8 \<Rightarrow> int \<Rightarrow> int \<Rightarrow> wire
    \<Rightarrow> int \<times> dib0700_dev option \<times> wire" where
  "dib0700_set_gpio env dev gpio direction val w =
     (case dev of
        None \<Rightarrow> (- EINVAL, None, w)
      | Some d \<Rightarrow>
          let d = set_buf [0x0C, gpio, push_bit 7 (word_of_int direction AND 1)
                                       OR push_bit 6 (word_of_int val AND 1)] d;
              (rc, w) = dib0700_ctrl_wr env (Some d) (Some (db_buf d)) 3 w
          in (rc, Some d, w))"

definition dib0700_set_i2c_speed :: "host \<Rightarrow> dib0700_dev option \<Rightarrow> u16 \<Rightarrow> wire
    \<Rightarrow> int \<times> dib0700_dev option \<times> wire" where
  "dib0700_set_i2c_speed env dev scl_kHz w =
     (case dev of
        None \<Rightarrow> (- EINVAL, None, w)
      | Some d \<Rightarrow>
          if scl_kHz = 0 then (- EINVAL, Some d, w)
          else
            let d1 = word_of_nat (30000 div unat scl_kHz) :: u16;
                d2 = word_of_nat (72000 div unat scl_kHz) :: u16;
                hi = (\<lambda>x :: u16. ucast (drop_bit 8 x) :: u8); lo = (\<lambda>x :: u16. ucast x :: u8);
                d = set_buf [0x10, 0, hi d1, lo d1, hi d2, lo d2, hi d2, lo d2] d;
                (rc, w) = dib0700_ctrl_wr env (Some d) (Some (db_buf d)) 8 w
            in (rc, Some d, w))"

text \<open>The running version is the third big-endian word of the answer. The 16-byte answer buffer is on
  the stack; its initial contents do not matter.\<close>

definition be32 :: "bytes \<Rightarrow> nat \<Rightarrow> u32" where
  "be32 b i = push_bit 24 (ucast (b ! i)) OR push_bit 16 (ucast (b ! (i + 1)))
              OR push_bit 8 (ucast (b ! (i + 2))) OR ucast (b ! (i + 3))"

definition dib0700_get_firmware_version :: "host \<Rightarrow> dib0700_dev option \<Rightarrow> u32 \<Rightarrow> wire
    \<Rightarrow> int \<times> u32 \<times> dib0700_dev option \<times> wire" where
  "dib0700_get_firmware_version env dev out w =
     (case dev of
        None \<Rightarrow> (- EINVAL, out, None, w)
      | Some d \<Rightarrow>
          let (rc, buf, w) = usbq_control env (Some (db_usb d)) 0xC0 0x15 0 0 (replicate 16 0) 16
                               DIB0700_CTRL_TIMEOUT_MS w
          in if rc < 16 then (if rc < 0 then rc else - EIO, out, Some d, w)
             else let v = be32 buf 8 in (0, v, Some (d\<lparr>db_fw_version := v\<rparr>), w))"

definition dib0700_is_cold :: "host \<Rightarrow> dib0700_dev option \<Rightarrow> wire \<Rightarrow> int \<times> wire" where
  "dib0700_is_cold env dev w =
     (case dev of
        None \<Rightarrow> (- EINVAL, w)
      | Some d \<Rightarrow>
          let (rc, _, w) = usbq_control env (Some (db_usb d)) 0xC0 0x15 0 0 (replicate 16 0) 16
                             DIB0700_CTRL_TIMEOUT_MS w
          in (if rc \<le> 0 then 1 else 0, w))"

subsection \<open>The i2c master\<close>

text \<open>The flags and low six length bits of a message header.\<close>

definition i2c_ctl :: "bool \<Rightarrow> bool \<Rightarrow> u16 \<Rightarrow> u16" where
  "i2c_ctl en_start en_stop len =
     push_bit 7 (if en_start then 1 else 0) OR push_bit 6 (if en_stop then 1 else 0) OR (len AND 0x3f)"

definition dib0700_read_req :: "dib0700_dev \<Rightarrow> i2c_msg \<Rightarrow> bool \<Rightarrow> bool \<Rightarrow> usb_req" where
  "dib0700_read_req d m en_start en_stop =
     Control (ud_handle (db_usb d)) 0xC0 0x12
       (push_bit 8 (i2c_ctl en_start en_stop (m_len m)) OR push_bit 1 (m_addr m)) 0x10
       (db_buf d) (m_len m) DIB0700_CTRL_TIMEOUT_MS"

definition dib0700_i2c_xfer_one_read :: "host \<Rightarrow> dib0700_dev \<Rightarrow> i2c_msg \<Rightarrow> bool \<Rightarrow> bool \<Rightarrow> wire
    \<Rightarrow> int \<times> i2c_msg \<times> dib0700_dev \<times> wire" where
  "dib0700_i2c_xfer_one_read env d m en_start en_stop w =
     (let val = push_bit 8 (i2c_ctl en_start en_stop (m_len m)) OR push_bit 1 (m_addr m);
          (rc, buf, w) = usbq_control env (Some (db_usb d)) 0xC0 0x12 val 0x10 (db_buf d) (m_len m)
                           DIB0700_CTRL_TIMEOUT_MS w;
          d = d\<lparr>db_buf := buf\<rparr>
      in if rc < 0 then (rc, m, d, w)
         else if rc < uint (m_len m) then (- EIO, m, d, w)
         else (0, m\<lparr>m_buf := memcpy_at (m_buf m) 0 buf (unat (m_len m))\<rparr>, d, w))"

definition dib0700_i2c_xfer_one_write :: "host \<Rightarrow> dib0700_dev \<Rightarrow> i2c_msg \<Rightarrow> bool \<Rightarrow> bool \<Rightarrow> wire
    \<Rightarrow> int \<times> dib0700_dev \<times> wire" where
  "dib0700_i2c_xfer_one_write env d m en_start en_stop w =
     (if unat (m_len m) > DIB0700_BUF_LEN - 4 then (- EOPNOTSUPP, d, w)
      else
        let d = set_buf [0x13, ucast (push_bit 1 (m_addr m)), ucast (i2c_ctl en_start en_stop (m_len m)),
                         0x10] d;
            d = d\<lparr>db_buf := memcpy_at (db_buf d) 4 (m_buf m) (unat (m_len m))\<rparr>;
            (rc, _, w) = usbq_control env (Some (db_usb d)) 0x40 0x13 0 0 (db_buf d) (m_len m + 4)
                           DIB0700_CTRL_TIMEOUT_MS w
        in (if rc < 0 then rc else 0, d, w))"

text \<open>The message loop; \<open>i\<close> is the index of the next message, so the first starts and the last stops.\<close>

fun dib0700_msgs :: "host \<Rightarrow> nat \<Rightarrow> i2c_msg list \<Rightarrow> dib0700_dev \<Rightarrow> wire
    \<Rightarrow> int \<times> i2c_msg list \<times> dib0700_dev \<times> wire" where
  "dib0700_msgs env i [] d w = (0, [], d, w)"
| "dib0700_msgs env i (m # ms) d w =
     (let en_start = (i = 0 \<or> m_flags m AND I2C_M_NOSTART = 0);
          en_stop = (ms = []);
          (rc, m, d, w) = (if is_read m then dib0700_i2c_xfer_one_read env d m en_start en_stop w
                           else let (rc, d, w) = dib0700_i2c_xfer_one_write env d m en_start en_stop w
                                in (rc, m, d, w))
      in if rc < 0 then (rc, m # ms, d, w)
         else let (rc, ms, d, w) = dib0700_msgs env (Suc i) ms d w in (rc, m # ms, d, w))"

definition dib0700_i2c_master_xfer :: "host \<Rightarrow> (dib0700_dev \<times> wire) master" where
  "dib0700_i2c_master_xfer env msgs s =
     (let (rc, msgs, d, w) = dib0700_msgs env 0 msgs (fst s) (snd s)
      in Some (if rc < 0 then rc else int (length msgs), msgs, (d, w)))"

definition dib0700_get_i2c_adapter :: "host \<Rightarrow> dib0700_dev option \<Rightarrow> (dib0700_dev \<times> wire) master option"
where
  "dib0700_get_i2c_adapter env dev =
     (if dev = None then None else Some (dib0700_i2c_master_xfer env))"

subsection \<open>Streaming\<close>

definition set_usb_xfer_len :: "host \<Rightarrow> dib0700_dev \<Rightarrow> u16 \<Rightarrow> wire \<Rightarrow> int \<times> dib0700_dev \<times> wire" where
  "set_usb_xfer_len env d nb_ts_packets w =
     (if db_fw_version d < 0x10201 then (0, d, w)
      else
        let d = set_buf [0x00, ucast (drop_bit 8 nb_ts_packets), ucast nb_ts_packets] d;
            (rc, w) = dib0700_ctrl_wr env (Some d) (Some (db_buf d)) 3 w
        in (rc, d, w))"

definition dib0700_streaming_ctrl :: "host \<Rightarrow> dib0700_dev option \<Rightarrow> int \<Rightarrow> bool \<Rightarrow> bool \<Rightarrow> wire
    \<Rightarrow> int \<times> dib0700_dev option \<times> wire" where
  "dib0700_streaming_ctrl env dev adapter_idx onoff disable_master w =
     (case dev of
        None \<Rightarrow> (- EINVAL, None, w)
      | Some d \<Rightarrow>
          if adapter_idx < 0 \<or> adapter_idx > 7 then (- EINVAL, Some d, w)
          else
            let (rc, d, w) = (if onoff then set_usb_xfer_len env d 21 w else (0, d, w))
            in if rc < 0 then (rc, Some d, w)
               else
                 let b = push_bit (nat adapter_idx) 1;
                     d = d\<lparr>db_channel_state := if onoff then db_channel_state d OR b
                                               else db_channel_state d AND NOT b\<rparr>;
                     d = set_buf [0x0F, push_bit 4 (if onoff then 1 else 0),
                                  (if disable_master then db_channel_state d
                                   else push_bit 4 1 OR db_channel_state d), 0x00] d;
                     (rc, w) = dib0700_ctrl_wr env (Some d) (Some (db_buf d)) 4 w
                 in (rc, Some d, w))"

subsection \<open>Firmware upload\<close>

text \<open>What opening and reading a file gives.\<close>

datatype file_outcome = No_File | Stat_Fails | No_Memory | Short_Read | File_Bytes bytes

type_synonym file_system = "string \<Rightarrow> file_outcome"

definition slurp_file :: "file_system \<Rightarrow> string option \<Rightarrow> int + bytes" where
  "slurp_file fs path =
     (case path of
        None \<Rightarrow> Inl (- EINVAL)
      | Some p \<Rightarrow>
          (case fs p of
             No_File \<Rightarrow> Inl (- ENOENT)
           | Stat_Fails \<Rightarrow> Inl (- EIO)
           | No_Memory \<Rightarrow> Inl (- ENOMEM)
           | Short_Read \<Rightarrow> Inl (- EIO)
           | File_Bytes b \<Rightarrow> Inr b))"

definition jumpram_frame :: "u32 \<Rightarrow> bytes" where
  "jumpram_frame address = [0x08, 0, 0, 0, ucast (drop_bit 24 address), ucast (drop_bit 16 address),
                            ucast (drop_bit 8 address), ucast address]"

definition dib0700_jumpram :: "host \<Rightarrow> dib0700_dev \<Rightarrow> u32 \<Rightarrow> wire \<Rightarrow> int \<times> wire" where
  "dib0700_jumpram env d address w =
     (let (rc, w) = usbq_bulk_write env (Some (db_usb d)) 0x01 (jumpram_frame address) 8
                      DIB0700_CTRL_TIMEOUT_MS w
      in (if rc = 8 then 0 else if rc < 0 then rc else - EIO, w))"

text \<open>The record walk: \<open>pkt\<close> is the 260-byte packet buffer of the function.\<close>

function dib0700_fw_records :: "host \<Rightarrow> dib0700_dev \<Rightarrow> bytes \<Rightarrow> nat \<Rightarrow> bytes \<Rightarrow> wire \<Rightarrow> int \<times> wire" where
  "dib0700_fw_records env d fw pos pkt w =
     (if pos < length fw then
        if pos + 4 > length fw then (- EINVAL, w)
        else
          let rec_len = unat (fw ! pos);
              rec_addr = ucast (fw ! (pos + 1)) OR push_bit 8 (ucast (fw ! (pos + 2))) :: u16;
              rec_type = fw ! (pos + 3)
          in if pos + rec_len + 4 + 1 > length fw then (- EINVAL, w)
             else
               let rec_chk = fw ! (pos + rec_len + 4);
                   pkt = memcpy_at pkt 0 [fw ! pos, ucast (drop_bit 8 rec_addr), ucast rec_addr, rec_type] 4;
                   pkt = memcpy_at pkt 4 (drop (pos + 4) fw) rec_len;
                   pkt = pkt[4 + rec_len := rec_chk];
                   (wr, w) = usbq_bulk_write env (Some (db_usb d)) 0x01 pkt (rec_len + 5)
                               DIB0700_CTRL_TIMEOUT_MS w
               in if wr < 0 then (wr, w)
                  else if wr \<noteq> int (rec_len + 5) then (- EIO, w)
                  else dib0700_fw_records env d fw (pos + rec_len + 4 + 1) pkt w
      else (0, w))"
  by pat_completeness auto

termination
  by (relation "measure (\<lambda>(env, d, fw, pos, pkt, w). length fw - pos)") auto

definition dib0700_download_firmware :: "host \<Rightarrow> file_system \<Rightarrow> dib0700_dev option \<Rightarrow> string option
    \<Rightarrow> wire \<Rightarrow> int \<times> wire" where
  "dib0700_download_firmware env fs dev fw_path w =
     (case (dev, fw_path) of
        (Some d, Some path) \<Rightarrow>
          (case slurp_file fs (Some path) of
             Inl rc \<Rightarrow> (rc, w)
           | Inr fw \<Rightarrow>
               let (rc, w) = dib0700_fw_records env d fw 0 (replicate 260 0) w
               in if rc \<noteq> 0 then (rc, w)
                  else
                    let (rc, w) = dib0700_jumpram env d 0x70000000 w
                    in (rc, if rc = 0 then w @ [Sleep_us 500000] else w))
      | _ \<Rightarrow> (- EINVAL, w))"

declare dib0700_fw_records.simps [simp del]

subsection \<open>The bridge meets the contract\<close>

text \<open>The scratch buffer has its size, and every request stayed within its buffer.\<close>

definition dib0700_safe :: "dib0700_dev \<times> wire \<Rightarrow> bool" where
  "dib0700_safe s \<longleftrightarrow> length (db_buf (fst s)) = DIB0700_BUF_LEN \<and> wire_safe s"

lemma length_set_buf [simp]:
  "length bs \<le> length (db_buf d) \<Longrightarrow> length (db_buf (set_buf bs d)) = length (db_buf d)"
  by (simp add: set_buf_def)

lemma take_set_buf: "n = length bs \<Longrightarrow> take n (db_buf (set_buf bs d)) = bs"
  by (simp add: set_buf_def memcpy_at_def)

lemma db_usb_set_buf [simp]: "db_usb (set_buf bs d) = db_usb d"
  "db_channel_state (set_buf bs d) = db_channel_state d" "db_fw_version (set_buf bs d) = db_fw_version d"
  "(set_buf bs d)\<lparr>db_buf := b\<rparr> = d\<lparr>db_buf := b\<rparr>"
  by (simp_all add: set_buf_def)

text \<open>What a write leaves in the scratch buffer, and the request that sends it.\<close>

definition write_buf :: "dib0700_dev \<Rightarrow> i2c_msg \<Rightarrow> bool \<Rightarrow> bool \<Rightarrow> bytes" where
  "write_buf d m en_start en_stop =
     memcpy_at (db_buf (set_buf [0x13, ucast (push_bit 1 (m_addr m)),
        ucast (i2c_ctl en_start en_stop (m_len m)), 0x10] d)) 4 (m_buf m) (unat (m_len m))"

definition dib0700_write_req :: "dib0700_dev \<Rightarrow> i2c_msg \<Rightarrow> bool \<Rightarrow> bool \<Rightarrow> usb_req" where
  "dib0700_write_req d m en_start en_stop =
     Control (ud_handle (db_usb d)) 0x40 0x13 0 0 (write_buf d m en_start en_stop) (m_len m + 4)
       DIB0700_CTRL_TIMEOUT_MS"

lemma dib0700_read_eq:
  "dib0700_i2c_xfer_one_read env d m st sp w =
     (let w' = w @ [dib0700_read_req d m st sp]; r = env w';
          buf = fill_buffer (db_buf d) (unat (m_len m)) (r_data r)
      in if r_rc r < 0 then (r_rc r, m, d\<lparr>db_buf := buf\<rparr>, w')
         else if r_rc r < uint (m_len m) then (- EIO, m, d\<lparr>db_buf := buf\<rparr>, w')
         else (0, m\<lparr>m_buf := memcpy_at (m_buf m) 0 buf (unat (m_len m))\<rparr>, d\<lparr>db_buf := buf\<rparr>, w'))"
  by (simp add: dib0700_i2c_xfer_one_read_def dib0700_read_req_def usbq_control_def ask_def Let_def)

lemma dib0700_write_eq:
  "unat (m_len m) \<le> 252 \<Longrightarrow> dib0700_i2c_xfer_one_write env d m st sp w =
     (let w' = w @ [dib0700_write_req d m st sp]; r = env w'
      in (if r_rc r < 0 then r_rc r else 0, d\<lparr>db_buf := write_buf d m st sp\<rparr>, w'))"
  by (simp add: dib0700_i2c_xfer_one_write_def dib0700_write_req_def usbq_control_def ask_def Let_def
      DIB0700_BUF_LEN_def write_buf_def)

lemma length_write_buf [simp]:
  "length (db_buf d) = 256 \<Longrightarrow> unat (m_len m) \<le> length (m_buf m) \<Longrightarrow> unat (m_len m) \<le> 252 \<Longrightarrow>
     length (write_buf d m st sp) = 256"
  by (simp add: write_buf_def)

lemma len_plus_4: "unat (l :: u16) \<le> 252 \<Longrightarrow> unat (l + 4) = unat l + 4"
  by (simp add: unat_word_ariths take_bit_nat_eq_self)

text \<open>The requests of a message list, over the buffer as it stands at each message.\<close>

definition one_req :: "nat \<Rightarrow> bool \<Rightarrow> i2c_msg \<Rightarrow> dib0700_dev \<Rightarrow> usb_req" where
  "one_req i is_last m d =
     (let st = (i = 0 \<or> m_flags m AND I2C_M_NOSTART = 0)
      in if is_read m then dib0700_read_req d m st is_last else dib0700_write_req d m st is_last)"

text \<open>A request without its buffer's contents past what it sends.\<close>

fun on_bus :: "usb_req \<Rightarrow> (u8 \<times> u16 \<times> u16 \<times> u16 \<times> bytes) option" where
  "on_bus (Control h bm req val idx buf len t) =
     Some (req, val, idx, len, if bit bm 7 then [] else take (unat len) buf)"
| "on_bus _ = None"

definition dib0700_frame :: "nat \<Rightarrow> bool \<Rightarrow> i2c_msg \<Rightarrow> (u8 \<times> u16 \<times> u16 \<times> u16 \<times> bytes) option" where
  "dib0700_frame i is_last m =
     (let ctl = i2c_ctl (i = 0 \<or> m_flags m AND I2C_M_NOSTART = 0) is_last (m_len m)
      in Some (if is_read m then (0x12, push_bit 8 ctl OR push_bit 1 (m_addr m), 0x10, m_len m, [])
               else (0x13, 0, 0, m_len m + 4,
                     [0x13, ucast (push_bit 1 (m_addr m)), ucast ctl, 0x10] @ take (unat (m_len m)) (m_buf m))))"

fun dib0700_frames :: "nat \<Rightarrow> i2c_msg list \<Rightarrow> (u8 \<times> u16 \<times> u16 \<times> u16 \<times> bytes) option list" where
  "dib0700_frames i [] = []"
| "dib0700_frames i (m # ms) = dib0700_frame i (ms = []) m # dib0700_frames (Suc i) ms"

lemma one_req_frame:
  assumes "length (db_buf d) = 256" "msg_fits 256 m" "is_read m \<or> unat (m_len m) \<le> 252"
  shows "on_bus (one_req i is_last m d) = dib0700_frame i is_last m"
    "req_in_bounds (one_req i is_last m d)"
proof -
  have fits: "unat (m_len m) \<le> length (m_buf m)" "unat (m_len m) \<le> 256"
    using assms(2) by (simp_all add: msg_fits_def)
  have b: "bit (0xC0 :: u8) 7" "\<not> bit (0x40 :: u8) 7" by (simp_all add: bit_numeral_rec)
  have t: "take (unat (m_len m) + 4) (write_buf d m st sp) = [0x13, ucast (push_bit 1 (m_addr m)),
      ucast (i2c_ctl st sp (m_len m)), 0x10] @ take (unat (m_len m)) (m_buf m)"
    if "unat (m_len m) \<le> 252" for st sp
    using fits that assms(1) take_memcpy_at [of 4 _ "unat (m_len m)" "m_buf m"]
    by (simp add: write_buf_def take_set_buf add.commute [of _ 4])
  show "on_bus (one_req i is_last m d) = dib0700_frame i is_last m"
    using assms t b len_plus_4 [of "m_len m"]
    by (auto simp: one_req_def dib0700_frame_def dib0700_read_req_def dib0700_write_req_def Let_def)
  show "req_in_bounds (one_req i is_last m d)"
    using assms fits len_plus_4 [of "m_len m"]
    by (auto simp: one_req_def dib0700_read_req_def dib0700_write_req_def Let_def)
qed

definition dib0700_one :: "host \<Rightarrow> nat \<Rightarrow> bool \<Rightarrow> i2c_msg \<Rightarrow> dib0700_dev \<Rightarrow> wire
    \<Rightarrow> int \<times> i2c_msg \<times> dib0700_dev \<times> wire" where
  "dib0700_one env i is_last m d w =
     (let en_start = (i = 0 \<or> m_flags m AND I2C_M_NOSTART = 0)
      in if is_read m then dib0700_i2c_xfer_one_read env d m en_start is_last w
         else let (rc, d, w) = dib0700_i2c_xfer_one_write env d m en_start is_last w in (rc, m, d, w))"

lemma dib0700_msgs_Nil: "dib0700_msgs env i [] d w = (0, [], d, w)"
  by simp

lemma dib0700_msgs_Cons:
  "dib0700_msgs env i (m # ms) d w =
     (let (rc, m, d, w) = dib0700_one env i (ms = []) m d w
      in if rc < 0 then (rc, m # ms, d, w)
         else let (rc, ms, d, w) = dib0700_msgs env (Suc i) ms d w in (rc, m # ms, d, w))"
  by (simp add: dib0700_one_def Let_def)

declare dib0700_msgs.simps [simp del]

lemma dib0700_one_spec:
  assumes run: "dib0700_one env i is_last m d w = (rc, m', d', w')"
    and d: "length (db_buf d) = 256" and fits: "msg_fits 256 m"
  shows "rc \<le> 0 \<and> msg_shape m' = msg_shape m \<and> (\<not> is_read m \<longrightarrow> m' = m) \<and>
    length (db_buf d') = 256 \<and> db_usb d' = db_usb d \<and> tidy w w' \<and>
    (rc = 0 \<longrightarrow> w' = w @ [one_req i is_last m d] \<and> (is_read m \<or> unat (m_len m) \<le> 252))"
proof (cases "is_read m \<or> unat (m_len m) \<le> 252")
  case False
  then show ?thesis
    using run d by (simp add: dib0700_one_def dib0700_i2c_xfer_one_write_def DIB0700_BUF_LEN_def Let_def)
next
  case True
  have t: "tidy w (w @ [one_req i is_last m d])"
    by (rule tidy_step, rule one_req_frame [OF d fits True])
  show ?thesis
  proof (cases "is_read m")
    case rd: True
    then have r: "one_req i is_last m d
        = dib0700_read_req d m (i = 0 \<or> m_flags m AND I2C_M_NOSTART = 0) is_last"
      by (simp add: one_req_def Let_def)
    show ?thesis
      using run d fits rd t
      by (auto simp: dib0700_one_def dib0700_read_eq Let_def r msg_shape_def msg_fits_def split: if_splits)
  next
    case wr: False
    then have r: "one_req i is_last m d
        = dib0700_write_req d m (i = 0 \<or> m_flags m AND I2C_M_NOSTART = 0) is_last"
      by (simp add: one_req_def Let_def)
    show ?thesis
      using run d fits wr t True
      by (auto simp: dib0700_one_def dib0700_write_eq Let_def one_req_def msg_fits_def split: if_splits)
  qed
qed

lemma dib0700_msgs_spec:
  assumes "dib0700_msgs env i ms d w = (rc, ms', d', w')" "length (db_buf d) = 256"
    "\<forall>m \<in> set ms. msg_fits 256 m"
  shows "rc \<le> 0 \<and> map msg_shape ms' = map msg_shape ms \<and>
    (\<forall>j < length ms. \<not> is_read (ms ! j) \<longrightarrow> ms' ! j = ms ! j) \<and>
    length (db_buf d') = 256 \<and> db_usb d' = db_usb d \<and> tidy w w' \<and>
    (rc = 0 \<longrightarrow> (\<exists>v. w' = w @ v \<and> map on_bus v = dib0700_frames i ms))"
  using assms
proof (induction ms arbitrary: i d w rc ms' d' w')
  case (Cons m ms)
  obtain r m1 d1 w1 where one: "dib0700_one env i (ms = []) m d w = (r, m1, d1, w1)"
    by (cases "dib0700_one env i (ms = []) m d w")
  have fits: "msg_fits 256 m" using Cons.prems(3) by simp
  note spec = dib0700_one_spec [OF one Cons.prems(2) fits]
  show ?case
  proof (cases "r < 0")
    case True
    then show ?thesis
      using Cons.prems(1) one spec by (auto simp: dib0700_msgs_Cons nth_Cons split: nat.splits)
  next
    case False
    then have r0: "r = 0" using spec by simp
    obtain ms1 where rest: "dib0700_msgs env (Suc i) ms d1 w1 = (rc, ms1, d', w')" "ms' = m1 # ms1"
      using Cons.prems(1) one False by (auto simp: dib0700_msgs_Cons split: prod.splits)
    have "on_bus (one_req i (ms = []) m d) = dib0700_frame i (ms = []) m"
      using one_req_frame(1) [OF Cons.prems(2) fits] spec r0 by blast
    then show ?thesis
      using Cons.IH [OF rest(1)] Cons.prems(3) rest(2) spec r0 tidy_trans [of w w1 w']
      by (fastforce simp: nth_Cons split: nat.splits)
  qed
qed (simp add: dib0700_msgs_Nil)

interpretation dib0700: i2c_master "dib0700_i2c_master_xfer env" dib0700_safe 256 for env
proof
  fix msgs s rc msgs' s'
  assume x: "dib0700_i2c_master_xfer env msgs s = Some (rc, msgs', s')"
    and fits: "\<forall>m \<in> set msgs. msg_fits 256 m"
  obtain r d' w' where run: "dib0700_msgs env 0 msgs (fst s) (snd s) = (r, msgs', d', w')"
    "rc = (if r < 0 then r else int (length msgs'))" "s' = (d', w')"
    using x by (auto simp: dib0700_i2c_master_xfer_def split: prod.splits)
  assume safe: "dib0700_safe s"
  then have "length (db_buf (fst s)) = 256" by (simp add: dib0700_safe_def DIB0700_BUF_LEN_def)
  note spec = dib0700_msgs_spec [OF run(1) this fits]
  have len: "length msgs' = length msgs" using spec by (metis length_map)
  show "rc < 0 \<or> rc = int (length msgs)" using run(2) len by simp
  show "map msg_shape msgs' = map msg_shape msgs" using spec by simp
  show "msgs' ! i = msgs ! i" if "i < length msgs" "\<not> is_read (msgs ! i)" for i
    using spec that by simp
  show "dib0700_safe s'"
    using spec safe run(3) tidy_safe by (auto simp: dib0700_safe_def wire_safe_def DIB0700_BUF_LEN_def)
qed simp

subsection \<open>The record walk\<close>

text \<open>A record of the firmware image, its bytes in the file, and the packet that ships it: the two
  address bytes change places.\<close>

record hex_rec =
  hx_addr1 :: u8
  hx_addr2 :: u8
  hx_type :: u8
  hx_data :: bytes
  hx_chk :: u8

definition hex_image :: "hex_rec \<Rightarrow> bytes" where
  "hex_image r = [word_of_nat (length (hx_data r)), hx_addr1 r, hx_addr2 r, hx_type r] @ hx_data r @ [hx_chk r]"

definition hex_packet :: "hex_rec \<Rightarrow> bytes" where
  "hex_packet r = [word_of_nat (length (hx_data r)), hx_addr2 r, hx_addr1 r, hx_type r] @ hx_data r @ [hx_chk r]"

text \<open>The packets of a stretch of wire: what each bulk write to the firmware endpoint sends.\<close>

fun fw_packets :: "wire \<Rightarrow> bytes list" where
  "fw_packets [] = []"
| "fw_packets (Bulk h ep buf len t # v) = (if ep = 0x01 then [take len buf] else []) @ fw_packets v"
| "fw_packets (_ # v) = fw_packets v"

lemma fw_packets_append [simp]: "fw_packets (u @ v) = fw_packets u @ fw_packets v"
  by (induction u rule: fw_packets.induct) simp_all

text \<open>The device takes every bulk packet whole.\<close>

definition accepts_bulk :: "host \<Rightarrow> bool" where
  "accepts_bulk env \<longleftrightarrow>
     (\<forall>w h ep buf len t. r_rc (env (w @ [Bulk h ep buf len t])) = 0 \<and>
        length (r_data (env (w @ [Bulk h ep buf len t]))) = len)"

lemma bulk_write_accepted:
  "accepts_bulk env \<Longrightarrow> len \<le> 1000 \<Longrightarrow> usbq_bulk_write env (Some u) ep buf len t w =
     (int len, w @ [Bulk (ud_handle u) ep buf len t])"
  by (simp add: usbq_bulk_write_def INT32_MAX_def ask_def accepts_bulk_def)

lemma addr_bytes:
  "ucast (drop_bit 8 (ucast a) OR drop_bit 8 (push_bit 8 (ucast b)) :: u16) = (b :: u8)"
  "ucast (ucast a OR push_bit 8 (ucast b) :: u16) = (a :: u8)"
  for a b :: u8
  by (rule bit_word_eqI, auto simp: bit_simps dest: bit_imp_le_length)+

text \<open>The packet buffer after a record, from its bytes in the file.\<close>

lemma packet_prefix:
  assumes "length pkt = 260" "length dat \<le> 255"
  shows "take (length dat + 5)
      ((memcpy_at (memcpy_at pkt 0 [a, b, c, d] 4) 4 (dat @ rest) (length dat))[4 + length dat := k])
    = [a, b, c, d] @ dat @ [k]"
proof -
  define q where "q = memcpy_at (memcpy_at pkt 0 [a, b, c, d] 4) 4 (dat @ rest) (length dat)"
  have q: "length q = 260" using assms by (simp add: q_def)
  have "take (length dat + 4) q = [a, b, c, d] @ dat"
    using assms take_memcpy_at [of 4 "memcpy_at pkt 0 [a, b, c, d] 4" "length dat" "dat @ rest"]
      take_memcpy_at [of 0 pkt 4 "[a, b, c, d]"]
    by (simp add: q_def add.commute [of _ 4])
  moreover have "take (length dat + 5) (q[4 + length dat := k])
      = take (length dat + 4) (q[4 + length dat := k]) @ [q[4 + length dat := k] ! (length dat + 4)]"
  proof -
    have e: "length dat + 5 = Suc (length dat + 4)" by simp
    show ?thesis
      unfolding e by (rule take_Suc_conv_app_nth) (use q assms(2) in simp)
  qed
  ultimately show ?thesis
    using q assms(2) by (simp add: add.commute [of 4] flip: q_def)
qed

lemma fw_records_step:
  assumes acc: "accepts_bulk env" and n: "length (hx_data r) \<le> 255" and pkt: "length pkt = 260"
    and pos: "length pre = pos" and fw: "fw = pre @ hex_image r @ post"
  shows "\<exists>pkt' q. length pkt' = 260 \<and> fw_packets [q] = [hex_packet r] \<and>
    dib0700_fw_records env d fw pos pkt w
      = dib0700_fw_records env d fw (pos + length (hex_image r)) pkt' (w @ [q])"
proof -
  let ?n = "length (hx_data r)"
  have len: "unat (word_of_nat ?n :: u8) = ?n" using n by (simp add: unat_of_nat take_bit_nat_eq_self)
  have idx: "fw ! pos = word_of_nat ?n" "fw ! Suc pos = hx_addr1 r" "fw ! Suc (Suc pos) = hx_addr2 r"
    "fw ! (pos + 3) = hx_type r" "fw ! (pos + ?n + 4) = hx_chk r"
    "drop (pos + 4) fw = hx_data r @ [hx_chk r] @ post"
    using pos by (auto simp: fw hex_image_def nth_append)
  define pkt' where "pkt' = (memcpy_at (memcpy_at pkt 0 [word_of_nat ?n, hx_addr2 r, hx_addr1 r, hx_type r] 4)
      4 (hx_data r @ [hx_chk r] @ post) ?n)[4 + ?n := hx_chk r]"
  define q where "q = Bulk (ud_handle (db_usb d)) 0x01 pkt' (?n + 5) DIB0700_CTRL_TIMEOUT_MS"
  have "length pkt' = 260" using pkt n by (simp add: pkt'_def)
  moreover have "take (?n + 5) pkt' = hex_packet r"
    unfolding pkt'_def hex_packet_def by (rule packet_prefix [OF pkt n])
  then have "fw_packets [q] = [hex_packet r]" by (simp add: q_def)
  moreover have "length fw = pos + ?n + 5 + length post" using pos by (simp add: fw hex_image_def)
  then have "dib0700_fw_records env d fw pos pkt w
      = dib0700_fw_records env d fw (pos + ?n + 4 + 1) pkt' (w @ [q])"
    by (subst dib0700_fw_records.simps)
       (use n in \<open>simp add: idx len addr_bytes bulk_write_accepted [OF acc] Let_def
          pkt'_def q_def\<close>)
  moreover have "pos + length (hex_image r) = pos + ?n + 4 + 1" by (simp add: hex_image_def)
  ultimately show ?thesis by metis
qed

lemma fw_records_all:
  assumes "accepts_bulk env" "\<forall>r \<in> set rs. length (hx_data r) \<le> 255"
  shows "length pkt = 260 \<Longrightarrow> length pre = pos \<Longrightarrow> fw = pre @ concat (map hex_image rs) \<Longrightarrow>
    \<exists>v. dib0700_fw_records env d fw pos pkt w = (0, w @ v) \<and> fw_packets v = map hex_packet rs"
  using assms(2)
proof (induction rs arbitrary: pre pos pkt w)
  case Nil
  then show ?case by (subst dib0700_fw_records.simps) simp
next
  case (Cons r rs)
  have fw: "fw = pre @ hex_image r @ concat (map hex_image rs)" using Cons.prems(3) by simp
  obtain pkt' q where s: "length pkt' = 260" "fw_packets [q] = [hex_packet r]"
    "dib0700_fw_records env d fw pos pkt w
      = dib0700_fw_records env d fw (pos + length (hex_image r)) pkt' (w @ [q])"
    using fw_records_step [OF assms(1) _ Cons.prems(1,2) fw] Cons.prems(4) by fastforce
  obtain v where "dib0700_fw_records env d fw (pos + length (hex_image r)) pkt' (w @ [q])
      = (0, (w @ [q]) @ v)" "fw_packets v = map hex_packet rs"
    using Cons.IH [of pkt' "pre @ hex_image r" "pos + length (hex_image r)" "w @ [q]"] s(1) Cons.prems fw
    by auto
  then show ?case
    using s fw_packets_append [of "[q]" v] by (auto intro!: exI [of _ "q # v"])
qed

subsection \<open>Properties\<close>

text \<open>C24: A successful i2c transfer over the dib0700 bridge is one control transfer per message, in
  order: a read carries start and stop flags, the low six bits of its length and the shifted address
  in its value word; a write sends the four-byte header and then exactly its payload. The first
  message always starts and only the last stops. Nothing else goes over the bus, on failure too no
  request reaches past the 256-byte scratch buffer, and write messages come back unchanged.\<close>

theorem dib0700_i2c_xfer_frames:
  assumes "dib0700_i2c_master_xfer env msgs (d, w) = Some (rc, msgs', d', w')"
    and "length (db_buf d) = DIB0700_BUF_LEN" "\<forall>m \<in> set msgs. msg_fits 256 m"
  shows "(rc < 0 \<or> rc = int (length msgs)) \<and> map msg_shape msgs' = map msg_shape msgs \<and>
    (\<forall>i < length msgs. \<not> is_read (msgs ! i) \<longrightarrow> msgs' ! i = msgs ! i) \<and>
    length (db_buf d') = DIB0700_BUF_LEN \<and>
    (\<exists>v. w' = w @ v \<and> (\<forall>q \<in> set v. req_in_bounds q) \<and>
       (0 \<le> rc \<longrightarrow> map on_bus v = dib0700_frames 0 msgs))"
proof -
  obtain r where run: "dib0700_msgs env 0 msgs d w = (r, msgs', d', w')"
    "rc = (if r < 0 then r else int (length msgs'))"
    using assms(1) by (auto simp: dib0700_i2c_master_xfer_def split: prod.splits)
  have "length (db_buf d) = 256" using assms(2) by (simp add: DIB0700_BUF_LEN_def)
  note spec = dib0700_msgs_spec [OF run(1) this assms(3)]
  have len: "length msgs' = length msgs" using spec by (metis length_map)
  obtain v where v: "w' = w @ v" "\<forall>q \<in> set v. req_in_bounds q" using spec by (auto simp: tidy_def)
  then have "0 \<le> rc \<longrightarrow> map on_bus v = dib0700_frames 0 msgs"
    using spec run(2) by (auto split: if_splits)
  then show ?thesis using spec run(2) len v by (auto simp: DIB0700_BUF_LEN_def)
qed

definition sample_dib :: dib0700_dev where
  "sample_dib = \<lparr>db_usb = \<lparr>ud_handle = 5, ud_vid = 0x045e, ud_pid = 0x02d5, ud_bus = 1, ud_addr = 7,
     ud_auto_detach = True\<rparr>, db_fw_version = 0x10201, db_use_new_i2c = True, db_channel_state = 2,
     db_buf = replicate 256 0\<rparr>"

text \<open>A host on which every transfer moves all its bytes.\<close>

definition full_host :: host where
  "full_host w =
     \<lparr>r_rc = (case last w of Control h bm req val idx buf len t \<Rightarrow> uint len | _ \<Rightarrow> 0),
      r_data = (case last w of Bulk h ep buf len t \<Rightarrow> replicate len 0 | _ \<Rightarrow> replicate 256 0),
      r_devs = [], r_handle = 1, r_fds = (3, 4)\<rparr>"

lemma dib0700_i2c_xfer_frames_witness:
  "\<exists>msgs' d' w'. dib0700_i2c_master_xfer full_host
      [\<lparr>m_addr = 0x18, m_flags = 0, m_len = 1, m_buf = [0xFF]\<rparr>] (sample_dib, []) = Some (1, msgs', d', w') \<and>
    map on_bus w' = [Some (0x13, 0, 0, 5, [0x13, 0x30, 0xC1, 0x10, 0xFF])]"
proof -
  let ?m = "\<lparr>m_addr = 0x18, m_flags = 0, m_len = 1, m_buf = [0xFF]\<rparr> :: i2c_msg"
  have nr: "\<not> is_read ?m" by (simp add: is_read_def)
  obtain rc msgs' d' w' where run: "dib0700_i2c_master_xfer full_host [?m] (sample_dib, []) = Some (rc, msgs', d', w')"
    by (cases "dib0700_i2c_master_xfer full_host [?m] (sample_dib, [])")
       (auto simp: dib0700_i2c_master_xfer_def split: prod.splits)
  have rc: "rc = 1"
    using run nr
    by (auto simp: dib0700_i2c_master_xfer_def dib0700_msgs_Cons dib0700_msgs_Nil dib0700_one_def
        dib0700_write_eq Let_def full_host_def dib0700_write_req_def split: if_splits)
  have "length (db_buf sample_dib) = DIB0700_BUF_LEN" "\<forall>m \<in> set [?m]. msg_fits 256 m"
    by (simp_all add: sample_dib_def DIB0700_BUF_LEN_def msg_fits_def)
  from dib0700_i2c_xfer_frames [OF run this] have "map on_bus w' = dib0700_frames 0 [?m]"
    using rc by auto
  then show ?thesis
    using run rc nr by (simp add: dib0700_frame_def i2c_ctl_def Let_def)
qed

text \<open>C25: Firmware upload ships the image exactly: for an image that is a sequence of records, on a device
  that takes every packet, the packets sent are the records in order, each whole, with its two address
  bytes exchanged, followed by the jump to 0x70000000 and the half second of settling.\<close>

theorem dib0700_firmware_upload:
  assumes "accepts_bulk env" "fs path = File_Bytes (concat (map hex_image rs))"
    and "\<forall>r \<in> set rs. length (hx_data r) \<le> 255"
  shows "\<exists>v. dib0700_download_firmware env fs (Some d) (Some path) w = (0, w @ v) \<and>
    fw_packets v = map hex_packet rs @ [jumpram_frame 0x70000000] \<and> last v = Sleep_us 500000"
proof -
  obtain v where v: "dib0700_fw_records env d (concat (map hex_image rs)) 0 (replicate 260 0) w = (0, w @ v)"
    "fw_packets v = map hex_packet rs"
    using fw_records_all [OF assms(1,3), of "replicate 260 0" "[]" 0 "concat (map hex_image rs)" d w] by auto
  let ?j = "Bulk (ud_handle (db_usb d)) 0x01 (jumpram_frame 0x70000000) 8 DIB0700_CTRL_TIMEOUT_MS"
  have "length (jumpram_frame 0x70000000) = 8" by (simp add: jumpram_frame_def)
  then have "fw_packets (v @ [?j, Sleep_us 500000]) = map hex_packet rs @ [jumpram_frame 0x70000000]"
    using v(2) by simp
  moreover have "dib0700_download_firmware env fs (Some d) (Some path) w
      = (0, w @ (v @ [?j, Sleep_us 500000]))"
    using v(1)
    by (simp add: dib0700_download_firmware_def slurp_file_def assms(2) dib0700_jumpram_def
        bulk_write_accepted [OF assms(1)])
  ultimately show ?thesis
    by (intro exI [of _ "v @ [?j, Sleep_us 500000]"]) simp
qed

lemma dib0700_firmware_upload_witness:
  "\<exists>v. dib0700_download_firmware full_host (\<lambda>p. File_Bytes [2, 0x10, 0x20, 0, 7, 8, 9]) (Some sample_dib)
       (Some ''fw'') [] = (0, v) \<and>
     fw_packets v = [[2, 0x20, 0x10, 0, 7, 8, 9], [8, 0, 0, 0, 0x70, 0, 0, 0]]"
proof -
  let ?r = "\<lparr>hx_addr1 = 0x10, hx_addr2 = 0x20, hx_type = 0, hx_data = [7, 8], hx_chk = 9\<rparr>"
  have "accepts_bulk full_host" by (simp add: accepts_bulk_def full_host_def)
  from dib0700_firmware_upload [OF this, of "\<lambda>p. File_Bytes [2, 0x10, 0x20, 0, 7, 8, 9]" "''fw''" "[?r]"
      sample_dib "[]"]
  show ?thesis by (auto simp: hex_image_def hex_packet_def jumpram_frame_def word_uint_eq_iff)
qed

text \<open>The streaming switch keeps the state of every other adapter: the bit of the adapter is set or
  cleared, the others stay, the state is the low nibble of the command sent, and an adapter number
  outside 0 to 7 is refused without touching the bridge.\<close>

theorem dib0700_streaming_state:
  assumes "length (db_buf d) = DIB0700_BUF_LEN"
    and "dib0700_streaming_ctrl env (Some d) i onoff disable_master w = (rc, Some d', w')"
  shows "if i < 0 \<or> 7 < i then rc = - EINVAL \<and> d' = d \<and> w' = w
    else rc < 0 \<and> db_channel_state d' = db_channel_state d \<or>
      (\<forall>j < 8. bit (db_channel_state d') j = (if j = nat i then onoff else bit (db_channel_state d) j)) \<and>
      (\<exists>buf w1. w' = w1 @ [Control (ud_handle (db_usb d)) 0x40 0x0F 0 0 buf 4 DIB0700_CTRL_TIMEOUT_MS] \<and>
         take 4 buf = [0x0F, if onoff then 0x10 else 0,
                       if disable_master then db_channel_state d' else 0x10 OR db_channel_state d', 0])"
proof (cases "i < 0 \<or> 7 < i")
  case True
  then show ?thesis using assms(2) by (auto simp: dib0700_streaming_ctrl_def)
next
  case False
  obtain r1 d1 w1 where pre: "(if onoff then set_usb_xfer_len env d 21 w else (0, d, w)) = (r1, d1, w1)"
    by (cases "if onoff then set_usb_xfer_len env d 21 w else (0, d, w)")
  have d1: "db_channel_state d1 = db_channel_state d" "db_usb d1 = db_usb d"
    "length (db_buf d1) = DIB0700_BUF_LEN"
    using pre assms(1)
    by (auto simp: set_usb_xfer_len_def Let_def DIB0700_BUF_LEN_def split: if_splits prod.splits)
  define b :: u8 where "b = push_bit (nat i) 1"
  define st where "st = (if onoff then db_channel_state d1 OR b else db_channel_state d1 AND NOT b)"
  define bs :: bytes where "bs = [0x0F, push_bit 4 (if onoff then 1 else 0),
      if disable_master then st else push_bit 4 1 OR st, 0x00]"
  define d2 where "d2 = set_buf bs (d1\<lparr>db_channel_state := st\<rparr>)"
  have tk: "take 4 (db_buf d2) = bs" unfolding d2_def by (rule take_set_buf) (simp add: bs_def)
  then have hd: "hd (db_buf d2) = 0x0F" by (cases "db_buf d2") (auto simp: bs_def)
  have res: "(rc, d', w') = (if r1 < 0 then (r1, d1, w1)
      else let (rc, w) = dib0700_ctrl_wr env (Some d2) (Some (db_buf d2)) 4 w1 in (rc, d2, w))"
    using assms(2) False pre
    by (auto simp: dib0700_streaming_ctrl_def Let_def d2_def bs_def st_def b_def split: if_splits prod.splits)
  show ?thesis
  proof (cases "r1 < 0")
    case True
    then show ?thesis using res d1 False by simp
  next
    case r1: False
    have bits: "bit st j = (if j = nat i then onoff else bit (db_channel_state d) j)" if "j < 8" for j
      using that False d1(1) by (auto simp: st_def b_def bit_simps)
    have "db_channel_state d' = st" "d' = d2"
      "w' = w1 @ [Control (ud_handle (db_usb d)) 0x40 0x0F 0 0 (db_buf d2) 4 DIB0700_CTRL_TIMEOUT_MS]"
      using res r1 hd d1(2)
      by (auto simp: dib0700_ctrl_wr_def usbq_control_def ask_def d2_def split: if_splits)
    then show ?thesis using False bits tk by (auto simp: bs_def)
  qed
qed

lemma dib0700_streaming_state_witness:
  "\<exists>rc d' w'. dib0700_streaming_ctrl full_host (Some sample_dib) 0 True True [] = (rc, Some d', w') \<and>
     rc = 0 \<and> bit (db_channel_state d') 0 \<and> bit (db_channel_state d') 1"
proof -
  obtain rc d' w' where run: "dib0700_streaming_ctrl full_host (Some sample_dib) 0 True True [] = (rc, Some d', w')"
  proof -
    let ?r = "dib0700_streaming_ctrl full_host (Some sample_dib) 0 True True []"
    have "fst (snd ?r) \<noteq> None"
      by (auto simp: dib0700_streaming_ctrl_def Let_def split: prod.splits if_splits)
    then show ?thesis using that by (cases ?r) auto
  qed
  have rc: "rc = 0"
    using run
    by (auto simp: dib0700_streaming_ctrl_def set_usb_xfer_len_def dib0700_ctrl_wr_def usbq_control_def
        ask_def full_host_def Let_def sample_dib_def split: if_splits)
  have b: "bit (db_channel_state sample_dib) 1" by (simp add: sample_dib_def bit_numeral_rec)
  have "length (db_buf sample_dib) = DIB0700_BUF_LEN" by (simp add: sample_dib_def DIB0700_BUF_LEN_def)
  from dib0700_streaming_state [OF this run] have
    bits: "\<forall>j < 8. bit (db_channel_state d') j = (if j = 0 then True else bit (db_channel_state sample_dib) j)"
    using rc by auto
  have "bit (db_channel_state d') 0" "bit (db_channel_state d') 1"
    using bits [rule_format, of 0] bits [rule_format, of 1] b by simp_all
  then show ?thesis using run rc by blast
qed

text \<open>C29: A read has no bound on its length: a read message longer than the scratch buffer makes the
  bridge hand libusb a length past the end of that buffer.\<close>

theorem dib0700_read_past_buffer:
  assumes "length (db_buf d) = DIB0700_BUF_LEN" "is_read m" "256 < unat (m_len m)"
  shows "\<exists>rc msgs' d' w' q. dib0700_i2c_master_xfer env [m] (d, w) = Some (rc, msgs', d', w') \<and>
    q \<in> set w' \<and> \<not> req_in_bounds q"
proof -
  let ?q = "dib0700_read_req d m True True"
  have "\<not> req_in_bounds ?q" using assms by (simp add: dib0700_read_req_def DIB0700_BUF_LEN_def)
  moreover have "\<exists>rc msgs' d' w'. dib0700_i2c_master_xfer env [m] (d, w) = Some (rc, msgs', d', w') \<and>
      ?q \<in> set w'"
    using assms(2)
    by (simp add: dib0700_i2c_master_xfer_def dib0700_msgs_Cons dib0700_msgs_Nil dib0700_one_def
        dib0700_read_eq Let_def)
  ultimately show ?thesis by blast
qed

lemma dib0700_read_past_buffer_witness:
  "\<exists>rc msgs' d' w' q. dib0700_i2c_master_xfer full_host
      [\<lparr>m_addr = 0x18, m_flags = 1, m_len = 300, m_buf = replicate 300 0\<rparr>] (sample_dib, [])
        = Some (rc, msgs', d', w') \<and> q \<in> set w' \<and> \<not> req_in_bounds q"
  by (rule dib0700_read_past_buffer)
     (simp_all add: sample_dib_def DIB0700_BUF_LEN_def is_read_def I2C_M_RD_def)

subsection \<open>Register maps over the bridge\<close>

text \<open>A chip driver's register update through the dib0700 bridge: \<open>regmap_update_bits\<close> on a client of
  the bridge's adapter returns 0 or an error, keeps every USB request within its buffer, and on success
  has read the register over the bus and either found the masked bits as wanted and written nothing,
  or written back a value with the masked bits as wanted and all others as read.\<close>

theorem regmap_update_on_dib0700:
  assumes "cl_adapter (rm_client m) = Some (dib0700_i2c_master_xfer env)" "dib0700_safe s"
    and "regmap_update_bits (Some m) reg msk val s = Some (ret, s')"
  shows "ret \<le> 0 \<and> dib0700_safe s' \<and>
    (if ret = 0 then
       \<exists>cur s1. regmap_read (Some m) reg 0 s = Some (0, cur, s1) \<and>
         (if cur AND msk = val AND msk then s' = s1
          else \<exists>new. new AND msk = val AND msk \<and> new AND NOT msk = cur AND NOT msk \<and>
            regmap_write (Some m) reg new s1 = Some (0, s'))
     else True)"
  using dib0700.regmap_update_bits_spec(1,2) [OF assms(1,3)] dib0700.regmap_update_bits_spec(3) [OF assms(1,3)] assms(2)
  by simp

definition mn88472_map :: "(dib0700_dev \<times> wire, unit) regmap" where
  "mn88472_map =
     \<lparr>rm_client = \<lparr>cl_adapter = Some (dib0700_i2c_master_xfer full_host), cl_addr = 0x18, cl_flags = 0,
        cl_name = ''mn88472'', cl_dev_name = ''mn88472'', cl_platform_data = None, cl_driver = Some 1,
        cl_device_id = None\<rparr>,
      rm_reg_bits = 8, rm_val_bits = 8\<rparr>"

lemma mn88472_write: "\<exists>s'. regmap_write (Some mn88472_map) reg v s = Some (0, s')"
  by (simp add: regmap_write_def mn88472_map_def i2c_transfer_def dib0700_i2c_master_xfer_def case_prod_unfold
      dib0700_msgs_Cons dib0700_msgs_Nil dib0700_one_def dib0700_write_eq Let_def full_host_def
      dib0700_write_req_def write_msg_def is_read_def I2C_M_RD_def)

lemma mn88472_read: "\<exists>cur s'. regmap_read (Some mn88472_map) reg v s = Some (0, cur, s')"
  by (simp add: regmap_read_def mn88472_map_def i2c_transfer_def dib0700_i2c_master_xfer_def case_prod_unfold
      dib0700_msgs_Cons dib0700_msgs_Nil dib0700_one_def dib0700_read_eq dib0700_write_eq Let_def full_host_def
      dib0700_write_req_def dib0700_read_req_def read_msg_def write_msg_def is_read_def I2C_M_RD_def)

lemma regmap_update_on_dib0700_witness:
  "\<exists>s'. regmap_update_bits (Some mn88472_map) 5 1 1 (sample_dib, []) = Some (0, s') \<and> dib0700_safe s'"
proof -
  have a: "cl_adapter (rm_client mn88472_map) = Some (dib0700_i2c_master_xfer full_host)"
    by (simp add: mn88472_map_def)
  obtain s' where r: "regmap_update_bits (Some mn88472_map) 5 1 1 (sample_dib, []) = Some (0, s')"
  proof -
    obtain cur s1 where c: "regmap_read (Some mn88472_map) 5 0 (sample_dib, []) = Some (0, cur, s1)"
      using mn88472_read by blast
    obtain s2 where "regmap_write (Some mn88472_map) 5 ((cur AND NOT 1) OR (1 AND 1)) s1 = Some (0, s2)"
      using mn88472_write by blast
    then show thesis using c that [of "if cur AND - 2 OR 1 = cur then s1 else s2"]
      by (simp add: regmap_update_bits_def Let_def)
  qed
  have "dib0700_safe (sample_dib, [])"
    by (simp add: dib0700_safe_def sample_dib_def DIB0700_BUF_LEN_def wire_safe_def)
  from regmap_update_on_dib0700 [OF a this r] show ?thesis using r by blast
qed

end
