(* ===== verification/Dvbsky_Bridge.thy ===== *)
theory Dvbsky_Bridge
  imports Usb_Wire I2c_Core
begin

text \<open>
  The dvbsky bridge (\<open>bridges/dvbsky/bridge/src/dvbsky_core.c\<close>, \<open>dvbsky_i2c.c\<close>, \<open>dvbsky_stream.c\<close>):
  command frames over a pair of bulk endpoints, the i2c master with its three message shapes, and the
  stream switch. A frame built in a stack buffer is the list of the bytes that are sent.
\<close>

record dvbsky_dev =
  sk_usb :: usbq_dev
  sk_obuf :: bytes    \<comment> \<open>64 bytes\<close>
  sk_ibuf :: bytes    \<comment> \<open>64 bytes\<close>

definition DVBSKY_BUF_LEN :: nat where "DVBSKY_BUF_LEN = 64"
definition DVBSKY_I2C_MAX_LEN :: nat where "DVBSKY_I2C_MAX_LEN = 60"
definition DVBSKY_BULK_TIMEOUT_MS :: u32 where "DVBSKY_BULK_TIMEOUT_MS = 2000"

definition dvbsky_open :: "host \<Rightarrow> usbq_dev option \<Rightarrow> wire \<Rightarrow> dvbsky_dev option \<times> wire" where
  "dvbsky_open env usb w =
     (case usb of
        None \<Rightarrow> (None, w)
      | Some u \<Rightarrow>
          let (r, w) = ask env Alloc w
          in (if r_rc r = 0 then None
              else Some \<lparr>sk_usb = u, sk_obuf = replicate DVBSKY_BUF_LEN 0,
                         sk_ibuf = replicate DVBSKY_BUF_LEN 0\<rparr>, w))"

definition dvbsky_usb_handle :: "dvbsky_dev option \<Rightarrow> usbq_dev option" where
  "dvbsky_usb_handle dev = (case dev of None \<Rightarrow> None | Some d \<Rightarrow> Some (sk_usb d))"

subsection \<open>Command and response\<close>

definition dvbsky_bulk_rw_locked :: "host \<Rightarrow> dvbsky_dev \<Rightarrow> bytes \<Rightarrow> u16 \<Rightarrow> bytes \<Rightarrow> u16 \<Rightarrow> wire
    \<Rightarrow> int \<times> bytes \<times> dvbsky_dev \<times> wire" where
  "dvbsky_bulk_rw_locked env d wbuf wlen rbuf rlen w =
     (if unat wlen > DVBSKY_BUF_LEN \<or> unat rlen > DVBSKY_BUF_LEN then (- EINVAL, rbuf, d, w)
      else
        let (rc, d, w) =
              (if wlen > 0 then
                 let d = d\<lparr>sk_obuf := memcpy_at (sk_obuf d) 0 wbuf (unat wlen)\<rparr>;
                     (n, w) = usbq_bulk_write env (Some (sk_usb d)) 0x01 (sk_obuf d) (unat wlen)
                                DVBSKY_BULK_TIMEOUT_MS w
                 in if n < 0 then (n, d, w) else if word_of_int n \<noteq> wlen then (- EIO, d, w) else (0, d, w)
               else (0, d, w))
        in if rc < 0 then (rc, rbuf, d, w)
           else if rlen > 0 then
             let (n, ibuf, w) = usbq_bulk_read env (Some (sk_usb d)) 0x81 (sk_ibuf d) (unat rlen)
                                  DVBSKY_BULK_TIMEOUT_MS w;
                 d = d\<lparr>sk_ibuf := ibuf\<rparr>
             in if n < 0 then (n, rbuf, d, w)
                else if word_of_int n < rlen then (- EIO, rbuf, d, w)
                else (0, memcpy_at rbuf 0 ibuf (unat rlen), d, w)
           else (0, rbuf, d, w))"

definition dvbsky_gpio_ctrl :: "host \<Rightarrow> dvbsky_dev option \<Rightarrow> u8 \<Rightarrow> u8 \<Rightarrow> wire
    \<Rightarrow> int \<times> dvbsky_dev option \<times> wire" where
  "dvbsky_gpio_ctrl env dev gport val w =
     (case dev of
        None \<Rightarrow> (- EINVAL, None, w)
      | Some d \<Rightarrow>
          let (rc, _, d, w) = dvbsky_bulk_rw_locked env d [0x0e, gport, val] 3 [0] 1 w in (rc, Some d, w))"

subsection \<open>The i2c master\<close>

definition dvbsky_i2c_one_write :: "host \<Rightarrow> dvbsky_dev \<Rightarrow> i2c_msg \<Rightarrow> wire \<Rightarrow> int \<times> dvbsky_dev \<times> wire" where
  "dvbsky_i2c_one_write env d m w =
     (if unat (m_len m) > DVBSKY_I2C_MAX_LEN then (- EOPNOTSUPP, d, w)
      else
        let obuf = [0x08, ucast (m_addr m), ucast (m_len m)] @ take (unat (m_len m)) (m_buf m);
            (rc, _, d, w) = dvbsky_bulk_rw_locked env d obuf (m_len m + 3) [0] 1 w
        in (rc, d, w))"

definition dvbsky_i2c_one_read :: "host \<Rightarrow> dvbsky_dev \<Rightarrow> i2c_msg \<Rightarrow> wire
    \<Rightarrow> int \<times> i2c_msg \<times> dvbsky_dev \<times> wire" where
  "dvbsky_i2c_one_read env d m w =
     (if unat (m_len m) > DVBSKY_I2C_MAX_LEN then (- EOPNOTSUPP, m, d, w)
      else
        let obuf = [0x09, 0, ucast (m_len m), ucast (m_addr m)];
            (rc, rbuf, d, w) = dvbsky_bulk_rw_locked env d obuf 4 (replicate DVBSKY_BUF_LEN 0)
                                 (m_len m + 1) w
        in if rc < 0 then (rc, m, d, w)
           else (0, m\<lparr>m_buf := memcpy_at (m_buf m) 0 (drop 1 rbuf) (unat (m_len m))\<rparr>, d, w))"

definition dvbsky_i2c_write_then_read :: "host \<Rightarrow> dvbsky_dev \<Rightarrow> i2c_msg \<Rightarrow> i2c_msg \<Rightarrow> wire
    \<Rightarrow> int \<times> i2c_msg \<times> dvbsky_dev \<times> wire" where
  "dvbsky_i2c_write_then_read env d wm rm w =
     (if unat (m_len wm) > DVBSKY_I2C_MAX_LEN \<or> unat (m_len rm) > DVBSKY_I2C_MAX_LEN
      then (- EOPNOTSUPP, rm, d, w)
      else
        let obuf = [0x09, ucast (m_len wm), ucast (m_len rm), ucast (m_addr wm)]
                   @ take (unat (m_len wm)) (m_buf wm);
            (rc, rbuf, d, w) = dvbsky_bulk_rw_locked env d obuf (m_len wm + 4)
                                 (replicate DVBSKY_BUF_LEN 0) (m_len rm + 1) w
        in if rc < 0 then (rc, rm, d, w)
           else (0, rm\<lparr>m_buf := memcpy_at (m_buf rm) 0 (drop 1 rbuf) (unat (m_len rm))\<rparr>, d, w))"

definition dvbsky_i2c_master_xfer :: "host \<Rightarrow> (dvbsky_dev \<times> wire) master" where
  "dvbsky_i2c_master_xfer env msgs s =
     (case msgs of
        [m] \<Rightarrow>
          if is_read m then
            let (rc, m, d, w) = dvbsky_i2c_one_read env (fst s) m (snd s)
            in Some (if rc < 0 then rc else 1, [m], (d, w))
          else
            let (rc, d, w) = dvbsky_i2c_one_write env (fst s) m (snd s)
            in Some (if rc < 0 then rc else 1, [m], (d, w))
      | [m0, m1] \<Rightarrow>
          if is_read m0 \<or> \<not> is_read m1 then Some (- EOPNOTSUPP, msgs, s)
          else
            let (rc, m1, d, w) = dvbsky_i2c_write_then_read env (fst s) m0 m1 (snd s)
            in Some (if rc < 0 then rc else 2, [m0, m1], (d, w))
      | _ \<Rightarrow> Some (- EOPNOTSUPP, msgs, s))"

definition dvbsky_get_i2c_adapter :: "host \<Rightarrow> dvbsky_dev option \<Rightarrow> (dvbsky_dev \<times> wire) master option"
where
  "dvbsky_get_i2c_adapter env dev = (if dev = None then None else Some (dvbsky_i2c_master_xfer env))"

subsection \<open>The stream switch\<close>

definition dvbsky_stream_frame :: "host \<Rightarrow> dvbsky_dev \<Rightarrow> bytes \<Rightarrow> wire \<Rightarrow> int \<times> wire" where
  "dvbsky_stream_frame env d cmd w =
     (let (n, w) = usbq_bulk_write env (Some (sk_usb d)) 0x01 cmd 3 DVBSKY_BULK_TIMEOUT_MS w
      in (if n < 0 then n else if n \<noteq> 3 then - EIO else 0, w))"

definition dvbsky_stream_ctrl :: "host \<Rightarrow> dvbsky_dev option \<Rightarrow> bool \<Rightarrow> wire \<Rightarrow> int \<times> wire" where
  "dvbsky_stream_ctrl env dev onoff w =
     (case dev of
        None \<Rightarrow> (- EINVAL, w)
      | Some d \<Rightarrow>
          let (rc, w) = dvbsky_stream_frame env d [0x37, 0, 0] w
          in if rc < 0 then (rc, w)
             else if onoff then dvbsky_stream_frame env d [0x36, 3, 0] (msleep 20 w)
             else (rc, w))"

subsection \<open>The bridge meets the contract\<close>

definition dvbsky_ok :: "dvbsky_dev \<Rightarrow> bool" where
  "dvbsky_ok d \<longleftrightarrow> length (sk_obuf d) = DVBSKY_BUF_LEN \<and> length (sk_ibuf d) = DVBSKY_BUF_LEN"

definition dvbsky_safe :: "dvbsky_dev \<times> wire \<Rightarrow> bool" where
  "dvbsky_safe s \<longleftrightarrow> dvbsky_ok (fst s) \<and> wire_safe s"

text \<open>What goes over the bulk pipes: the bytes of a command, the length of a response.\<close>

fun on_pipe :: "usb_req \<Rightarrow> (bytes + nat) option" where
  "on_pipe (Bulk h ep buf len t) = Some (if bit ep 7 then Inr len else Inl (take len buf))"
| "on_pipe _ = None"

lemma bulk_write_step:
  assumes "len \<le> 64"
  shows "\<exists>n. usbq_bulk_write env (Some u) ep buf len t w = (n, w @ [Bulk (ud_handle u) ep buf len t])"
  using assms by (simp add: usbq_bulk_write_def INT32_MAX_def ask_def)

lemma bulk_read_step:
  assumes "len \<le> 64"
  shows "\<exists>n buf'. usbq_bulk_read env (Some u) ep buf len t w
      = (n, buf', w @ [Bulk (ud_handle u) ep buf len t]) \<and> length buf' = length buf"
  using assms by (simp add: usbq_bulk_read_def INT32_MAX_def ask_def Let_def)

lemma ep_bits [simp]: "\<not> bit (0x01 :: u8) 7" "bit (0x81 :: u8) 7"
  by (simp_all add: bit_numeral_rec bit_1_iff)

text \<open>A command with a response: the two transfers, when both succeed.\<close>

lemma dvbsky_rw_spec:
  assumes run: "dvbsky_bulk_rw_locked env d wbuf wlen rbuf rlen w = (rc, rbuf', d', w')"
    and d: "dvbsky_ok d" and len: "0 < wlen" "0 < rlen" "unat wlen \<le> length wbuf" "unat rlen \<le> length rbuf"
      "unat wlen \<le> 64" "unat rlen \<le> 64"
  shows "rc \<le> 0 \<and> dvbsky_ok d' \<and> sk_usb d' = sk_usb d \<and> length rbuf' = length rbuf \<and> tidy w w' \<and>
    (rc = 0 \<longrightarrow> take (unat rlen) rbuf' = take (unat rlen) (sk_ibuf d')) \<and>
    (rc = 0 \<longrightarrow> (\<exists>v. w' = w @ v \<and> map on_pipe v = [Some (Inl (take (unat wlen) wbuf)), Some (Inr (unat rlen))]))"
proof -
  define d1 where "d1 = d\<lparr>sk_obuf := memcpy_at (sk_obuf d) 0 wbuf (unat wlen)\<rparr>"
  have d1: "dvbsky_ok d1" "sk_usb d1 = sk_usb d" "sk_ibuf d1 = sk_ibuf d"
    using d len by (simp_all add: d1_def dvbsky_ok_def DVBSKY_BUF_LEN_def)
  define q1 where "q1 = Bulk (ud_handle (sk_usb d)) 0x01 (sk_obuf d1) (unat wlen) DVBSKY_BULK_TIMEOUT_MS"
  define q2 where "q2 = Bulk (ud_handle (sk_usb d)) 0x81 (sk_ibuf d) (unat rlen) DVBSKY_BULK_TIMEOUT_MS"
  have q: "req_in_bounds q1" "req_in_bounds q2" "on_pipe q2 = Some (Inr (unat rlen))"
    "on_pipe q1 = Some (Inl (take (unat wlen) wbuf))"
    using d1 d len by (simp_all add: q1_def q2_def dvbsky_ok_def DVBSKY_BUF_LEN_def d1_def memcpy_at_def)
  obtain n1 where n1: "usbq_bulk_write env (Some (sk_usb d1)) 0x01 (sk_obuf d1) (unat wlen)
      DVBSKY_BULK_TIMEOUT_MS w = (n1, w @ [q1])"
    using bulk_write_step [OF len(5)] d1(2) by (metis q1_def)
  obtain n2 b2 where n2: "usbq_bulk_read env (Some (sk_usb d1)) 0x81 (sk_ibuf d1) (unat rlen)
      DVBSKY_BULK_TIMEOUT_MS (w @ [q1]) = (n2, b2, (w @ [q1]) @ [q2])" "length b2 = length (sk_ibuf d1)"
    using bulk_read_step [OF len(6), where env = env and u = "sk_usb d1" and ep = "0x81"
        and buf = "sk_ibuf d1" and t = DVBSKY_BULK_TIMEOUT_MS and w = "w @ [q1]"]
      d1(2,3) by (auto simp: q2_def)
  have t: "tidy w (w @ [q1])" "tidy w (w @ [q1, q2])" using q by (simp_all add: tidy_def)
  have run1: "(rc, rbuf', d', w') =
      (if n1 < 0 then (n1, rbuf, d1, w @ [q1])
       else if word_of_int n1 \<noteq> wlen then (- EIO, rbuf, d1, w @ [q1])
       else if n2 < 0 then (n2, rbuf, d1\<lparr>sk_ibuf := b2\<rparr>, w @ [q1, q2])
       else if word_of_int n2 < rlen then (- EIO, rbuf, d1\<lparr>sk_ibuf := b2\<rparr>, w @ [q1, q2])
       else (0, memcpy_at rbuf 0 b2 (unat rlen), d1\<lparr>sk_ibuf := b2\<rparr>, w @ [q1, q2]))"
    using run n1 n2(1) len
    by (auto simp: dvbsky_bulk_rw_locked_def DVBSKY_BUF_LEN_def Let_def simp flip: d1_def split: if_splits)
  have "dvbsky_ok (d1\<lparr>sk_ibuf := b2\<rparr>)" "length b2 = 64"
    using d1(1) n2(2) by (simp_all add: dvbsky_ok_def DVBSKY_BUF_LEN_def)
  then show ?thesis
    using run1 d1 t q len by (auto simp: memcpy_at_start split: if_splits)
qed

text \<open>The transfers of a supported message list.\<close>

fun dvbsky_frames :: "i2c_msg list \<Rightarrow> (bytes + nat) option list" where
  "dvbsky_frames [m] =
     (if is_read m
      then [Some (Inl [0x09, 0, ucast (m_len m), ucast (m_addr m)]), Some (Inr (unat (m_len m) + 1))]
      else [Some (Inl ([0x08, ucast (m_addr m), ucast (m_len m)] @ take (unat (m_len m)) (m_buf m))),
            Some (Inr 1)])"
| "dvbsky_frames [m0, m1] =
     [Some (Inl ([0x09, ucast (m_len m0), ucast (m_len m1), ucast (m_addr m0)]
              @ take (unat (m_len m0)) (m_buf m0))), Some (Inr (unat (m_len m1) + 1))]"
| "dvbsky_frames _ = []"

fun dvbsky_supported :: "i2c_msg list \<Rightarrow> bool" where
  "dvbsky_supported [m] \<longleftrightarrow> unat (m_len m) \<le> 60"
| "dvbsky_supported [m0, m1] \<longleftrightarrow>
     \<not> is_read m0 \<and> is_read m1 \<and> unat (m_len m0) \<le> 60 \<and> unat (m_len m1) \<le> 60"
| "dvbsky_supported _ \<longleftrightarrow> False"

lemma small_sum:
  "unat (l :: u16) \<le> 60 \<Longrightarrow> k \<le> 4 \<Longrightarrow> unat (l + word_of_nat k) = unat l + k"
  by (simp add: unat_word_ariths unat_of_nat take_bit_nat_eq_self)

lemma small_sums:
  assumes "unat (l :: u16) \<le> 60"
  shows "unat (l + 1) = unat l + 1" "unat (l + 3) = unat l + 3" "unat (l + 4) = unat l + 4"
  using small_sum [OF assms, of 1] small_sum [OF assms, of 3] small_sum [OF assms, of 4] by simp_all

lemma small_pos:
  assumes "unat (l :: u16) \<le> 60"
  shows "0 < l + 1" "0 < l + 3" "0 < l + 4"
  using small_sums [OF assms] by (simp_all add: word_less_nat_alt)

lemma take_drop_resp:
  "take (n + 1) r = take (n + 1) b \<Longrightarrow> take n (drop 1 r) = take n (drop 1 b)"
  by (simp add: take_drop add.commute)

text \<open>What all three message shapes guarantee: return code, device, wire, frames.\<close>

definition dvbsky_ran :: "dvbsky_dev \<Rightarrow> wire \<Rightarrow> int \<Rightarrow> dvbsky_dev \<Rightarrow> wire \<Rightarrow> (bytes + nat) option list \<Rightarrow> bool"
where
  "dvbsky_ran d w rc d' w' fr \<longleftrightarrow>
     rc \<le> 0 \<and> dvbsky_ok d' \<and> sk_usb d' = sk_usb d \<and> tidy w w' \<and>
     (rc = 0 \<longrightarrow> (\<exists>v. w' = w @ v \<and> map on_pipe v = fr))"

lemma one_write_spec:
  assumes run: "dvbsky_i2c_one_write env d m w = (rc, d', w')"
    and "dvbsky_ok d" "unat (m_len m) \<le> 60" "unat (m_len m) \<le> length (m_buf m)" "\<not> is_read m"
  shows "dvbsky_ran d w rc d' w' (dvbsky_frames [m])"
proof -
  let ?o = "[0x08, ucast (m_addr m), ucast (m_len m)] @ take (unat (m_len m)) (m_buf m) :: bytes"
  obtain rb where rw: "dvbsky_bulk_rw_locked env d ?o (m_len m + 3) [0] 1 w = (rc, rb, d', w')"
    using run assms(3) by (auto simp: dvbsky_i2c_one_write_def DVBSKY_I2C_MAX_LEN_def Let_def split: prod.splits)
  show ?thesis
    using dvbsky_rw_spec [OF rw assms(2)] small_sums [OF assms(3)] small_pos [OF assms(3)] assms(3-5)
    by (simp add: dvbsky_ran_def)
qed

lemma one_read_spec:
  assumes run: "dvbsky_i2c_one_read env d m w = (rc, m', d', w')"
    and "dvbsky_ok d" "unat (m_len m) \<le> 60" "unat (m_len m) \<le> length (m_buf m)" "is_read m"
  shows "dvbsky_ran d w rc d' w' (dvbsky_frames [m]) \<and> msg_shape m' = msg_shape m \<and>
    (rc = 0 \<longrightarrow> take (unat (m_len m)) (m_buf m') = take (unat (m_len m)) (drop 1 (sk_ibuf d')))"
proof -
  obtain rb r where rw: "dvbsky_bulk_rw_locked env d [0x09, 0, ucast (m_len m), ucast (m_addr m)] 4
      (replicate DVBSKY_BUF_LEN 0) (m_len m + 1) w = (r, rb, d', w')"
    and res: "rc = (if r < 0 then r else 0)"
      "m' = (if r < 0 then m else m\<lparr>m_buf := memcpy_at (m_buf m) 0 (drop 1 rb) (unat (m_len m))\<rparr>)"
    using run assms(3)
    by (auto simp: dvbsky_i2c_one_read_def DVBSKY_I2C_MAX_LEN_def Let_def split: prod.splits if_splits)
  note spec = dvbsky_rw_spec [OF rw assms(2)]
  show ?thesis
    using spec small_sums [OF assms(3)] small_pos [OF assms(3)] assms(3-5) res
      take_drop_resp [of "unat (m_len m)" rb "sk_ibuf d'"]
    by (simp add: dvbsky_ran_def dvbsky_ok_def DVBSKY_BUF_LEN_def msg_shape_def memcpy_at_start)
qed

lemma write_then_read_spec:
  assumes run: "dvbsky_i2c_write_then_read env d wm m w = (rc, m', d', w')"
    and "dvbsky_ok d" "unat (m_len m) \<le> 60" "unat (m_len m) \<le> length (m_buf m)"
      "unat (m_len wm) \<le> 60" "unat (m_len wm) \<le> length (m_buf wm)"
  shows "dvbsky_ran d w rc d' w' (dvbsky_frames [wm, m]) \<and> msg_shape m' = msg_shape m \<and>
    (rc = 0 \<longrightarrow> take (unat (m_len m)) (m_buf m') = take (unat (m_len m)) (drop 1 (sk_ibuf d')))"
proof -
  let ?o = "[0x09, ucast (m_len wm), ucast (m_len m), ucast (m_addr wm)]
      @ take (unat (m_len wm)) (m_buf wm) :: bytes"
  obtain rb r where rw: "dvbsky_bulk_rw_locked env d ?o (m_len wm + 4)
      (replicate DVBSKY_BUF_LEN 0) (m_len m + 1) w = (r, rb, d', w')"
    and res: "rc = (if r < 0 then r else 0)"
      "m' = (if r < 0 then m else m\<lparr>m_buf := memcpy_at (m_buf m) 0 (drop 1 rb) (unat (m_len m))\<rparr>)"
    using run assms(3,5)
    by (auto simp: dvbsky_i2c_write_then_read_def DVBSKY_I2C_MAX_LEN_def Let_def split: prod.splits if_splits)
  note spec = dvbsky_rw_spec [OF rw assms(2)]
  show ?thesis
    using spec small_sums [OF assms(3)] small_pos [OF assms(3)] small_sums [OF assms(5)]
      small_pos [OF assms(5)] assms(3-6) res take_drop_resp [of "unat (m_len m)" rb "sk_ibuf d'"]
    by (simp add: dvbsky_ran_def dvbsky_ok_def DVBSKY_BUF_LEN_def msg_shape_def memcpy_at_start)
qed

text \<open>A list of a supported shape runs as its frames; any other is refused without traffic.\<close>

lemma master_xfer_unsupported:
  assumes "\<not> dvbsky_supported msgs"
  shows "dvbsky_i2c_master_xfer env msgs s = Some (- EOPNOTSUPP, msgs, s)"
proof (cases msgs rule: dvbsky_supported.cases)
  case (1 m)
  then show ?thesis
    using assms by (simp add: dvbsky_i2c_master_xfer_def dvbsky_i2c_one_read_def dvbsky_i2c_one_write_def
        DVBSKY_I2C_MAX_LEN_def)
next
  case (2 m0 m1)
  then show ?thesis
    using assms by (simp add: dvbsky_i2c_master_xfer_def dvbsky_i2c_write_then_read_def
        DVBSKY_I2C_MAX_LEN_def not_less [symmetric]) blast
qed (simp_all add: dvbsky_i2c_master_xfer_def)

lemma master_xfer_supported:
  assumes run: "dvbsky_i2c_master_xfer env msgs (d, w) = Some (rc, msgs', d', w')"
    and sup: "dvbsky_supported msgs" and d: "dvbsky_ok d" and fits: "\<forall>m \<in> set msgs. msg_fits 65535 m"
  shows "\<exists>r. rc = (if r < 0 then r else int (length msgs)) \<and> dvbsky_ran d w r d' w' (dvbsky_frames msgs) \<and>
    map msg_shape msgs' = map msg_shape msgs \<and>
    (\<forall>i < length msgs. \<not> is_read (msgs ! i) \<longrightarrow> msgs' ! i = msgs ! i) \<and>
    (r = 0 \<and> is_read (last msgs) \<longrightarrow> take (unat (m_len (last msgs))) (m_buf (last msgs'))
       = take (unat (m_len (last msgs))) (drop 1 (sk_ibuf d')))"
proof (cases msgs rule: dvbsky_supported.cases)
  case (1 m)
  have m: "unat (m_len m) \<le> 60" "unat (m_len m) \<le> length (m_buf m)"
    using 1 sup fits by (simp_all add: msg_fits_def)
  show ?thesis
  proof (cases "is_read m")
    case True
    obtain r m' d1 w1 where one: "dvbsky_i2c_one_read env d m w = (r, m', d1, w1)"
      by (cases "dvbsky_i2c_one_read env d m w")
    then have eq: "rc = (if r < 0 then r else 1)" "msgs' = [m']" "d' = d1" "w' = w1"
      using run 1 True by (simp_all add: dvbsky_i2c_master_xfer_def)
    show ?thesis
      using one_read_spec [OF one d m True] 1 True by (intro exI [of _ r]) (simp add: eq)
  next
    case False
    obtain r d1 w1 where one: "dvbsky_i2c_one_write env d m w = (r, d1, w1)"
      by (cases "dvbsky_i2c_one_write env d m w")
    then have eq: "rc = (if r < 0 then r else 1)" "msgs' = [m]" "d' = d1" "w' = w1"
      using run 1 False by (simp_all add: dvbsky_i2c_master_xfer_def)
    show ?thesis
      using one_write_spec [OF one d m False] 1 False by (intro exI [of _ r]) (simp add: eq)
  qed
next
  case (2 m0 m1)
  have m: "unat (m_len m1) \<le> 60" "unat (m_len m1) \<le> length (m_buf m1)"
    "unat (m_len m0) \<le> 60" "unat (m_len m0) \<le> length (m_buf m0)" "\<not> is_read m0" "is_read m1"
    using 2 sup fits by (simp_all add: msg_fits_def)
  obtain r m' d1 w1 where one: "dvbsky_i2c_write_then_read env d m0 m1 w = (r, m', d1, w1)"
    by (cases "dvbsky_i2c_write_then_read env d m0 m1 w")
  then have eq: "rc = (if r < 0 then r else 2)" "msgs' = [m0, m']" "d' = d1" "w' = w1"
    using run 2 m(5,6) by (simp_all add: dvbsky_i2c_master_xfer_def)
  have "[m0, m'] ! i = [m0, m1] ! i" if "i < 2" "\<not> is_read ([m0, m1] ! i)" for i
    using that m(6) by (cases i) auto
  then show ?thesis
    using write_then_read_spec [OF one d m(1-4)] 2 by (intro exI [of _ r]) (simp add: eq)
qed (use sup in simp_all)

interpretation dvbsky: i2c_master "dvbsky_i2c_master_xfer env" dvbsky_safe 65535 for env
proof
  fix msgs s rc msgs' s'
  assume x: "dvbsky_i2c_master_xfer env msgs s = Some (rc, msgs', s')"
    and fits: "\<forall>m \<in> set msgs. msg_fits 65535 m" and safe: "dvbsky_safe s"
  obtain d w d' w' where s: "s = (d, w)" "s' = (d', w')" by (cases s, cases s')
  have "(rc < 0 \<or> rc = int (length msgs)) \<and> map msg_shape msgs' = map msg_shape msgs \<and>
    (\<forall>i < length msgs. \<not> is_read (msgs ! i) \<longrightarrow> msgs' ! i = msgs ! i) \<and> dvbsky_safe s'"
  proof (cases "dvbsky_supported msgs")
    case True
    then show ?thesis
      using master_xfer_supported [of env msgs d w rc msgs' d' w'] x safe fits s
      by (auto simp: dvbsky_safe_def dvbsky_ran_def wire_safe_def dest: tidy_safe)
  qed (use x safe master_xfer_unsupported [of msgs env s] in simp)
  then show "rc < 0 \<or> rc = int (length msgs)" "map msg_shape msgs' = map msg_shape msgs"
    "dvbsky_safe s'" "i < length msgs \<Longrightarrow> \<not> is_read (msgs ! i) \<Longrightarrow> msgs' ! i = msgs ! i" for i
    by simp_all
qed simp

subsection \<open>Properties\<close>

text \<open>C26: The dvbsky i2c master accepts exactly a write, a read, and a write followed by a read, each of at
  most 60 bytes, and refuses everything else with EOPNOTSUPP before any traffic. An accepted list that
  succeeds is one command frame and one response of the documented layout; the read message receives
  the response without its status byte. No transfer reaches past its buffer.\<close>

theorem dvbsky_i2c_xfer_frames:
  assumes "dvbsky_i2c_master_xfer env msgs (d, w) = Some (rc, msgs', d', w')"
    and "dvbsky_ok d" "\<forall>m \<in> set msgs. msg_fits 65535 m"
  shows "if dvbsky_supported msgs
    then (rc < 0 \<or> rc = int (length msgs)) \<and> map msg_shape msgs' = map msg_shape msgs \<and>
      (\<exists>v. w' = w @ v \<and> (\<forall>q \<in> set v. req_in_bounds q) \<and>
         (0 < rc \<longrightarrow> map on_pipe v = dvbsky_frames msgs)) \<and>
      (0 < rc \<and> is_read (last msgs) \<longrightarrow> take (unat (m_len (last msgs))) (m_buf (last msgs'))
         = take (unat (m_len (last msgs))) (drop 1 (sk_ibuf d')))
    else (rc, msgs', d', w') = (- EOPNOTSUPP, msgs, d, w)"
proof (cases "dvbsky_supported msgs")
  case True
  obtain r where r: "rc = (if r < 0 then r else int (length msgs))"
    "dvbsky_ran d w r d' w' (dvbsky_frames msgs)" "map msg_shape msgs' = map msg_shape msgs"
    "r = 0 \<and> is_read (last msgs) \<longrightarrow> take (unat (m_len (last msgs))) (m_buf (last msgs'))
       = take (unat (m_len (last msgs))) (drop 1 (sk_ibuf d'))"
    using master_xfer_supported [OF assms(1) True assms(2,3)] by blast
  obtain v where "w' = w @ v" "\<forall>q \<in> set v. req_in_bounds q"
    using r(2) by (auto simp: dvbsky_ran_def tidy_def)
  then show ?thesis using True r by (auto simp: dvbsky_ran_def split: if_splits)
next
  case False
  then show ?thesis using assms(1) master_xfer_unsupported [of msgs env "(d, w)"] by simp
qed

definition sample_sky :: dvbsky_dev where
  "sample_sky = \<lparr>sk_usb = \<lparr>ud_handle = 3, ud_vid = 0x0572, ud_pid = 0x0320, ud_bus = 1, ud_addr = 4,
     ud_auto_detach = True\<rparr>, sk_obuf = replicate 64 0, sk_ibuf = replicate 64 0\<rparr>"

text \<open>A host whose bulk transfers move all their bytes, the answers being \<open>0, 1, 2, ...\<close>.\<close>

definition echo_host :: host where
  "echo_host w =
     \<lparr>r_rc = 0, r_data = (case last w of Bulk h ep buf len t \<Rightarrow> map word_of_nat [0..<len] | _ \<Rightarrow> []),
      r_devs = [], r_handle = 1, r_fds = (3, 4)\<rparr>"

lemma dvbsky_i2c_xfer_frames_witness:
  "\<exists>msgs' d' w'. dvbsky_i2c_master_xfer echo_host
      [\<lparr>m_addr = 0x64, m_flags = 0, m_len = 1, m_buf = [0xFE]\<rparr>,
       \<lparr>m_addr = 0x64, m_flags = 1, m_len = 2, m_buf = [0, 0]\<rparr>] (sample_sky, []) = Some (2, msgs', d', w') \<and>
    map on_pipe w' = [Some (Inl [9, 1, 2, 0x64, 0xFE]), Some (Inr 3)]"
proof -
  let ?ms = "[\<lparr>m_addr = 0x64, m_flags = 0, m_len = 1, m_buf = [0xFE]\<rparr>,
       \<lparr>m_addr = 0x64, m_flags = 1, m_len = 2, m_buf = [0, 0]\<rparr>] :: i2c_msg list"
  obtain rc msgs' d' w' where run: "dvbsky_i2c_master_xfer echo_host ?ms (sample_sky, []) = Some (rc, msgs', d', w')"
    by (cases "dvbsky_i2c_master_xfer echo_host ?ms (sample_sky, [])")
       (auto simp: dvbsky_i2c_master_xfer_def split: prod.splits if_splits)
  have rc: "rc = 2"
    using run
    by (auto simp: dvbsky_i2c_master_xfer_def dvbsky_i2c_write_then_read_def dvbsky_bulk_rw_locked_def
        usbq_bulk_write_def usbq_bulk_read_def ask_def echo_host_def INT32_MAX_def DVBSKY_BUF_LEN_def
        DVBSKY_I2C_MAX_LEN_def is_read_def I2C_M_RD_def Let_def split: if_splits)
  have ok: "dvbsky_ok sample_sky" "\<forall>m \<in> set ?ms. msg_fits 65535 m"
    by (simp_all add: dvbsky_ok_def sample_sky_def DVBSKY_BUF_LEN_def msg_fits_def)
  have "dvbsky_supported ?ms" by (simp add: is_read_def I2C_M_RD_def)
  then have "map on_pipe w' = dvbsky_frames ?ms"
    using dvbsky_i2c_xfer_frames [OF run ok] rc by auto
  then show ?thesis using run rc by simp
qed

text \<open>Switching the stream always sends the stop frame first. Switching it on sends the start frame
  only after a stop frame that went through whole and a pause of 20 ms; switching it off sends
  nothing else. A short transfer is an input/output error, and success means every frame went out.\<close>

theorem dvbsky_stream_ctrl_order:
  assumes "dvbsky_stream_ctrl env (Some d) onoff w = (rc, w')"
  shows "\<exists>v k. w' = w @ v \<and> rc \<le> 0 \<and>
    map (\<lambda>q. (on_pipe q, q = Sleep_us 20000)) v
      = take k [(Some (Inl [0x37, 0, 0]), False), (None, True), (Some (Inl [0x36, 3, 0]), False)] \<and>
    (k = 1 \<or> onoff \<and> k = 3) \<and> (rc = 0 \<longrightarrow> k = (if onoff then 3 else 1))"
proof -
  have len: "\<exists>n. usbq_bulk_write env (Some (sk_usb d)) 0x01 cmd 3 t w
      = (n, w @ [Bulk (ud_handle (sk_usb d)) 0x01 cmd 3 t])" for cmd t w
    by (rule bulk_write_step) simp
  obtain n1 where n1: "usbq_bulk_write env (Some (sk_usb d)) 0x01 [0x37, 0, 0] 3 DVBSKY_BULK_TIMEOUT_MS w
      = (n1, w @ [Bulk (ud_handle (sk_usb d)) 0x01 [0x37, 0, 0] 3 DVBSKY_BULK_TIMEOUT_MS])"
    using len by blast
  let ?w = "(w @ [Bulk (ud_handle (sk_usb d)) 0x01 [0x37, 0, 0] 3 DVBSKY_BULK_TIMEOUT_MS]) @ [Sleep_us 20000]"
  obtain n2 where n2: "usbq_bulk_write env (Some (sk_usb d)) 0x01 [0x36, 3, 0] 3 DVBSKY_BULK_TIMEOUT_MS ?w
      = (n2, ?w @ [Bulk (ud_handle (sk_usb d)) 0x01 [0x36, 3, 0] 3 DVBSKY_BULK_TIMEOUT_MS])"
    using len by blast
  show ?thesis
  proof (cases "n1 < 0 \<or> n1 \<noteq> 3 \<or> \<not> onoff")
    case True
    then show ?thesis
      using assms n1
      by (intro exI [of _ "[Bulk (ud_handle (sk_usb d)) 0x01 [0x37, 0, 0] 3 DVBSKY_BULK_TIMEOUT_MS]"]
          exI [of _ "1::nat"])
         (auto simp: dvbsky_stream_ctrl_def dvbsky_stream_frame_def split: if_splits)
  next
    case False
    then show ?thesis
      using assms n1 n2
      by (intro exI [of _ "[Bulk (ud_handle (sk_usb d)) 0x01 [0x37, 0, 0] 3 DVBSKY_BULK_TIMEOUT_MS,
            Sleep_us 20000, Bulk (ud_handle (sk_usb d)) 0x01 [0x36, 3, 0] 3 DVBSKY_BULK_TIMEOUT_MS]"]
          exI [of _ "3::nat"])
         (auto simp: dvbsky_stream_ctrl_def dvbsky_stream_frame_def split: if_splits)
  qed
qed

lemma dvbsky_stream_ctrl_order_witness:
  "\<exists>w'. dvbsky_stream_ctrl echo_host (Some sample_sky) True [] = (0, w') \<and> length w' = 3"
proof -
  obtain rc w' where run: "dvbsky_stream_ctrl echo_host (Some sample_sky) True [] = (rc, w')"
    by (cases "dvbsky_stream_ctrl echo_host (Some sample_sky) True []")
  have rc: "rc = 0"
    using run
    by (auto simp: dvbsky_stream_ctrl_def dvbsky_stream_frame_def usbq_bulk_write_def ask_def echo_host_def
        INT32_MAX_def Let_def split: if_splits)
  from dvbsky_stream_ctrl_order [OF run] rc have "length w' = 3"
    by (auto dest: arg_cong [where f = length])
  then show ?thesis using run rc by simp
qed

text \<open>The two messages of a write-then-read go out as one frame under the first message's address:
  the slave address of the read is never looked at, so a list that addresses two devices reads
  from the first one and reports success.\<close>

theorem dvbsky_read_address_ignored:
  "\<exists>msgs' d'. dvbsky_i2c_master_xfer env [m0, m1] (d, w) = Some (rc, msgs', d', w') \<Longrightarrow>
   \<exists>msgs' d'. dvbsky_i2c_master_xfer env [m0, m1\<lparr>m_addr := a\<rparr>] (d, w) = Some (rc, msgs', d', w')"
  by (auto simp: dvbsky_i2c_master_xfer_def dvbsky_i2c_write_then_read_def is_read_def Let_def
      split: prod.splits if_splits)

lemma dvbsky_read_address_ignored_witness:
  "\<exists>msgs' d' w'. dvbsky_i2c_master_xfer echo_host
      [\<lparr>m_addr = 0x64, m_flags = 0, m_len = 61, m_buf = replicate 61 0\<rparr>,
       \<lparr>m_addr = 0x64, m_flags = 1, m_len = 2, m_buf = [0, 0]\<rparr>\<lparr>m_addr := 0x60\<rparr>] (sample_sky, [])
     = Some (- EOPNOTSUPP, msgs', d', w')"
  using dvbsky_read_address_ignored [of echo_host "\<lparr>m_addr = 0x64, m_flags = 0, m_len = 61, m_buf = replicate 61 0\<rparr>"
      "\<lparr>m_addr = 0x64, m_flags = 1, m_len = 2, m_buf = [0, 0]\<rparr>" sample_sky "[]" "- EOPNOTSUPP" "[]" "0x60"]
  by (simp add: master_xfer_unsupported)

end
