(* ===== verification/Dvb_Handle.thy ===== *)
theory Dvb_Handle
  imports Prelude
begin

text \<open>
  The types every engine shares with its clients (\<open>dvb_handle/include/dvb_handle/dvb_handle.h\<close>):
  tuning parameters, lock status, the per-frontend operations, the records of a board that is
  present or supported. An engine state is a type parameter; an operation that may wait for the
  device is option-valued, \<open>None\<close> for a call that does not return. \<open>int32_t\<close> fields are \<open>int\<close>.
\<close>

record dvb_tune_params =
  tp_delsys :: u32
  tp_freq_hz :: u32
  tp_bandwidth_hz :: u32
  tp_symbol_rate :: u32
  tp_stream_id :: int

record dvb_status =
  st_has_signal :: bool
  st_has_carrier :: bool
  st_has_viterbi :: bool
  st_has_sync :: bool
  st_has_lock :: bool
  st_cnr_db_x1000 :: int

definition no_status :: dvb_status where
  "no_status = \<lparr>st_has_signal = False, st_has_carrier = False, st_has_viterbi = False,
     st_has_sync = False, st_has_lock = False, st_cnr_db_x1000 = 0\<rparr>"

text \<open>The vtable. A buffer argument comes with its length and is handed back as the call left it.\<close>

record 's dvb_engine_vtable =
  vt_tune :: "dvb_tune_params option \<Rightarrow> 's \<Rightarrow> (int \<times> 's) option"
  vt_read_ts :: "bytes option \<Rightarrow> nat \<Rightarrow> u32 \<Rightarrow> 's \<Rightarrow> (int \<times> bytes option \<times> 's) option"
  vt_get_status :: "dvb_status option \<Rightarrow> 's \<Rightarrow> (int \<times> dvb_status option \<times> 's) option"
  vt_event_fd :: "'s \<Rightarrow> int"
  vt_capture_stop :: "'s \<Rightarrow> (int \<times> 's) option"

record dvb_present_board =
  pb_bridge :: string
  pb_name :: string
  pb_vidpid :: string
  pb_num_frontends :: int
  pb_bus :: u8
  pb_addr :: u8

record dvb_supported_board =
  sb_bridge :: string
  sb_name :: string
  sb_vidpids :: "string list"
  sb_num_frontends :: int

text \<open>Which of the three engines' vtables a handle's \<open>ops\<close> points to, and the address of the frontend in its
  \<open>engine_state\<close>: the number of its device, in the order the engine opened them, and its place in the device's
  \<open>frontends\<close> array. A device stays where it is until the engine's shutdown frees them all, and so does this address.\<close>

datatype bridge_kind = Em28xx | Dib0700 | Dvbsky

type_synonym frontend_addr = "nat \<times> nat"

record dvb_frontend_handle =
  fh_ops :: bridge_kind
  fh_engine_state :: frontend_addr
  fh_display_name :: string
  fh_supported_delsys :: "u32 list"
  fh_bus :: u8
  fh_addr :: u8

subsection \<open>Delivery systems\<close>

abbreviation SYS_DVBC_ANNEX_A :: u32 where "SYS_DVBC_ANNEX_A \<equiv> 1"
abbreviation SYS_DVBC_ANNEX_B :: u32 where "SYS_DVBC_ANNEX_B \<equiv> 2"
abbreviation SYS_DVBT :: u32 where "SYS_DVBT \<equiv> 3"
abbreviation SYS_ATSC :: u32 where "SYS_ATSC \<equiv> 11"
abbreviation SYS_DVBT2 :: u32 where "SYS_DVBT2 \<equiv> 16"

end
