(* ===== verification/Boards.thy ===== *)
theory Boards
  imports Dvb_Handle Usbq_Lib Em28xx_Bridge Dib0700_Bridge Dvbsky_Bridge
begin

text \<open>
  The board tables of the three bridges (\<open>bridges/*/dvb/src/boards.c\<close>, \<open>dvb_*_priv.h\<close>): USB ids,
  bring-up sequences, chip attach functions, stream endpoints and delivery systems, and the lookups
  the engines and the hotplug module run over them.

  The chip drivers are fetched at build time and are not part of the program. What an attach function
  uses of them is the record \<open>chips\<close>: the drivers the registry holds, and what a probe left behind the
  two out-pointers of the configuration it was given, the demodulator's frontend and the muxed
  adapter. \<open>'s\<close> is the state the chip drivers run on, \<open>'fe\<close> their frontends.
\<close>

subsection \<open>Chip configurations\<close>

datatype si2168_ts_mode = SI2168_TS_PARALLEL | SI2168_TS_SERIAL

record si2168_config =
  si_ts_mode :: si2168_ts_mode
  si_ts_clk_manual :: bool
  si_ts_clock_inv :: bool
  si_ts_clock_gapped :: bool
  si_spectral_inversion :: bool

datatype lgdt3306a_mode = LGDT3306A_MPEG_PARALLEL | LGDT3306A_MPEG_SERIAL
datatype lgdt3306a_edge = LGDT3306A_TPCLK_RISING_EDGE | LGDT3306A_TPCLK_FALLING_EDGE
datatype lgdt3306a_polarity = LGDT3306A_TP_VALID_LOW | LGDT3306A_TP_VALID_HIGH

record lgdt3306a_config =
  lg_qam_if_khz :: nat
  lg_vsb_if_khz :: nat
  lg_deny_i2c_rptr :: bool
  lg_spectral_inversion :: bool
  lg_mpeg_mode :: lgdt3306a_mode
  lg_tpclk_edge :: lgdt3306a_edge
  lg_tpvalid_polarity :: lgdt3306a_polarity
  lg_xtal_mhz :: nat

record mn88472_config =
  mn_xtal :: nat
  mn_ts_mode_parallel :: bool
  mn_ts_clock_fixed :: bool
  mn_i2c_wr_max :: nat

record 'fe si2157_config =
  sit_fe :: 'fe
  sit_inversion :: bool
  sit_dont_load_firmware :: bool
  sit_if_port :: u8

record 'fe tda18250_config =
  tda_if_dvbt :: "nat \<times> nat \<times> nat"   \<comment> \<open>6, 7 and 8 MHz\<close>
  tda_if_dvbc :: "nat \<times> nat"            \<comment> \<open>6 and 8 MHz\<close>
  tda_if_atsc :: nat
  tda_loopthrough :: bool
  tda_xtal_mhz :: nat
  tda_fe :: 'fe

datatype 'fe chip_config =
    Si2168 si2168_config
  | Lgdt3306a lgdt3306a_config
  | Mn88472 mn88472_config
  | Si2157 "'fe si2157_config"
  | Tda18250 "'fe tda18250_config"

type_synonym ('s, 'fe) client = "('s, 'fe chip_config) i2c_client"

record ('s, 'fe) chips =
  ch_drivers :: "('s, 'fe chip_config) i2c_driver list"
  ch_alloc :: "'s \<Rightarrow> bool"                  \<comment> \<open>whether the next client allocation succeeds\<close>
  ch_fe_back :: "'s \<Rightarrow> 'fe option"          \<comment> \<open>\<open>*cfg.fe\<close> after a probe\<close>
  ch_muxed_adap :: "'s \<Rightarrow> 's master option" \<comment> \<open>\<open>*cfg.i2c_adapter\<close> after a probe\<close>

subsection \<open>Attach functions\<close>

text \<open>What the three out-pointers of an attach function receive.\<close>

record ('s, 'fe) attached =
  at_demod :: "('s, 'fe) client option"
  at_fe :: "'fe option"
  at_tuner :: "('s, 'fe) client option"

definition nothing_attached :: "('s, 'fe) attached" where
  "nothing_attached = \<lparr>at_demod = None, at_fe = None, at_tuner = None\<rparr>"

type_synonym ('s, 'fe) attach_fn = "('s, 'fe) chips \<Rightarrow> 's master option \<Rightarrow> int \<Rightarrow> 's
    \<Rightarrow> (int \<times> ('s, 'fe) attached \<times> 's) option"

text \<open>The step every attach function repeats: create a client, and fail unless a driver bound to it. The
  name goes through \<open>strncpy(info.type, name, I2C_NAME_SIZE - 1)\<close>.\<close>

definition bind_chip :: "('s, 'fe) chips \<Rightarrow> 's master option \<Rightarrow> string \<Rightarrow> u16 \<Rightarrow> 'fe chip_config \<Rightarrow> 's
    \<Rightarrow> (('s, 'fe) client option \<times> 's) option" where
  "bind_chip chips adap name addr cfg s = do {
     (r, s) \<leftarrow> i2c_new_client_device (ch_drivers chips) (ch_alloc chips s) adap
        (Some \<lparr>bi_type = take (I2C_NAME_SIZE - 1) name, bi_flags = 0, bi_addr = addr,
               bi_platform_data = Some cfg\<rparr>) s;
     Some (case r of
             Inl _ \<Rightarrow> None
           | Inr c \<Rightarrow> if i2c_client_has_driver (Some c) then Some c else None, s)
   }"

abbreviation unbind :: "('s, 'fe) chips \<Rightarrow> ('s, 'fe) client \<Rightarrow> 's \<Rightarrow> 's" where
  "unbind chips c s \<equiv> i2c_unregister_device (ch_drivers chips) (Some (Inr c)) s"

text \<open>The two dualHD boards differ in the demodulator and its addresses, in the second tuner's address and
  in the tuner's inversion.\<close>

definition dualhd_attach :: "string \<Rightarrow> 'fe chip_config \<Rightarrow> u16 \<times> u16 \<Rightarrow> u16 \<Rightarrow> bool \<Rightarrow> ('s, 'fe) attach_fn" where
  "dualhd_attach demod_type demod_cfg demod_addrs second_tuner_addr inversion chips parent_adap frontend_index s =
     (if frontend_index \<noteq> 0 \<and> frontend_index \<noteq> 1 then Some (- EINVAL, nothing_attached, s)
      else
        let demod_addr = (if frontend_index = 0 then fst demod_addrs else snd demod_addrs);
            tuner_addr = (if frontend_index = 0 then 0x60 else second_tuner_addr)
        in do {
          (demod, s) \<leftarrow> bind_chip chips parent_adap demod_type demod_addr demod_cfg s;
          case demod of
            None \<Rightarrow> Some (- EIO, nothing_attached, s)
          | Some demod \<Rightarrow>
              (case (ch_fe_back chips s, ch_muxed_adap chips s) of
                 (Some fe_back, Some muxed_adap) \<Rightarrow> do {
                   (tuner, s) \<leftarrow> bind_chip chips (Some muxed_adap) ''si2157'' tuner_addr
                      (Si2157 \<lparr>sit_fe = fe_back, sit_inversion = inversion, sit_dont_load_firmware = True,
                              sit_if_port = 1\<rparr>) s;
                   Some (case tuner of
                           None \<Rightarrow> (- EIO, nothing_attached, unbind chips demod s)
                         | Some tuner \<Rightarrow>
                             (0, \<lparr>at_demod = Some demod, at_fe = Some fe_back, at_tuner = Some tuner\<rparr>, s))
                 }
               | _ \<Rightarrow> Some (- EIO, nothing_attached, unbind chips demod s))
        })"

definition wintv_dualhd_dvb_attach :: "('s, 'fe) attach_fn" where
  "wintv_dualhd_dvb_attach =
     dualhd_attach ''si2168''
       (Si2168 \<lparr>si_ts_mode = SI2168_TS_SERIAL, si_ts_clk_manual = False, si_ts_clock_inv = False,
               si_ts_clock_gapped = False, si_spectral_inversion = True\<rparr>)
       (0x64, 0x67) 0x63 False"

definition k_hauppauge_01595_lgdt3306a_template :: lgdt3306a_config where
  "k_hauppauge_01595_lgdt3306a_template =
     \<lparr>lg_qam_if_khz = 4000, lg_vsb_if_khz = 3250, lg_deny_i2c_rptr = False, lg_spectral_inversion = True,
      lg_mpeg_mode = LGDT3306A_MPEG_SERIAL, lg_tpclk_edge = LGDT3306A_TPCLK_RISING_EDGE,
      lg_tpvalid_polarity = LGDT3306A_TP_VALID_HIGH, lg_xtal_mhz = 25\<rparr>"

definition wintv_dualhd_atsc_attach :: "('s, 'fe) attach_fn" where
  "wintv_dualhd_atsc_attach =
     dualhd_attach ''lgdt3306a'' (Lgdt3306a k_hauppauge_01595_lgdt3306a_template) (0x59, 0x0e) 0x62 True"

definition xbox_one_attach :: "('s, 'fe) attach_fn" where
  "xbox_one_attach chips parent_adap frontend_index s =
     (if frontend_index \<noteq> 0 then Some (- EINVAL, nothing_attached, s)
      else do {
        (demod, s) \<leftarrow> bind_chip chips parent_adap ''mn88472'' 0x18
           (Mn88472 \<lparr>mn_xtal = 20500000, mn_ts_mode_parallel = True, mn_ts_clock_fixed = True,
                    mn_i2c_wr_max = 22\<rparr>) s;
        case demod of
          None \<Rightarrow> Some (- EIO, nothing_attached, s)
        | Some demod \<Rightarrow>
            (case ch_fe_back chips s of
               None \<Rightarrow> Some (- EIO, nothing_attached, unbind chips demod s)
             | Some fe_back \<Rightarrow> do {
                 (tuner, s) \<leftarrow> bind_chip chips parent_adap ''tda18250'' 0x60
                    (Tda18250 \<lparr>tda_if_dvbt = (3950, 4450, 4950), tda_if_dvbc = (4950, 4950),
                              tda_if_atsc = 4079, tda_loopthrough = True, tda_xtal_mhz = 27,
                              tda_fe = fe_back\<rparr>) s;
                 Some (case tuner of
                         None \<Rightarrow> (- EIO, nothing_attached, unbind chips demod s)
                       | Some tuner \<Rightarrow>
                           (0, \<lparr>at_demod = Some demod, at_fe = Some fe_back, at_tuner = Some tuner\<rparr>, s))
               })
      })"

text \<open>The dvbsky helpers: the demodulator with the frontend and adapter its probe wrote back, and the
  tuner.\<close>

definition attach_si2168 :: "('s, 'fe) chips \<Rightarrow> 's master option \<Rightarrow> bool \<Rightarrow> 's
    \<Rightarrow> (int \<times> ('fe \<times> 's master \<times> ('s, 'fe) client) option \<times> 's) option" where
  "attach_si2168 chips parent_adap ts_clk_manual s = do {
     (demod, s) \<leftarrow> bind_chip chips parent_adap ''si2168'' 0x64
        (Si2168 \<lparr>si_ts_mode = SI2168_TS_PARALLEL, si_ts_clk_manual = ts_clk_manual, si_ts_clock_inv = True,
                si_ts_clock_gapped = False, si_spectral_inversion = False\<rparr>) s;
     Some (case demod of
             None \<Rightarrow> (- EIO, None, s)
           | Some demod \<Rightarrow>
               (case (ch_fe_back chips s, ch_muxed_adap chips s) of
                  (Some fe_back, Some muxed_adap) \<Rightarrow> (0, Some (fe_back, muxed_adap, demod), s)
                | _ \<Rightarrow> (- EIO, None, unbind chips demod s)))
   }"

definition attach_tuner_si2157_like :: "('s, 'fe) chips \<Rightarrow> 's master \<Rightarrow> 'fe \<Rightarrow> string \<Rightarrow> int \<Rightarrow> 's
    \<Rightarrow> (int \<times> ('s, 'fe) client option \<times> 's) option" where
  "attach_tuner_si2157_like chips muxed_adap fe chip_type if_port s = do {
     (tuner, s) \<leftarrow> bind_chip chips (Some muxed_adap) chip_type 0x60
        (Si2157 \<lparr>sit_fe = fe, sit_inversion = False, sit_dont_load_firmware = False,
                sit_if_port = word_of_int if_port\<rparr>) s;
     Some (case tuner of None \<Rightarrow> (- EIO, None, s) | Some t \<Rightarrow> (0, Some t, s))
   }"

text \<open>The three T230 boards differ in the clock mode, the tuner's name and its IF port.\<close>

definition t230_like_attach :: "bool \<Rightarrow> string \<Rightarrow> int \<Rightarrow> ('s, 'fe) attach_fn" where
  "t230_like_attach ts_clk_manual chip_type if_port chips parent_adap frontend_index s =
     (if frontend_index \<noteq> 0 then Some (- EINVAL, nothing_attached, s)
      else do {
        (rc, demod, s) \<leftarrow> attach_si2168 chips parent_adap ts_clk_manual s;
        case demod of
          None \<Rightarrow> Some (rc, nothing_attached, s)
        | Some (fe_back, muxed_adap, demod) \<Rightarrow> do {
            (rc, tuner, s) \<leftarrow> attach_tuner_si2157_like chips muxed_adap fe_back chip_type if_port s;
            Some (if rc < 0 then (rc, nothing_attached, unbind chips demod s)
                  else (0, \<lparr>at_demod = Some demod, at_fe = Some fe_back, at_tuner = tuner\<rparr>, s))
          }
      })"

definition t230_attach :: "('s, 'fe) attach_fn" where
  "t230_attach = t230_like_attach False ''si2157'' 1"

definition t230c_attach :: "('s, 'fe) attach_fn" where
  "t230c_attach = t230_like_attach False ''si2141'' 0"

definition t230c2_attach :: "('s, 'fe) attach_fn" where
  "t230c2_attach = t230_like_attach True ''si2141'' 0"

subsection \<open>Bring-up sequences\<close>

text \<open>Pins to set, each with the pause after it; a failing step ends the sequence.\<close>

fun dib0700_gpio_script :: "host \<Rightarrow> (u8 \<times> int \<times> nat) list \<Rightarrow> dib0700_dev \<Rightarrow> wire \<Rightarrow> int \<times> dib0700_dev \<times> wire"
where
  "dib0700_gpio_script env [] d w = (0, d, w)"
| "dib0700_gpio_script env ((gpio, v, ms) # steps) d w =
     (let (rc, d', w) = dib0700_set_gpio env (Some d) gpio 1 v w; d = (case d' of None \<Rightarrow> d | Some d' \<Rightarrow> d')
      in if rc < 0 then (rc, d, w) else dib0700_gpio_script env steps d (msleep ms w))"

definition xbox_one_bringup :: "host \<Rightarrow> dib0700_dev \<Rightarrow> wire \<Rightarrow> int \<times> dib0700_dev \<times> wire" where
  "xbox_one_bringup env =
     dib0700_gpio_script env [(8, 0, 30), (8, 1, 30), (15, 1, 30), (15, 0, 30), (15, 1, 30)]"

fun dvbsky_gpio_script :: "host \<Rightarrow> (u8 \<times> u8 \<times> nat) list \<Rightarrow> dvbsky_dev \<Rightarrow> wire \<Rightarrow> int \<times> dvbsky_dev \<times> wire"
where
  "dvbsky_gpio_script env [] d w = (0, d, w)"
| "dvbsky_gpio_script env ((gport, v, ms) # steps) d w =
     (let (rc, d', w) = dvbsky_gpio_ctrl env (Some d) gport v w; d = (case d' of None \<Rightarrow> d | Some d' \<Rightarrow> d')
      in if rc < 0 then (rc, d, w) else dvbsky_gpio_script env steps d (msleep ms w))"

definition t230_family_bringup :: "host \<Rightarrow> dvbsky_dev \<Rightarrow> wire \<Rightarrow> int \<times> dvbsky_dev \<times> wire" where
  "t230_family_bringup env =
     dvbsky_gpio_script env [(0x04, 1, 20), (0x83, 0, 0), (0xc0, 1, 100), (0x83, 1, 0), (0xc0, 0, 50)]"

subsection \<open>The tables\<close>

text \<open>The fields the three board types share; a per-frontend array is a list, \<open>None\<close> for NULL. A table
  ends before the row without a name, a list of ids before its NULL.\<close>

record ('s, 'fe) board =
  b_name :: string
  b_vidpids :: "string list"
  b_num_frontends :: int
  b_attach :: "('s, 'fe) attach_fn"
  b_ts_endpoints :: "u8 list option"
  b_ts_buf_sizes :: "u32 list option"
  b_ts_pool_depths :: "u32 list option"
  b_supported_delsys :: "u32 list"

record ('s, 'fe) em28xx_board = "('s, 'fe) board" +
  b_i2c_speed :: u8
  b_xclk :: u8
  b_gpio_seq :: "em28xx_reg_seq list"

record ('s, 'fe) dib0700_board = "('s, 'fe) board" +
  b_bridge_firmware :: string
  b_dib0700_bringup :: "(host \<Rightarrow> dib0700_dev \<Rightarrow> wire \<Rightarrow> int \<times> dib0700_dev \<times> wire) option"

record ('s, 'fe) dvbsky_board = "('s, 'fe) board" +
  b_dvbsky_bringup :: "(host \<Rightarrow> dvbsky_dev \<Rightarrow> wire \<Rightarrow> int \<times> dvbsky_dev \<times> wire) option"

definition wintv_dualhd_dvb_gpio :: "em28xx_reg_seq list" where
  "wintv_dualhd_dvb_gpio =
     [\<lparr>rs_reg = 0x80, rs_val = 0xff, rs_mask = 0xff, rs_sleep_ms = 0\<rparr>,
      \<lparr>rs_reg = 0x0d, rs_val = 0xff, rs_mask = 0xff, rs_sleep_ms = 200\<rparr>,
      \<lparr>rs_reg = 0x50, rs_val = 0x04, rs_mask = 0xff, rs_sleep_ms = 300\<rparr>,
      \<lparr>rs_reg = 0x80, rs_val = 0xbf, rs_mask = 0xff, rs_sleep_ms = 100\<rparr>,
      \<lparr>rs_reg = 0x80, rs_val = 0xff, rs_mask = 0xff, rs_sleep_ms = 100\<rparr>,
      \<lparr>rs_reg = 0x80, rs_val = 0xdf, rs_mask = 0xff, rs_sleep_ms = 100\<rparr>,
      \<lparr>rs_reg = 0x80, rs_val = 0xff, rs_mask = 0xff, rs_sleep_ms = 100\<rparr>,
      \<lparr>rs_reg = 0x5f, rs_val = 0x00, rs_mask = 0xff, rs_sleep_ms = 50\<rparr>,
      \<lparr>rs_reg = 0x5d, rs_val = 0x05, rs_mask = 0xff, rs_sleep_ms = 50\<rparr>,
      \<lparr>rs_reg = 0x5e, rs_val = 0x05, rs_mask = 0xff, rs_sleep_ms = 50\<rparr>,
      \<lparr>rs_reg = -1, rs_val = -1, rs_mask = -1, rs_sleep_ms = -1\<rparr>]"

definition em28xx_board_table :: "('s, 'fe) em28xx_board list" where
  "em28xx_board_table =
     [\<lparr>b_name = ''Hauppauge WinTV-dualHD'', b_vidpids = [''2040:0265''], b_num_frontends = 2,
       b_attach = wintv_dualhd_dvb_attach, b_ts_endpoints = Some [0x84, 0x85], b_ts_buf_sizes = None,
       b_ts_pool_depths = None, b_supported_delsys = [SYS_DVBT, SYS_DVBT2, SYS_DVBC_ANNEX_A],
       b_i2c_speed = 0x40 OR 0x01, b_xclk = 0x20 OR 0x07, b_gpio_seq = wintv_dualhd_dvb_gpio\<rparr>,
      \<lparr>b_name = ''Hauppauge WinTV-dualHD 01595 ATSC/QAM'',
       b_vidpids = [''2040:026d'', ''2040:826d'', ''2040:826e'', ''2040:826f'', ''2040:8270'', ''2040:8271''],
       b_num_frontends = 2, b_attach = wintv_dualhd_atsc_attach, b_ts_endpoints = Some [0x84, 0x85],
       b_ts_buf_sizes = None, b_ts_pool_depths = None,
       b_supported_delsys = [SYS_ATSC, SYS_DVBC_ANNEX_B],
       b_i2c_speed = 0x40 OR 0x01, b_xclk = 0x20 OR 0x07, b_gpio_seq = wintv_dualhd_dvb_gpio\<rparr>]"

definition dib0700_board_table :: "('s, 'fe) dib0700_board list" where
  "dib0700_board_table =
     [\<lparr>b_name = ''Microsoft Xbox One Digital TV Tuner'', b_vidpids = [''045e:02d5''], b_num_frontends = 1,
       b_attach = xbox_one_attach, b_ts_endpoints = Some [0x82], b_ts_buf_sizes = Some [39480],
       b_ts_pool_depths = Some [8], b_supported_delsys = [SYS_DVBT, SYS_DVBT2, SYS_DVBC_ANNEX_A],
       b_bridge_firmware = ''dvb-usb-dib0700-1.20.fw'', b_dib0700_bringup = Some xbox_one_bringup\<rparr>]"

definition t230_family_row :: "string \<Rightarrow> string \<Rightarrow> ('s, 'fe) attach_fn \<Rightarrow> ('s, 'fe) dvbsky_board" where
  "t230_family_row name vidpid attach =
     \<lparr>b_name = name, b_vidpids = [vidpid], b_num_frontends = 1, b_attach = attach,
      b_ts_endpoints = Some [0x82], b_ts_buf_sizes = None, b_ts_pool_depths = None,
      b_supported_delsys = [SYS_DVBT, SYS_DVBT2, SYS_DVBC_ANNEX_A],
      b_dvbsky_bringup = Some t230_family_bringup\<rparr>"

definition dvbsky_board_table :: "('s, 'fe) dvbsky_board list" where
  "dvbsky_board_table =
     [t230_family_row ''MyGica T230'' ''0572:c688'' t230_attach,
      t230_family_row ''MyGica T230C / Geniatech EyeTV Stick'' ''0572:c689'' t230c_attach,
      t230_family_row ''MyGica T230C2'' ''0572:c68a'' t230c2_attach]"

subsection \<open>Lookups\<close>

text \<open>The engines' \<open>find_board_by_vidpid\<close>: the first board one of whose ids is the string.\<close>

fun find_board_in :: "string \<Rightarrow> ('s, 'fe, 'z) board_scheme list \<Rightarrow> ('s, 'fe, 'z) board_scheme option" where
  "find_board_in v [] = None"
| "find_board_in v (b # bs) = (if list_ex (\<lambda>i. i = v) (b_vidpids b) then Some b else find_board_in v bs)"

definition find_board_by_vidpid :: "('s, 'fe, 'z) board_scheme list \<Rightarrow> string option
    \<Rightarrow> ('s, 'fe, 'z) board_scheme option" where
  "find_board_by_vidpid table vidpid = (case vidpid of None \<Rightarrow> None | Some v \<Rightarrow> find_board_in v table)"

text \<open>The engines' \<open>*_supported_boards\<close>: the public view of a table, at most 16 rows.\<close>

definition supported_row :: "string \<Rightarrow> ('s, 'fe, 'z) board_scheme \<Rightarrow> dvb_supported_board" where
  "supported_row bridge b = \<lparr>sb_bridge = bridge, sb_name = b_name b, sb_vidpids = b_vidpids b,
                             sb_num_frontends = b_num_frontends b\<rparr>"

definition dvb_em28xx_supported_boards :: "dvb_supported_board list" where
  "dvb_em28xx_supported_boards =
     map (supported_row ''em28xx'') (take 16 (em28xx_board_table :: (unit, unit) em28xx_board list))"

definition dvb_dib0700_supported_boards :: "dvb_supported_board list" where
  "dvb_dib0700_supported_boards =
     map (supported_row ''dib0700'') (take 16 (dib0700_board_table :: (unit, unit) dib0700_board list))"

definition dvb_dvbsky_supported_boards :: "dvb_supported_board list" where
  "dvb_dvbsky_supported_boards =
     map (supported_row ''dvbsky'') (take 16 (dvbsky_board_table :: (unit, unit) dvbsky_board list))"

lemma find_board_in_Some: "find_board_in v t = Some b \<Longrightarrow> b \<in> set t \<and> v \<in> set (b_vidpids b)"
  by (induction t) (auto simp: list_ex_iff split: if_splits)

lemma find_board_in_None: "find_board_in v t = None \<longleftrightarrow> (\<forall>b \<in> set t. v \<notin> set (b_vidpids b))"
  by (induction t) (auto simp: list_ex_iff)

lemmas board_tables = em28xx_board_table_def dib0700_board_table_def dvbsky_board_table_def t230_family_row_def

subsection \<open>Clients are bound and released in pairs\<close>

text \<open>What the chip drivers are relied on for: a probe that succeeds binds one client, one that fails
  none, and every driver can be removed, which releases one. \<open>n\<close> counts the bound clients of a
  state.\<close>

definition counts_clients :: "('s, 'fe) chips \<Rightarrow> ('s \<Rightarrow> nat) \<Rightarrow> bool" where
  "counts_clients chips n \<longleftrightarrow>
     (\<forall>d \<in> set (ch_drivers chips).
        (\<forall>probe c s ret c' s'. drv_probe d = Some probe \<longrightarrow> probe c s = Some (ret, c', s') \<longrightarrow>
           n s' = n s + (if ret < 0 then 0 else 1)) \<and>
        (\<exists>remove. drv_remove d = Some remove \<and> (\<forall>c s. n (remove c s) = n s - 1)))"

lemma find_driver_in: "find_driver_by_name name ds = Some (d, m) \<Longrightarrow> d \<in> set ds"
  by (induction ds) (auto split: option.splits if_splits)

definition bound_client :: "('s, 'fe) chips \<Rightarrow> ('s, 'fe) client \<Rightarrow> bool" where
  "bound_client chips c \<longleftrightarrow> (\<exists>d \<in> set (ch_drivers chips). cl_driver c = Some (drv_id d))"

lemma counts_probe:
  "counts_clients chips n \<Longrightarrow> d \<in> set (ch_drivers chips) \<Longrightarrow> drv_probe d = Some probe \<Longrightarrow>
     probe c s = Some (ret, c', s') \<Longrightarrow> n s' = n s + (if ret < 0 then 0 else 1)"
  unfolding counts_clients_def by blast

lemma bound_clientI:
  "d \<in> set (ch_drivers chips) \<Longrightarrow> bound_client chips (c\<lparr>cl_driver := Some (drv_id d)\<rparr>)"
  by (auto simp: bound_client_def)

lemma bind_chip_spec:
  assumes run: "bind_chip chips adap name addr cfg s = Some (r, s')" and n: "counts_clients chips n"
  shows "n s' = n s + (if r = None then 0 else 1) \<and> (\<forall>c. r = Some c \<longrightarrow> bound_client chips c)"
proof -
  obtain x where x: "i2c_new_client_device (ch_drivers chips) (ch_alloc chips s) adap
      (Some \<lparr>bi_type = take (I2C_NAME_SIZE - 1) name, bi_flags = 0, bi_addr = addr,
             bi_platform_data = Some cfg\<rparr>) s = Some (x, s')"
    and r: "r = (case x of Inl _ \<Rightarrow> None
               | Inr c \<Rightarrow> if i2c_client_has_driver (Some c) then Some c else None)"
    using run by (auto simp: bind_chip_def bind_eq_Some_conv)
  show ?thesis
    using x r
    by (auto simp: i2c_new_client_device_def alloc_client_def i2c_client_has_driver_def
        bind_eq_Some_conv Let_def dest!: find_driver_in dest: counts_probe [OF n] intro: bound_clientI
        split: option.splits if_splits prod.splits)
qed

lemma unbind_spec:
  assumes c: "bound_client chips c" and n: "counts_clients chips n"
  shows "n (unbind chips c s) = n s - 1"
proof -
  obtain d where d: "d \<in> set (ch_drivers chips)" "cl_driver c = Some (drv_id d)"
    using c by (auto simp: bound_client_def)
  then obtain e where e: "find (\<lambda>d'. drv_id d' = drv_id d) (ch_drivers chips) = Some e"
    by (cases "find (\<lambda>d'. drv_id d' = drv_id d) (ch_drivers chips)") (auto simp: find_None_iff)
  then have "e \<in> set (ch_drivers chips)" by (auto simp: find_Some_iff)
  then show ?thesis using n d e by (auto simp: counts_clients_def i2c_unregister_device_def)
qed

text \<open>What an attach function promises: both chips, or nothing and as many clients as before.\<close>

definition attach_ok :: "('s, 'fe) chips \<Rightarrow> ('s \<Rightarrow> nat) \<Rightarrow> 's \<Rightarrow> int \<times> ('s, 'fe) attached \<times> 's \<Rightarrow> bool" where
  "attach_ok chips n s r \<longleftrightarrow>
     (case r of (rc, out, s') \<Rightarrow>
        rc < 0 \<and> out = nothing_attached \<and> n s' = n s \<or>
        rc = 0 \<and> n s' = n s + 2 \<and> at_fe out \<noteq> None \<and>
          (\<exists>d t. at_demod out = Some d \<and> at_tuner out = Some t \<and> bound_client chips d \<and> bound_client chips t))"

text \<open>The common end of every attach function, from a bound demodulator on.\<close>

lemma attach_tuner_ok:
  assumes "counts_clients chips n" "bound_client chips demod" "n s1 = n s + 1"
    and "bind_chip chips adap name addr cfg s1 = Some (tuner, s2)"
  shows "attach_ok chips n s (case tuner of
      None \<Rightarrow> (- EIO, nothing_attached, unbind chips demod s2)
    | Some t \<Rightarrow> (0, \<lparr>at_demod = Some demod, at_fe = Some fe, at_tuner = Some t\<rparr>, s2))"
  using bind_chip_spec [OF assms(4,1)] unbind_spec [OF assms(2,1)] assms(2,3)
  by (auto simp: attach_ok_def split: option.splits)

lemma attach_undone_ok:
  assumes "counts_clients chips n" "bound_client chips demod" "n s1 = n s + 1"
  shows "attach_ok chips n s (- EIO, nothing_attached, unbind chips demod s1)"
  using unbind_spec [OF assms(2,1)] assms(3) by (simp add: attach_ok_def)

lemma attach_refused_ok: "rc < 0 \<Longrightarrow> n s' = n s \<Longrightarrow> attach_ok chips n s (rc, nothing_attached, s')"
  by (simp add: attach_ok_def)

lemma bind_chip_cases:
  assumes "bind_chip chips adap name addr cfg s = Some (r, s')" "counts_clients chips n"
  obtains (None) "r = None" "n s' = n s"
  | (Some) c where "r = Some c" "bound_client chips c" "n s' = n s + 1"
  using bind_chip_spec [OF assms] by (cases r) auto

lemma dualhd_attach_ok:
  assumes n: "counts_clients chips n" and run: "dualhd_attach ty cfg addrs a2 invs chips adap i s = Some r"
  shows "attach_ok chips n s r"
proof (cases "i \<noteq> 0 \<and> i \<noteq> 1")
  case True
  then show ?thesis using run by (auto simp: dualhd_attach_def intro!: attach_refused_ok)
next
  case False
  obtain demod s1 where d: "bind_chip chips adap ty (if i = 0 then fst addrs else snd addrs) cfg s = Some (demod, s1)"
    using run False by (auto simp: dualhd_attach_def Let_def bind_eq_Some_conv)
  from d n show ?thesis
  proof (cases rule: bind_chip_cases)
    case None
    then show ?thesis
      using run False d by (auto simp: dualhd_attach_def Let_def intro!: attach_refused_ok)
  next
    case (Some c)
    show ?thesis
    proof (cases "ch_fe_back chips s1 = None \<or> ch_muxed_adap chips s1 = None")
      case True
      then have "r = (- EIO, nothing_attached, unbind chips c s1)"
        using run False d Some by (auto simp: dualhd_attach_def Let_def split: option.splits)
      then show ?thesis using attach_undone_ok [OF n Some(2,3)] by simp
    next
      case fe: False
      then show ?thesis
        using run False d Some attach_tuner_ok [OF n Some(2,3)]
        by (auto simp: dualhd_attach_def Let_def bind_eq_Some_conv)
    qed
  qed
qed

lemma xbox_one_attach_ok:
  assumes n: "counts_clients chips n" and run: "xbox_one_attach chips adap i s = Some r"
  shows "attach_ok chips n s r"
proof (cases "i = 0")
  case False
  then show ?thesis using run by (auto simp: xbox_one_attach_def intro!: attach_refused_ok)
next
  case True
  obtain demod s1 where d: "bind_chip chips adap ''mn88472'' 0x18
      (Mn88472 \<lparr>mn_xtal = 20500000, mn_ts_mode_parallel = True, mn_ts_clock_fixed = True,
               mn_i2c_wr_max = 22\<rparr>) s = Some (demod, s1)"
    using run True by (auto simp: xbox_one_attach_def bind_eq_Some_conv)
  from d n show ?thesis
  proof (cases rule: bind_chip_cases)
    case None
    then show ?thesis using run True d by (auto simp: xbox_one_attach_def intro!: attach_refused_ok)
  next
    case (Some c)
    show ?thesis
    proof (cases "ch_fe_back chips s1")
      case None
      then have "r = (- EIO, nothing_attached, unbind chips c s1)"
        using run True d Some by (simp add: xbox_one_attach_def)
      then show ?thesis using attach_undone_ok [OF n Some(2,3)] by simp
    next
      case fe: (Some fe)
      obtain tuner s2 where t: "bind_chip chips adap ''tda18250'' 0x60
          (Tda18250 \<lparr>tda_if_dvbt = (3950, 4450, 4950), tda_if_dvbc = (4950, 4950), tda_if_atsc = 4079,
                    tda_loopthrough = True, tda_xtal_mhz = 27, tda_fe = fe\<rparr>) s1 = Some (tuner, s2)"
        using run True d Some fe by (auto simp: xbox_one_attach_def bind_eq_Some_conv)
      have "r = (case tuner of None \<Rightarrow> (- EIO, nothing_attached, unbind chips c s2)
          | Some t \<Rightarrow> (0, \<lparr>at_demod = Some c, at_fe = Some fe, at_tuner = Some t\<rparr>, s2))"
        using run True d Some fe t by (simp add: xbox_one_attach_def split: option.splits)
      then show ?thesis using attach_tuner_ok [OF n Some(2,3) t] by simp
    qed
  qed
qed

lemma attach_si2168_ok:
  assumes n: "counts_clients chips n" and run: "attach_si2168 chips adap man s = Some (rc, x, s')"
  shows "case x of None \<Rightarrow> rc < 0 \<and> n s' = n s | Some (fe, mux, c) \<Rightarrow> bound_client chips c \<and> n s' = n s + 1"
proof -
  obtain demod s1 where d: "bind_chip chips adap ''si2168'' 0x64
      (Si2168 \<lparr>si_ts_mode = SI2168_TS_PARALLEL, si_ts_clk_manual = man, si_ts_clock_inv = True,
               si_ts_clock_gapped = False, si_spectral_inversion = False\<rparr>) s = Some (demod, s1)"
    using run by (auto simp: attach_si2168_def bind_eq_Some_conv)
  from d n show ?thesis
  proof (cases rule: bind_chip_cases)
    case None
    then show ?thesis using run d by (simp add: attach_si2168_def)
  next
    case (Some c)
    then show ?thesis
      using run d unbind_spec [OF Some(2) n] by (auto simp: attach_si2168_def split: option.splits)
  qed
qed

lemma t230_like_attach_ok:
  assumes n: "counts_clients chips n" and run: "t230_like_attach man ty port chips adap i s = Some r"
  shows "attach_ok chips n s r"
proof (cases "i = 0")
  case False
  then show ?thesis using run by (auto simp: t230_like_attach_def intro!: attach_refused_ok)
next
  case True
  obtain rc x s1 where d: "attach_si2168 chips adap man s = Some (rc, x, s1)"
    using run True by (auto simp: t230_like_attach_def bind_eq_Some_conv)
  note d_ok = attach_si2168_ok [OF n d]
  show ?thesis
  proof (cases x)
    case None
    then show ?thesis using run True d d_ok by (auto simp: t230_like_attach_def intro!: attach_refused_ok)
  next
    case (Some p)
    obtain fe mux c where p: "p = (fe, mux, c)" by (cases p)
    have c: "bound_client chips c" "n s1 = n s + 1" using d_ok Some p by simp_all
    obtain tuner s2 where t: "bind_chip chips (Some mux) ty 0x60
        (Si2157 \<lparr>sit_fe = fe, sit_inversion = False, sit_dont_load_firmware = False,
                sit_if_port = word_of_int port\<rparr>) s1 = Some (tuner, s2)"
      using run True d Some p
      by (auto simp: t230_like_attach_def attach_tuner_si2157_like_def bind_eq_Some_conv)
    have "r = (case tuner of None \<Rightarrow> (- EIO, nothing_attached, unbind chips c s2)
        | Some t \<Rightarrow> (0, \<lparr>at_demod = Some c, at_fe = Some fe, at_tuner = Some t\<rparr>, s2))"
      using run True d Some p t
      by (auto simp: t230_like_attach_def attach_tuner_si2157_like_def split: option.splits)
    then show ?thesis using attach_tuner_ok [OF n c t] by simp
  qed
qed

lemmas attach_fns = wintv_dualhd_dvb_attach_def wintv_dualhd_atsc_attach_def t230_attach_def
  t230c_attach_def t230c2_attach_def

lemma attach_functions_ok:
  assumes "counts_clients chips n"
    and "attach \<in> {wintv_dualhd_dvb_attach, wintv_dualhd_atsc_attach, xbox_one_attach, t230_attach,
                   t230c_attach, t230c2_attach}"
    and "attach chips adap i s = Some r"
  shows "attach_ok chips n s r"
  using assms
  by (auto simp: attach_fns intro: dualhd_attach_ok xbox_one_attach_ok t230_like_attach_ok)

subsection \<open>The ids of the tables\<close>

text \<open>As numbers.\<close>

definition em28xx_ids :: "(u16 \<times> u16) list" where
  "em28xx_ids = [(0x2040, 0x0265), (0x2040, 0x026d), (0x2040, 0x826d), (0x2040, 0x826e), (0x2040, 0x826f),
     (0x2040, 0x8270), (0x2040, 0x8271)]"

definition dib0700_ids :: "(u16 \<times> u16) list" where
  "dib0700_ids = [(0x045e, 0x02d5)]"

definition dvbsky_ids :: "(u16 \<times> u16) list" where
  "dvbsky_ids = [(0x0572, 0xc688), (0x0572, 0xc689), (0x0572, 0xc68a)]"

abbreviation spell_ids :: "(u16 \<times> u16) list \<Rightarrow> string list" where
  "spell_ids \<equiv> map (\<lambda>(v, p). format_vidpid v p)"

lemma em28xx_vidpids:
  "concat (map b_vidpids (em28xx_board_table :: ('s, 'fe) em28xx_board list)) = spell_ids em28xx_ids"
  by (simp add: em28xx_ids_def board_tables format_vidpid_def hex4_def hex_char_def Let_def char_of_def bit_0)

lemma dib0700_vidpids:
  "concat (map b_vidpids (dib0700_board_table :: ('s, 'fe) dib0700_board list)) = spell_ids dib0700_ids"
  by (simp add: dib0700_ids_def board_tables format_vidpid_def hex4_def hex_char_def Let_def char_of_def bit_0)

lemma dvbsky_vidpids:
  "concat (map b_vidpids (dvbsky_board_table :: ('s, 'fe) dvbsky_board list)) = spell_ids dvbsky_ids"
  by (simp add: dvbsky_ids_def board_tables format_vidpid_def hex4_def hex_char_def Let_def char_of_def bit_0)

lemma supported_vidpids:
  "concat (map sb_vidpids dvb_em28xx_supported_boards) = spell_ids em28xx_ids"
  "concat (map sb_vidpids dvb_dib0700_supported_boards) = spell_ids dib0700_ids"
  "concat (map sb_vidpids dvb_dvbsky_supported_boards) = spell_ids dvbsky_ids"
  using em28xx_vidpids dib0700_vidpids dvbsky_vidpids
  by (simp_all add: dvb_em28xx_supported_boards_def dvb_dib0700_supported_boards_def
      dvb_dvbsky_supported_boards_def supported_row_def board_tables)

lemma distinct_board_ids: "distinct (em28xx_ids @ dib0700_ids @ dvbsky_ids)"
  by (simp add: em28xx_ids_def dib0700_ids_def dvbsky_ids_def)

lemma in_spell_ids [simp]: "format_vidpid v p \<in> set (spell_ids ids) \<longleftrightarrow> (v, p) \<in> set ids"
  by (auto simp: format_vidpid_inject)

text \<open>A lookup succeeds exactly for the ids of the table.\<close>

lemma find_board_by_ids:
  assumes "concat (map b_vidpids table) = spell_ids ids"
  shows "find_board_by_vidpid table (Some (format_vidpid v p)) \<noteq> None \<longleftrightarrow> (v, p) \<in> set ids"
proof -
  have "find_board_by_vidpid table (Some (format_vidpid v p)) \<noteq> None
      \<longleftrightarrow> format_vidpid v p \<in> set (concat (map b_vidpids table))"
    by (simp only: find_board_by_vidpid_def option.case find_board_in_None) auto
  then show ?thesis by (simp only: assms in_spell_ids)
qed

text \<open>C34: No board's attach function leaves a bound client behind. Whatever the chip drivers are, as long as
  a successful probe binds one client and a remove releases one: an attach function of the three
  tables that fails has handed out nothing and left as many clients bound as before; one that
  succeeds has bound exactly two, and hands out the demodulator, its frontend and the tuner.\<close>
theorem attach_leaves_no_client:
  assumes chips: "counts_clients chips n"
    and attach: "attach \<in> set (map b_attach em28xx_board_table @ map b_attach dib0700_board_table @
                     map b_attach dvbsky_board_table)"
    and run: "attach chips adap i s = Some r"
  shows "attach_ok chips n s r"
  using attach by (intro attach_functions_ok [of chips n attach, OF chips _ run]) (auto simp: board_tables)

text \<open>Two drivers on a state that counts the bound clients; the tuner's probe fails once three are
  bound.\<close>

definition counting_driver :: "nat \<Rightarrow> string \<Rightarrow> nat \<Rightarrow> (nat, 'p) i2c_driver" where
  "counting_driver k name limit =
     \<lparr>drv_id = k, drv_name = Some name,
      drv_probe = Some (\<lambda>c s. Some (if s < limit then (0, c, s + 1) else (- ENODEV, c, s))),
      drv_remove = Some (\<lambda>c s. s - 1), drv_ids = None\<rparr>"

definition counting_chips :: "(nat, nat) chips" where
  "counting_chips =
     \<lparr>ch_drivers = [counting_driver 1 ''mn88472'' 100, counting_driver 2 ''tda18250'' 3],
      ch_alloc = (\<lambda>s. True), ch_fe_back = (\<lambda>s. Some s), ch_muxed_adap = (\<lambda>s. None)\<rparr>"

lemma counting_chips_ok: "counts_clients counting_chips id"
  by (auto simp: counts_clients_def counting_chips_def counting_driver_def)

lemma attach_leaves_no_client_witness:
  "attach_ok counting_chips id 2
     (the (xbox_one_attach counting_chips (Some (\<lambda>ms s. Some (0, ms, s))) 0 2)) \<and>
   xbox_one_attach counting_chips (Some (\<lambda>ms s. Some (0, ms, s))) 0 2
     = Some (- EIO, nothing_attached, 2)"
proof -
  have run: "xbox_one_attach counting_chips (Some (\<lambda>ms s. Some (0, ms, s))) 0 2
      = Some (- EIO, nothing_attached, 2)"
    by (simp add: xbox_one_attach_def bind_chip_def i2c_new_client_device_def alloc_client_def strscpy_def
        counting_chips_def counting_driver_def same_name_def I2C_NAME_SIZE_def i2c_client_has_driver_def
        i2c_unregister_device_def Let_def)
  have "attach_ok counting_chips id 2 (- EIO, nothing_attached, 2)"
    by (rule attach_leaves_no_client [of counting_chips id xbox_one_attach, OF counting_chips_ok _ run]) (simp add: board_tables)
  then show ?thesis using run by simp
qed

end
