(* ===== verification/Hotplug.thy ===== *)
theory Hotplug
  imports Bounded_Fifo Boards
begin

text \<open>
  The hotplug module (\<open>dvb_hotplug/src/dvb_hotplug.c\<close>): the filter that maps a device to the bridge that
  drives it, the callback libusb runs for an arrival or a departure, the bounded event queue with its
  wake-up writes, and the module's lifecycle on the references of \<open>usbq\<close>.

  The queue's indices are C \<open>uint32_t\<close> below 65 and are naturals here. A registration with
  \<open>LIBUSB_HOTPLUG_ENUMERATE\<close> runs the callback for the devices already present before it returns; they
  are the \<open>r_devs\<close> of its response. The queue is the second provider of the contract \<open>bounded_fifo\<close>.
\<close>

datatype dvb_hotplug_kind = DVB_HOTPLUG_ARRIVED | DVB_HOTPLUG_LEFT

datatype dvb_hotplug_bridge =
  DVB_HOTPLUG_BRIDGE_UNKNOWN | DVB_HOTPLUG_BRIDGE_EM28XX | DVB_HOTPLUG_BRIDGE_DIB0700
  | DVB_HOTPLUG_BRIDGE_DVBSKY

record dvb_hotplug_event =
  hev_kind :: dvb_hotplug_kind
  hev_bridge :: dvb_hotplug_bridge
  hev_bus :: u8
  hev_devaddr :: u8
  hev_vid :: u16
  hev_pid :: u16

definition HP_QUEUE_CAP :: nat where "HP_QUEUE_CAP = 64"

record hp_state =
  hp_initialized :: bool
  hp_wake_fd :: int
  hp_acquired_evt :: bool
  hp_cb_handle :: nat
  hp_queue :: "dvb_hotplug_event list"
  hp_q_head :: nat
  hp_q_tail :: nat
  hp_q_used :: nat

definition zero_event :: dvb_hotplug_event where
  "zero_event = \<lparr>hev_kind = DVB_HOTPLUG_ARRIVED, hev_bridge = DVB_HOTPLUG_BRIDGE_UNKNOWN, hev_bus = 0,
                 hev_devaddr = 0, hev_vid = 0, hev_pid = 0\<rparr>"

definition hp_start :: hp_state where
  "hp_start = \<lparr>hp_initialized = False, hp_wake_fd = -1, hp_acquired_evt = False, hp_cb_handle = 0,
               hp_queue = replicate HP_QUEUE_CAP zero_event, hp_q_head = 0, hp_q_tail = 0, hp_q_used = 0\<rparr>"

subsection \<open>The filter\<close>

text \<open>\<open>sscanf(s, "%x:%x", ...)\<close>; unlike \<open>parse_vidpid\<close>, what follows the second number is not looked at.\<close>

definition vidpid_parse :: "string \<Rightarrow> (u16 \<times> u16) option" where
  "vidpid_parse s =
     (case scan_x s of
        Some (v, c # s2) \<Rightarrow>
          if c \<noteq> CHR '':'' then None
          else
            (case scan_x s2 of
               None \<Rightarrow> None
             | Some (p, _) \<Rightarrow> if v > 0xFFFF \<or> p > 0xFFFF then None else Some (ucast v, ucast p))
      | _ \<Rightarrow> None)"

fun bridge_in :: "u16 \<Rightarrow> u16 \<Rightarrow> (dvb_supported_board list \<times> dvb_hotplug_bridge) list \<Rightarrow> dvb_hotplug_bridge"
where
  "bridge_in vid pid [] = DVB_HOTPLUG_BRIDGE_UNKNOWN"
| "bridge_in vid pid ((boards, tag) # ts) =
     (if list_ex (\<lambda>b. list_ex (\<lambda>s. vidpid_parse s = Some (vid, pid)) (sb_vidpids b)) boards then tag
      else bridge_in vid pid ts)"

definition bridge_for_vidpid :: "u16 \<Rightarrow> u16 \<Rightarrow> dvb_hotplug_bridge" where
  "bridge_for_vidpid vid pid =
     bridge_in vid pid [(dvb_em28xx_supported_boards, DVB_HOTPLUG_BRIDGE_EM28XX),
                        (dvb_dib0700_supported_boards, DVB_HOTPLUG_BRIDGE_DIB0700),
                        (dvb_dvbsky_supported_boards, DVB_HOTPLUG_BRIDGE_DVBSKY)]"

subsection \<open>Queue and wake\<close>

text \<open>The part of \<open>enqueue_and_wake\<close> under the lock.\<close>

definition hp_enqueue :: "hp_state \<Rightarrow> dvb_hotplug_event \<Rightarrow> hp_state" where
  "hp_enqueue hp ev =
     (let hp = (if hp_q_used hp = HP_QUEUE_CAP
                then hp\<lparr>hp_q_head := (hp_q_head hp + 1) mod HP_QUEUE_CAP, hp_q_used := hp_q_used hp - 1\<rparr>
                else hp)
      in hp\<lparr>hp_queue := (hp_queue hp)[hp_q_tail hp := ev],
            hp_q_tail := (hp_q_tail hp + 1) mod HP_QUEUE_CAP, hp_q_used := hp_q_used hp + 1\<rparr>)"

definition enqueue_and_wake :: "dvb_hotplug_event \<Rightarrow> hp_state \<Rightarrow> wire \<Rightarrow> hp_state \<times> wire" where
  "enqueue_and_wake ev hp w =
     (let hp = hp_enqueue hp ev; fd = hp_wake_fd hp
      in (hp, if fd \<ge> 0 then w @ [Write_Fd fd] else w))"

definition hotplug_cb :: "devinfo \<Rightarrow> bool \<Rightarrow> hp_state \<Rightarrow> wire \<Rightarrow> hp_state \<times> wire" where
  "hotplug_cb dev arrived hp w =
     (if di_desc_rc dev \<noteq> 0 then (hp, w)
      else
        let bridge = bridge_for_vidpid (di_vid dev) (di_pid dev)
        in if bridge = DVB_HOTPLUG_BRIDGE_UNKNOWN then (hp, w)
           else enqueue_and_wake
                  \<lparr>hev_kind = (if arrived then DVB_HOTPLUG_ARRIVED else DVB_HOTPLUG_LEFT), hev_bridge = bridge,
                   hev_bus = di_bus dev, hev_devaddr = di_addr dev, hev_vid = di_vid dev,
                   hev_pid = di_pid dev\<rparr> hp w)"

text \<open>A run of callbacks, in libusb's order.\<close>

fun hotplug_deliver :: "(devinfo \<times> bool) list \<Rightarrow> hp_state \<Rightarrow> wire \<Rightarrow> hp_state \<times> wire" where
  "hotplug_deliver [] hp w = (hp, w)"
| "hotplug_deliver (e # es) hp w =
     (let (hp, w) = hotplug_cb (fst e) (snd e) hp w in hotplug_deliver es hp w)"

subsection \<open>Lifecycle\<close>

definition hp_reset_queue :: "hp_state \<Rightarrow> hp_state" where
  "hp_reset_queue hp = hp\<lparr>hp_q_head := 0, hp_q_tail := 0, hp_q_used := 0\<rparr>"

definition dvb_hotplug_init :: "host \<Rightarrow> int \<Rightarrow> hp_state \<Rightarrow> usbq_lib \<Rightarrow> wire \<Rightarrow> int \<times> hp_state \<times> usbq_lib \<times> wire"
where
  "dvb_hotplug_init env wake_fd hp g w =
     (if wake_fd < 0 then (- EINVAL, hp, g, w)
      else if hp_initialized hp then (- EBUSY, hp, g, w)
      else
        let hp = (hp_reset_queue hp)\<lparr>hp_wake_fd := wake_fd\<rparr>;
            (rc, g, w) = usbq_init env g w
        in if rc \<noteq> 0 then (- EIO, hp, g, w)
           else
             let (r, w) = ask env Has_Hotplug w
             in if r_rc r = 0
                then let (g, w) = usbq_shutdown g w in (- ENOTSUP, hp\<lparr>hp_wake_fd := -1\<rparr>, g, w)
                else
                  let (rc, g, w) = usbq_evt_acquire env g w
                  in if rc \<noteq> 0
                     then let (g, w) = usbq_shutdown g w in (rc, hp\<lparr>hp_wake_fd := -1\<rparr>, g, w)
                     else
                       let (r, w) = ask env Hotplug_Register w;
                           (hp, w) = hotplug_deliver (map (\<lambda>d. (d, True)) (r_devs r)) hp w;
                           hp = hp\<lparr>hp_cb_handle := r_handle r\<rparr>
                       in if r_rc r \<noteq> 0
                          then let (g, w) = usbq_evt_release g w; (g, w) = usbq_shutdown g w
                               in (r_rc r, hp\<lparr>hp_wake_fd := -1\<rparr>, g, w)
                          else (0, hp\<lparr>hp_initialized := True, hp_acquired_evt := True\<rparr>, g, w))"

definition dvb_hotplug_pop :: "bool \<Rightarrow> hp_state \<Rightarrow> int \<times> dvb_hotplug_event option \<times> hp_state" where
  "dvb_hotplug_pop has_out hp =
     (if \<not> has_out then (- EINVAL, None, hp)
      else if \<not> hp_initialized hp then (- EINVAL, None, hp)
      else if hp_q_used hp = 0 then (0, None, hp)
      else (1, Some (hp_queue hp ! hp_q_head hp),
            hp\<lparr>hp_q_head := (hp_q_head hp + 1) mod HP_QUEUE_CAP, hp_q_used := hp_q_used hp - 1\<rparr>))"

definition dvb_hotplug_shutdown :: "hp_state \<Rightarrow> usbq_lib \<Rightarrow> wire \<Rightarrow> hp_state \<times> usbq_lib \<times> wire" where
  "dvb_hotplug_shutdown hp g w =
     (if \<not> hp_initialized hp then (hp, g, w)
      else
        let cb = hp_cb_handle hp; acquired = hp_acquired_evt hp;
            hp = hp_reset_queue (hp\<lparr>hp_initialized := False, hp_acquired_evt := False, hp_wake_fd := -1\<rparr>);
            w = w @ [Hotplug_Deregister cb];
            (g, w) = (if acquired then usbq_evt_release g w else (g, w));
            (g, w) = usbq_shutdown g w
        in (hp, g, w))"

subsection \<open>The filter agrees with the engines\<close>

lemma vidpid_parse_format [simp]: "vidpid_parse (format_vidpid vid pid) = Some (vid, pid)"
proof -
  have c: "hex_val (CHR '':'') = None" by (simp add: hex_val_def)
  have "scan_x (format_vidpid vid pid) = Some (ucast vid, CHR '':'' # hex4 pid)"
    using scan_x_hex4 [of "CHR '':'' # hex4 pid" vid] c by (simp add: format_vidpid_def)
  moreover have "scan_x (hex4 pid) = Some (ucast pid, [])"
    using scan_x_hex4 [of "[]" pid] by simp
  ultimately show ?thesis
    using ucast_16_le [of vid] ucast_16_le [of pid] by (simp add: vidpid_parse_def not_less)
qed

lemma lists_id:
  assumes "concat (map sb_vidpids boards) = spell_ids ids"
  shows "list_ex (\<lambda>b. list_ex (\<lambda>s. vidpid_parse s = Some (v, p)) (sb_vidpids b)) boards \<longleftrightarrow> (v, p) \<in> set ids"
proof -
  have "list_ex (\<lambda>b. list_ex (\<lambda>s. vidpid_parse s = Some (v, p)) (sb_vidpids b)) boards
      \<longleftrightarrow> (\<exists>s \<in> set (concat (map sb_vidpids boards)). vidpid_parse s = Some (v, p))"
    by (auto simp: list_ex_iff)
  also have "\<dots> \<longleftrightarrow> (v, p) \<in> set ids"
    unfolding assms by force
  finally show ?thesis .
qed

lemma bridge_for_vidpid_ids:
  "bridge_for_vidpid v p =
     (if (v, p) \<in> set em28xx_ids then DVB_HOTPLUG_BRIDGE_EM28XX
      else if (v, p) \<in> set dib0700_ids then DVB_HOTPLUG_BRIDGE_DIB0700
      else if (v, p) \<in> set dvbsky_ids then DVB_HOTPLUG_BRIDGE_DVBSKY
      else DVB_HOTPLUG_BRIDGE_UNKNOWN)"
  by (simp add: bridge_for_vidpid_def lists_id [OF supported_vidpids(1)]
      lists_id [OF supported_vidpids(2)] lists_id [OF supported_vidpids(3)])

subsection \<open>The queue is a bounded fifo\<close>

definition hp_inv :: "hp_state \<Rightarrow> bool" where
  "hp_inv hp \<longleftrightarrow> length (hp_queue hp) = HP_QUEUE_CAP \<and> hp_q_head hp < HP_QUEUE_CAP \<and>
     hp_q_used hp \<le> HP_QUEUE_CAP \<and> hp_q_tail hp = (hp_q_head hp + hp_q_used hp) mod HP_QUEUE_CAP"

definition hp_events :: "hp_state \<Rightarrow> dvb_hotplug_event list" where
  "hp_events hp = map (\<lambda>i. hp_queue hp ! ((hp_q_head hp + i) mod HP_QUEUE_CAP)) [0..<hp_q_used hp]"

lemma length_hp_events [simp]: "length (hp_events hp) = hp_q_used hp"
  by (simp add: hp_events_def)

lemma nth_hp_events:
  "i < hp_q_used hp \<Longrightarrow> hp_events hp ! i = hp_queue hp ! ((hp_q_head hp + i) mod HP_QUEUE_CAP)"
  by (simp add: hp_events_def)

lemma cap_pos [simp]: "0 < HP_QUEUE_CAP" "HP_QUEUE_CAP \<noteq> 0"
  by (simp_all add: HP_QUEUE_CAP_def)

lemma hp_inv_start: "hp_inv hp_start"
  by (simp add: hp_inv_def hp_start_def)

lemma hp_inv_fields [simp]:
  "hp_inv (hp\<lparr>hp_initialized := b\<rparr>) = hp_inv hp" "hp_inv (hp\<lparr>hp_wake_fd := fd\<rparr>) = hp_inv hp"
  "hp_inv (hp\<lparr>hp_acquired_evt := b\<rparr>) = hp_inv hp" "hp_inv (hp\<lparr>hp_cb_handle := h\<rparr>) = hp_inv hp"
  by (simp_all add: hp_inv_def)

lemma hp_events_fields [simp]:
  "hp_events (hp\<lparr>hp_initialized := b\<rparr>) = hp_events hp" "hp_events (hp\<lparr>hp_wake_fd := fd\<rparr>) = hp_events hp"
  "hp_events (hp\<lparr>hp_acquired_evt := b\<rparr>) = hp_events hp" "hp_events (hp\<lparr>hp_cb_handle := h\<rparr>) = hp_events hp"
  by (simp_all add: hp_events_def)

text \<open>Dropping the oldest slot.\<close>

definition hp_drop :: "hp_state \<Rightarrow> hp_state" where
  "hp_drop hp = hp\<lparr>hp_q_head := (hp_q_head hp + 1) mod HP_QUEUE_CAP, hp_q_used := hp_q_used hp - 1\<rparr>"

lemma hp_drop_inv: "hp_inv hp \<Longrightarrow> 0 < hp_q_used hp \<Longrightarrow> hp_inv (hp_drop hp)"
  by (cases "hp_q_used hp") (simp_all add: hp_inv_def hp_drop_def mod_simps)

lemma hp_drop_events:
  assumes "0 < hp_q_used hp"
  shows "hp_events (hp_drop hp) = tl (hp_events hp)"
  by (rule nth_equalityI) (simp_all add: hp_drop_def nth_tl nth_hp_events mod_simps)

lemma hp_put_events:
  assumes inv: "hp_inv hp" and room: "hp_q_used hp < HP_QUEUE_CAP"
  shows "hp_events (hp\<lparr>hp_queue := (hp_queue hp)[hp_q_tail hp := ev],
            hp_q_tail := (hp_q_tail hp + 1) mod HP_QUEUE_CAP, hp_q_used := hp_q_used hp + 1\<rparr>)
          = hp_events hp @ [ev]"
proof (rule nth_equalityI)
  fix i assume i: "i < length (hp_events (hp\<lparr>hp_queue := (hp_queue hp)[hp_q_tail hp := ev],
            hp_q_tail := (hp_q_tail hp + 1) mod HP_QUEUE_CAP, hp_q_used := hp_q_used hp + 1\<rparr>))"
  let ?h = "hp_q_head hp"
  have len: "length (hp_queue hp) = HP_QUEUE_CAP" and h: "?h < HP_QUEUE_CAP"
    and t: "hp_q_tail hp = (?h + hp_q_used hp) mod HP_QUEUE_CAP"
    using inv by (simp_all add: hp_inv_def)
  show "hp_events (hp\<lparr>hp_queue := (hp_queue hp)[hp_q_tail hp := ev],
            hp_q_tail := (hp_q_tail hp + 1) mod HP_QUEUE_CAP, hp_q_used := hp_q_used hp + 1\<rparr>) ! i
      = (hp_events hp @ [ev]) ! i"
  proof (cases "i = hp_q_used hp")
    case True
    then show ?thesis by (simp add: nth_hp_events nth_append t len)
  next
    case False
    then have lt: "i < hp_q_used hp" using i by simp
    have "(?h + hp_q_used hp) mod HP_QUEUE_CAP \<noteq> (?h + i) mod HP_QUEUE_CAP"
      using mod_add_wrap [OF h, of i] mod_add_wrap [OF h, of "hp_q_used hp"] lt room h by auto
    then show ?thesis using lt by (simp add: nth_hp_events nth_append t)
  qed
qed simp

lemma hp_put_inv:
  "hp_inv hp \<Longrightarrow> hp_q_used hp < HP_QUEUE_CAP \<Longrightarrow>
     hp_inv (hp\<lparr>hp_queue := (hp_queue hp)[hp_q_tail hp := ev],
            hp_q_tail := (hp_q_tail hp + 1) mod HP_QUEUE_CAP, hp_q_used := hp_q_used hp + 1\<rparr>)"
  by (simp add: hp_inv_def mod_simps)

lemma hp_enqueue_eq:
  "hp_enqueue hp ev =
     (let hp = (if hp_q_used hp = HP_QUEUE_CAP then hp_drop hp else hp)
      in hp\<lparr>hp_queue := (hp_queue hp)[hp_q_tail hp := ev],
            hp_q_tail := (hp_q_tail hp + 1) mod HP_QUEUE_CAP, hp_q_used := hp_q_used hp + 1\<rparr>)"
  by (simp add: hp_enqueue_def hp_drop_def Let_def)

lemma hp_enqueue_spec:
  assumes inv: "hp_inv hp"
  shows "hp_inv (hp_enqueue hp ev) \<and> hp_events (hp_enqueue hp ev) = newest HP_QUEUE_CAP (hp_events hp @ [ev])"
proof (cases "hp_q_used hp = HP_QUEUE_CAP")
  case True
  then have d: "hp_inv (hp_drop hp)" "hp_events (hp_drop hp) = tl (hp_events hp)"
    "hp_q_used (hp_drop hp) < HP_QUEUE_CAP"
    using hp_drop_inv [OF inv] hp_drop_events [of hp] by (simp_all add: hp_drop_def)
  have "hp_events hp \<noteq> []" using True by (simp flip: length_0_conv)
  moreover have "Suc 0 - HP_QUEUE_CAP = 0" by (simp add: HP_QUEUE_CAP_def)
  ultimately have "newest HP_QUEUE_CAP (hp_events hp @ [ev]) = tl (hp_events hp) @ [ev]"
    using True by (simp add: newest_def drop_Suc)
  then show ?thesis
    using True hp_put_inv [OF d(1,3)] hp_put_events [OF d(1,3)] by (simp add: hp_enqueue_eq Let_def d(2))
next
  case False
  then have room: "hp_q_used hp < HP_QUEUE_CAP" using inv by (simp add: hp_inv_def)
  then show ?thesis
    using hp_put_inv [OF inv room] hp_put_events [OF inv room] by (simp add: hp_enqueue_eq Let_def)
qed

definition hp_live :: "hp_state \<Rightarrow> bool" where
  "hp_live hp \<longleftrightarrow> hp_inv hp \<and> hp_initialized hp"

definition hp_dequeue :: "hp_state \<Rightarrow> unit \<Rightarrow> dvb_hotplug_event list \<times> hp_state" where
  "hp_dequeue hp n =
     (let (rc, ev, hp) = dvb_hotplug_pop True hp in (case ev of None \<Rightarrow> [] | Some e \<Rightarrow> [e], hp))"

lemma hp_dequeue_eq:
  assumes "hp_live hp"
  shows "hp_dequeue hp n = (take 1 (hp_events hp), if hp_q_used hp = 0 then hp else hp_drop hp)"
proof (cases "hp_q_used hp")
  case 0
  then show ?thesis
    using assms by (simp add: hp_dequeue_def dvb_hotplug_pop_def hp_live_def hp_events_def)
next
  case (Suc k)
  then have "take 1 (hp_events hp) = [hp_events hp ! 0]"
    by (cases "hp_events hp") (simp_all flip: length_0_conv)
  then show ?thesis
    using assms Suc
    by (simp add: hp_dequeue_def dvb_hotplug_pop_def hp_live_def hp_drop_def nth_hp_events hp_inv_def)
qed

lemma hp_dequeue_rest:
  assumes "hp_live hp"
  shows "hp_live (snd (hp_dequeue hp n)) \<and> hp_events (snd (hp_dequeue hp n)) = drop 1 (hp_events hp)"
proof (cases "hp_q_used hp = 0")
  case True
  then have "hp_events hp = []" by (simp add: hp_events_def)
  then show ?thesis using assms True by (simp add: hp_dequeue_eq)
next
  case False
  then show ?thesis
    using assms hp_drop_inv [of hp] hp_drop_events [of hp]
    by (simp add: hp_dequeue_eq hp_live_def drop_Suc) (simp add: hp_drop_def)
qed

lemma hp_enqueue_initialized [simp]:
  "hp_initialized (hp_enqueue hp ev) = hp_initialized hp" "hp_wake_fd (hp_enqueue hp ev) = hp_wake_fd hp"
  "hp_acquired_evt (hp_enqueue hp ev) = hp_acquired_evt hp" "hp_cb_handle (hp_enqueue hp ev) = hp_cb_handle hp"
  by (simp_all add: hp_enqueue_def Let_def)

lemma hp_enqueue_live:
  "hp_live hp \<Longrightarrow> hp_live (hp_enqueue hp ev)"
  using hp_enqueue_spec by (simp add: hp_live_def)

lemma hp_reset_queue_spec:
  "hp_inv hp \<Longrightarrow> hp_inv (hp_reset_queue hp) \<and> hp_events (hp_reset_queue hp) = []"
  by (simp add: hp_inv_def hp_reset_queue_def hp_events_def)

interpretation hotplug_queue: bounded_fifo hp_enqueue hp_dequeue hp_reset_queue "\<lambda>e. [e]" "\<lambda>_. 1"
    hp_events "\<lambda>_. HP_QUEUE_CAP" "\<lambda>hp _. hp_q_used hp < HP_QUEUE_CAP" hp_live
proof unfold_locales
  fix hp n ev
  assume live: "hp_live hp"
  then have inv: "hp_inv hp" by (simp add: hp_live_def)
  show "hp_live (hp_enqueue hp ev)" by (rule hp_enqueue_live [OF live])
  show "hp_events (hp_enqueue hp ev) = newest HP_QUEUE_CAP (hp_events hp @ [ev])"
    using hp_enqueue_spec [OF inv] by simp
  show "hp_live (snd (hp_dequeue hp n))" "hp_events (snd (hp_dequeue hp n)) = drop 1 (hp_events hp)"
    using hp_dequeue_rest [OF live] by simp_all
  show "fst (hp_dequeue hp n) = take 1 (hp_events hp)" by (simp add: hp_dequeue_eq [OF live])
  show "hp_live (hp_reset_queue hp)" "hp_events (hp_reset_queue hp) = []"
    using hp_reset_queue_spec [OF inv] live by (simp_all add: hp_live_def) (simp add: hp_reset_queue_def)
  show "length (hp_events hp) \<le> HP_QUEUE_CAP" using inv by (simp add: hp_inv_def)
qed simp_all

subsection \<open>What deliveries leave\<close>

definition event_of :: "devinfo \<times> bool \<Rightarrow> dvb_hotplug_event option" where
  "event_of e =
     (if di_desc_rc (fst e) \<noteq> 0 \<or>
         bridge_for_vidpid (di_vid (fst e)) (di_pid (fst e)) = DVB_HOTPLUG_BRIDGE_UNKNOWN then None
      else Some \<lparr>hev_kind = (if snd e then DVB_HOTPLUG_ARRIVED else DVB_HOTPLUG_LEFT),
                 hev_bridge = bridge_for_vidpid (di_vid (fst e)) (di_pid (fst e)),
                 hev_bus = di_bus (fst e), hev_devaddr = di_addr (fst e), hev_vid = di_vid (fst e),
                 hev_pid = di_pid (fst e)\<rparr>)"

definition wake_writes :: "int \<Rightarrow> nat \<Rightarrow> usb_req list" where
  "wake_writes fd k = (if fd \<ge> 0 then replicate k (Write_Fd fd) else [])"

lemma hotplug_cb_eq:
  "hotplug_cb (fst e) (snd e) hp w =
     (case event_of e of None \<Rightarrow> (hp, w)
      | Some ev \<Rightarrow> (hp_enqueue hp ev, w @ wake_writes (hp_wake_fd hp) 1))"
  by (simp add: hotplug_cb_def event_of_def enqueue_and_wake_def wake_writes_def Let_def)

lemma hotplug_deliver_spec:
  assumes "hp_inv hp" "hotplug_deliver es hp w = (hp', w')"
  shows "hp_inv hp' \<and> hp_events hp' = newest HP_QUEUE_CAP (hp_events hp @ List.map_filter event_of es) \<and>
     w' = w @ wake_writes (hp_wake_fd hp) (length (List.map_filter event_of es)) \<and>
     hp_wake_fd hp' = hp_wake_fd hp \<and> hp_initialized hp' = hp_initialized hp \<and>
     hp_acquired_evt hp' = hp_acquired_evt hp \<and> hp_cb_handle hp' = hp_cb_handle hp"
  using assms
proof (induction es arbitrary: hp w)
  case Nil
  then have "length (hp_events hp) \<le> HP_QUEUE_CAP" by (simp add: hp_inv_def)
  then show ?case using Nil by (simp add: List.map_filter_simps wake_writes_def)
next
  case (Cons e es)
  show ?case
  proof (cases "event_of e")
    case None
    then show ?thesis using Cons by (simp add: hotplug_cb_eq List.map_filter_simps)
  next
    case (Some ev)
    have run: "hotplug_deliver es (hp_enqueue hp ev) (w @ wake_writes (hp_wake_fd hp) 1) = (hp', w')"
      using Cons.prems(2) Some by (simp add: hotplug_cb_eq)
    have sp: "hp_inv (hp_enqueue hp ev)"
      "hp_events (hp_enqueue hp ev) = newest HP_QUEUE_CAP (hp_events hp @ [ev])"
      using hp_enqueue_spec [OF Cons.prems(1)] by simp_all
    show ?thesis
      using Cons.IH [OF sp(1) run] Some
      by (simp add: sp(2) newest_newest List.map_filter_simps wake_writes_def)
  qed
qed

lemma fifo_run_lifecycle:
  "hp_initialized (snd (fifo_run hp_enqueue hp_dequeue hp ops)) = hp_initialized hp \<and>
   hp_acquired_evt (snd (fifo_run hp_enqueue hp_dequeue hp ops)) = hp_acquired_evt hp \<and>
   hp_cb_handle (snd (fifo_run hp_enqueue hp_dequeue hp ops)) = hp_cb_handle hp"
  by (induction hp ops rule: hotplug_queue.fifo_induct)
     (simp_all add: Let_def hp_dequeue_def dvb_hotplug_pop_def)

lemma hotplug_started:
  assumes g: "refs_inv g" and start: "dvb_hotplug_init env fd hp g w = (0, hp1, g1, w1)"
  shows "hp_initialized hp1 \<and> hp_acquired_evt hp1 \<and> refs_inv g1 \<and>
      refs g1 = (g_init_refcount g + 1, evt_refcount g + 1)"
proof -
  obtain g2 w2 where i: "usbq_init env g w = (0, g2, w2)"
    using start by (auto simp: dvb_hotplug_init_def ask_def Let_def split: if_splits prod.splits)
  obtain w3 where a: "usbq_evt_acquire env g2 (w2 @ [Has_Hotplug]) = (0, g1, w3)"
    and hp1: "hp_initialized hp1" "hp_acquired_evt hp1"
    using start i by (auto simp: dvb_hotplug_init_def ask_def Let_def split: if_splits prod.splits)
  show ?thesis
    using usbq_init_refs [OF g i] usbq_evt_acquire_refs [OF _ a] hp1 by (simp add: refs_def)
qed

text \<open>A host with hotplug support and one supported device plugged in.\<close>

definition hotplug_host :: host where
  "hotplug_host w =
     \<lparr>r_rc = (if w \<noteq> [] \<and> last w = Has_Hotplug then 1 else 0), r_data = [],
      r_devs = [\<lparr>di_vid = 0x045e, di_pid = 0x02d5, di_bus = 1, di_addr = 7, di_desc_rc = 0\<rparr>],
      r_handle = 5, r_fds = (3, 4)\<rparr>"

lemma hotplug_host_starts:
  "\<exists>hp1 g1 w1. dvb_hotplug_init hotplug_host 9 hp_start usbq_lib_start [] = (0, hp1, g1, w1)"
  by (simp add: dvb_hotplug_init_def usbq_init_def usbq_evt_acquire_def ask_def hotplug_host_def
      usbq_lib_start_def hp_start_def hp_reset_queue_def Let_def split: prod.splits)

subsection \<open>Properties\<close>

text \<open>C31: The hotplug filter and the engines agree on every device: the filter sends an event to a bridge
  exactly when that bridge's engine finds a board for the id in the spelling it opens devices by, and
  drops it exactly when none of the three does. (The filter parses the table's strings, the engines
  compare them.)\<close>
theorem hotplug_filter_agrees:
  "(bridge_for_vidpid v p = DVB_HOTPLUG_BRIDGE_EM28XX \<longleftrightarrow>
      find_board_by_vidpid (em28xx_board_table :: ('s, 'fe) em28xx_board list)
        (Some (format_vidpid v p)) \<noteq> None) \<and>
   (bridge_for_vidpid v p = DVB_HOTPLUG_BRIDGE_DIB0700 \<longleftrightarrow>
      find_board_by_vidpid (dib0700_board_table :: ('s, 'fe) dib0700_board list)
        (Some (format_vidpid v p)) \<noteq> None) \<and>
   (bridge_for_vidpid v p = DVB_HOTPLUG_BRIDGE_DVBSKY \<longleftrightarrow>
      find_board_by_vidpid (dvbsky_board_table :: ('s, 'fe) dvbsky_board list)
        (Some (format_vidpid v p)) \<noteq> None)"
proof -
  have d: "set em28xx_ids \<inter> set dib0700_ids = {}" "set em28xx_ids \<inter> set dvbsky_ids = {}"
    "set dib0700_ids \<inter> set dvbsky_ids = {}"
    using distinct_board_ids by auto
  show ?thesis
    unfolding find_board_by_ids [OF em28xx_vidpids] find_board_by_ids [OF dib0700_vidpids]
      find_board_by_ids [OF dvbsky_vidpids] bridge_for_vidpid_ids
    using d by auto
qed

text \<open>C30: The event queue under any run of callbacks and pops: events come out in the order they were
  queued and none is invented or doubled; while no more than 64 are waiting none is lost, and beyond
  that only the oldest go.\<close>
theorem hotplug_queue_fifo:
  assumes "hp_live hp"
  shows "subseq (fst (fifo_run hp_enqueue hp_dequeue hp ops)
           @ hp_events (snd (fifo_run hp_enqueue hp_dequeue hp ops)))
         (hp_events hp @ fifo_pushed (\<lambda>e. [e]) ops) \<and>
     (fifo_fits hp_enqueue hp_dequeue (\<lambda>hp _. hp_q_used hp < HP_QUEUE_CAP) hp ops \<longrightarrow>
        fst (fifo_run hp_enqueue hp_dequeue hp ops)
          @ hp_events (snd (fifo_run hp_enqueue hp_dequeue hp ops))
        = hp_events hp @ fifo_pushed (\<lambda>e. [e]) ops) \<and>
     hp_live (snd (fifo_run hp_enqueue hp_dequeue hp ops)) \<and>
     hp_events (hp_enqueue hp ev) = newest HP_QUEUE_CAP (hp_events hp @ [ev])"
  using hotplug_queue.run_subseq [OF assms] hotplug_queue.run_lossless [OF assms]
    hotplug_queue.run_invar [OF assms] hotplug_queue.push_content [OF assms]
  by simp

lemma hp_live_start: "hp_live (hp_start\<lparr>hp_initialized := True\<rparr>)"
  by (simp add: hp_live_def hp_inv_start)

lemma hotplug_queue_fifo_witness:
  "hp_live (snd (fifo_run hp_enqueue hp_dequeue (hp_start\<lparr>hp_initialized := True\<rparr>)
     [Push zero_event, Pop (), Pop ()]))"
  using hotplug_queue_fifo [OF hp_live_start] by blast

text \<open>A successful start: one reference on the library and one on its event thread are taken, the
  consumer's queue holds exactly the devices of the supported boards that libusb reported as present
  (readable descriptor, in order, as arrivals, the newest 64 of them), nothing of an earlier cycle,
  and one byte was written to the wake descriptor for each of them.\<close>
theorem hotplug_init_present:
  assumes "hp_inv hp" "dvb_hotplug_init env fd hp g w = (0, hp', g', w')"
  shows "\<exists>u present. w' = u @ [Hotplug_Register] @ wake_writes fd (length present) \<and>
     present = List.map_filter event_of (map (\<lambda>d. (d, True)) (r_devs (env (u @ [Hotplug_Register])))) \<and>
     hp_events hp' = newest HP_QUEUE_CAP present \<and> hp_live hp' \<and> hp_wake_fd hp' = fd \<and>
     hp_cb_handle hp' = r_handle (env (u @ [Hotplug_Register])) \<and>
     g_init_refcount g' = g_init_refcount g + 1 \<and> evt_refcount g' = evt_refcount g + 1"
proof -
  let ?hp = "(hp_reset_queue hp)\<lparr>hp_wake_fd := fd\<rparr>"
  obtain g1 w1 where i: "usbq_init env g w = (0, g1, w1)"
    using assms(2) by (auto simp: dvb_hotplug_init_def ask_def Let_def split: if_splits prod.splits)
  obtain g2 w2 where a: "usbq_evt_acquire env g1 (w1 @ [Has_Hotplug]) = (0, g2, w2)"
    using assms(2) i by (auto simp: dvb_hotplug_init_def ask_def Let_def split: if_splits prod.splits)
  obtain hp3 w3 where d: "hotplug_deliver (map (\<lambda>d. (d, True)) (r_devs (env (w2 @ [Hotplug_Register]))))
      ?hp (w2 @ [Hotplug_Register]) = (hp3, w3)"
    by fastforce
  have r: "hp' = hp3\<lparr>hp_cb_handle := r_handle (env (w2 @ [Hotplug_Register])), hp_initialized := True,
      hp_acquired_evt := True\<rparr>" "g' = g2" "w' = w3"
    using assms(2) i a d by (auto simp: dvb_hotplug_init_def ask_def Let_def split: if_splits prod.splits)
  have "hp_inv ?hp" "hp_events ?hp = []"
    using hp_reset_queue_spec [OF assms(1)] by simp_all
  note sp = hotplug_deliver_spec [OF this(1) d, unfolded this(2)]
  have "g_init_refcount g1 = g_init_refcount g + 1" "evt_refcount g1 = evt_refcount g"
    using i by (auto simp: usbq_init_def ask_def Let_def split: if_splits)
  moreover have "g_init_refcount g2 = g_init_refcount g1" "evt_refcount g2 = evt_refcount g1 + 1"
    using a by (auto simp: usbq_evt_acquire_def ask_def Let_def split: if_splits)
  ultimately show ?thesis
    using sp r by (intro exI [of _ w2] exI) (auto simp: hp_live_def)
qed

text \<open>A start that fails changes no reference count, does not change whether the module is initialised
  and, once the library itself had come up, forgets the wake descriptor. While the module is
  initialised a second start is refused and changes nothing.\<close>
theorem hotplug_init_fails_clean:
  assumes g: "refs_inv g" and run: "dvb_hotplug_init env fd hp g w = (rc, hp', g', w')" and rc: "rc \<noteq> 0"
    and hp: "hp_inv hp"
  shows "refs_inv g' \<and> refs g' = refs g \<and> hp_initialized hp' = hp_initialized hp \<and>
     (hp_initialized hp \<longrightarrow> rc \<in> {- EBUSY, - EINVAL} \<and> hp' = hp \<and> w' = w) \<and>
     (hp_wake_fd hp' = -1 \<or> hp' = hp \<or> rc = - EIO)"
proof (cases "fd < 0 \<or> hp_initialized hp")
  case True
  then show ?thesis using g run by (cases "fd < 0") (auto simp: dvb_hotplug_init_def)
next
  case fd: False
  let ?hp = "(hp_reset_queue hp)\<lparr>hp_wake_fd := fd\<rparr>"
  have init: "hp_initialized ?hp = hp_initialized hp" by (simp add: hp_reset_queue_def)
  obtain rc1 g1 w1 where i: "usbq_init env g w = (rc1, g1, w1)" by (cases "usbq_init env g w")
  note ri = usbq_init_refs [OF g i]
  have g0: "0 \<le> g_init_refcount g" "0 \<le> evt_refcount g"
    using g by (simp_all add: refs_inv_def lib_inv_def evt_inv_def)
  show ?thesis
  proof (cases "rc1 = 0")
    case False
    then have "hp' = ?hp" "rc = - EIO" "g' = g1"
      using run fd i by (simp_all add: dvb_hotplug_init_def Let_def)
    then show ?thesis using ri False init fd by simp
  next
    case True
    note i = i [unfolded True]
    have r1: "refs_inv g1" "g_init_refcount g1 = g_init_refcount g + 1" "evt_refcount g1 = evt_refcount g"
      using ri True by (simp_all add: refs_def)
    obtain g2 w2 where s1: "usbq_shutdown g1 (w1 @ [Has_Hotplug]) = (g2, w2)" by fastforce
    obtain rc3 g3 w3 where a: "usbq_evt_acquire env g1 (w1 @ [Has_Hotplug]) = (rc3, g3, w3)"
      by (cases "usbq_evt_acquire env g1 (w1 @ [Has_Hotplug])")
    obtain g4 w4 where s3: "usbq_shutdown g3 w3 = (g4, w4)" by fastforce
    note ra = usbq_evt_acquire_refs [OF r1(1) a]
    consider "r_rc (env (w1 @ [Has_Hotplug])) = 0" | "r_rc (env (w1 @ [Has_Hotplug])) \<noteq> 0" "rc3 \<noteq> 0"
      | "r_rc (env (w1 @ [Has_Hotplug])) \<noteq> 0" "rc3 = 0" by blast
    then show ?thesis
    proof cases
      case 1
      then have "hp' = ?hp\<lparr>hp_wake_fd := -1\<rparr>" "g' = g2"
        using run fd i s1 by (simp_all add: dvb_hotplug_init_def Let_def ask_def)
      then show ?thesis
        using usbq_shutdown_refs [OF r1(1) _ s1] r1 g0 init fd by (simp add: refs_def)
    next
      case 2
      then have "hp' = ?hp\<lparr>hp_wake_fd := -1\<rparr>" "g' = g4"
        using run fd i a s3 by (simp_all add: dvb_hotplug_init_def Let_def ask_def)
      then show ?thesis
        using usbq_shutdown_refs [OF _ _ s3] ra 2 r1 g0 init fd by (simp add: refs_def)
    next
      case 3
      note a = a [unfolded 3(2)]
      let ?u = "w3 @ [Hotplug_Register]"
      obtain hp5 w5 where d: "hotplug_deliver (map (\<lambda>d. (d, True)) (r_devs (env ?u))) ?hp ?u = (hp5, w5)"
        by fastforce
      obtain g6 w6 where e: "usbq_evt_release g3 w5 = (g6, w6)" by fastforce
      obtain g7 w7 where s7: "usbq_shutdown g6 w6 = (g7, w7)" by fastforce
      have "hp_inv ?hp" using hp_reset_queue_spec [OF hp] by simp
      note sp = hotplug_deliver_spec [OF this d]
      have r: "hp' = hp5\<lparr>hp_cb_handle := r_handle (env ?u), hp_wake_fd := -1\<rparr>" "g' = g7"
        using run fd i a 3 d e s7 rc by (auto simp: dvb_hotplug_init_def Let_def ask_def split: if_splits)
      have r3: "refs_inv g3" "g_init_refcount g3 = g_init_refcount g + 1" "evt_refcount g3 = evt_refcount g + 1"
        using ra 3 r1 by (simp_all add: refs_def)
      have r6: "refs_inv g6" "g_init_refcount g6 = g_init_refcount g + 1" "evt_refcount g6 = evt_refcount g"
        using usbq_evt_release_refs [OF r3(1) _ e] r3 g0 by (simp_all add: refs_def)
      show ?thesis
        using usbq_shutdown_refs [OF r6(1) _ s7] r6 r sp init fd g0 by (simp add: refs_def)
    qed
  qed
qed


lemma hotplug_init_present_witness:
  "hp_events (fst (snd (dvb_hotplug_init hotplug_host 9 hp_start usbq_lib_start []))) =
     [\<lparr>hev_kind = DVB_HOTPLUG_ARRIVED, hev_bridge = DVB_HOTPLUG_BRIDGE_DIB0700, hev_bus = 1, hev_devaddr = 7,
       hev_vid = 0x045e, hev_pid = 0x02d5\<rparr>]"
proof -
  obtain hp' g' w' where run: "dvb_hotplug_init hotplug_host 9 hp_start usbq_lib_start [] = (0, hp', g', w')"
    using hotplug_host_starts by blast
  have "event_of (\<lparr>di_vid = 0x045e, di_pid = 0x02d5, di_bus = 1, di_addr = 7, di_desc_rc = 0\<rparr>, True)
      = Some \<lparr>hev_kind = DVB_HOTPLUG_ARRIVED, hev_bridge = DVB_HOTPLUG_BRIDGE_DIB0700, hev_bus = 1,
              hev_devaddr = 7, hev_vid = 0x045e, hev_pid = 0x02d5\<rparr>"
    by (simp add: event_of_def bridge_for_vidpid_ids em28xx_ids_def dib0700_ids_def)
  then show ?thesis
    using hotplug_init_present [OF hp_inv_start run]
    by (auto simp: run hotplug_host_def List.map_filter_simps newest_def HP_QUEUE_CAP_def)
qed

lemma refs_inv_start: "refs_inv usbq_lib_start"
  by (simp add: refs_inv_def lib_inv_start evt_inv_start)

lemma hotplug_init_fails_clean_witness:
  "refs (fst (snd (snd (dvb_hotplug_init one_device_host 9 hp_start usbq_lib_start [])))) = (0, 0)"
proof -
  have run: "dvb_hotplug_init one_device_host 9 hp_start usbq_lib_start []
      = (- ENOTSUP, (hp_reset_queue hp_start)\<lparr>hp_wake_fd := -1\<rparr>, usbq_lib_start, [Lib_Init, Has_Hotplug, Lib_Exit])"
    by (simp add: dvb_hotplug_init_def usbq_init_def usbq_shutdown_def ask_def one_device_host_def
        usbq_lib_start_def hp_start_def hp_reset_queue_def)
  show ?thesis
    using hotplug_init_fails_clean [OF refs_inv_start run] hp_inv_start
    by (simp add: run) (simp add: refs_def usbq_lib_start_def)
qed


end
