(* ===== verification/Tool_Text.thy ===== *)
theory Tool_Text
  imports Prelude
begin

text \<open>
  What the two tools (\<open>tools/dvb_pid_dump.c\<close>, \<open>tools/dvb_devices.c\<close>) print: the conversions of \<open>printf\<close> they use, and
  the texts of their usage and messages. A text is the string of its bytes.
\<close>

subsection \<open>Conversions\<close>

definition newline :: string where "newline = [CHR 0x0A]"
definition dash :: string where "dash = [CHR '' '', CHR 0xE2, CHR 0x80, CHR 0x94, CHR '' '']"

definition quoted :: "string \<Rightarrow> string" where
  "quoted s = [CHR 0x27] @ s @ [CHR 0x27]"

definition pad_right :: "nat \<Rightarrow> string \<Rightarrow> string" where
  "pad_right n s = s @ replicate (n - length s) (CHR '' '')"

text \<open>\<open>%d\<close>, \<open>%03d\<close> of a number that is not negative.\<close>

definition dec_int :: "int \<Rightarrow> string" where
  "dec_int n = (if n < 0 then CHR ''-'' # dec_string (nat (- n)) else dec_string (nat n))"

definition dec_03 :: "nat \<Rightarrow> string" where
  "dec_03 n = replicate (3 - length (dec_string n)) (CHR ''0'') @ dec_string n"

text \<open>\<open>perror\<close>; the words for an error number are the C library's.\<close>

definition perror :: "(int \<Rightarrow> string) \<Rightarrow> string \<Rightarrow> int \<Rightarrow> string" where
  "perror strerror what errno = what @ '': '' @ strerror errno @ newline"

subsection \<open>The dumper\<close>

definition dump_usage :: "string \<Rightarrow> string" where
  "dump_usage argv0 =
     ''usage:'' @ newline @
     ''  '' @ argv0 @ '' --list'' @ newline @
     ''  '' @ argv0 @ '' <dvbt|dvbt2|dvbc|atsc> <freq_hz> <bw_hz> [pids] [duration_s] [idx]'' @ newline @
     newline @
     ''  pids: -1 = pass all (default 0). Single PID, or a'' @ newline @
     ''        comma-separated list like '' @ [CHR 0x22] @ ''0,17,18,5100,5101'' @ [CHR 0x22] @ ''.'' @ newline @
     newline @
     ''Firmware: $FIRMWARE_DIR if set, else /usr/local/lib/firmware,'' @ newline @
     ''          /usr/lib/firmware, /lib/firmware (kernel default).'' @ newline"

text \<open>A division of C's \<open>int\<close> cuts towards zero.\<close>

definition cnr_text :: "int \<Rightarrow> string" where
  "cnr_text x1000 = dec_int (sgn x1000 * (\<bar>x1000\<bar> div 1000)) @ ''.'' @ dec_03 (nat (\<bar>x1000\<bar> mod 1000))"

definition locked_text :: "int \<Rightarrow> string" where
  "locked_text cnr = ''locked, cnr='' @ cnr_text cnr @ '' dB'' @ newline"

definition sync_text :: "nat \<Rightarrow> string" where
  "sync_text off = ''TS sync at offset '' @ dec_string off @ newline"

definition summary_text :: "u64 \<Rightarrow> u64 \<Rightarrow> u64 \<Rightarrow> string \<Rightarrow> int \<Rightarrow> string" where
  "summary_text n matched bad_sync repr seconds =
     ''summary: total='' @ dec_string (unat n) @ '' matched='' @ dec_string (unat matched) @ '' bad_sync=''
       @ dec_string (unat bad_sync) @ '' (filter='' @ repr @ '', '' @ dec_int seconds @ ''s)'' @ newline"

definition index_text :: "int \<Rightarrow> int \<Rightarrow> string" where
  "index_text idx n =
     ''device index '' @ dec_int idx @ '' out of range (have 0..'' @ dec_int (n - 1) @ '')'' @ newline"

subsection \<open>The lister\<close>

definition devices_usage :: "string \<Rightarrow> string" where
  "devices_usage argv0 =
     ''usage:'' @ newline @
     ''  '' @ argv0 @ ''                  # plugged-in devices (default)'' @ newline @
     ''  '' @ argv0 @ '' --supported      # supported board table (no USB scan)'' @ newline @
     ''  '' @ argv0 @ '' --watch          # initial scan, then live hotplug stream'' @ newline"

definition hotplug_failure_text :: "int \<Rightarrow> string" where
  "hotplug_failure_text rc =
     (if rc = - ENOTSUP then ''libusb build has no hotplug support; cannot watch.'' @ newline
      else ''dvb_hotplug_init failed: '' @ dec_int rc @ newline)"

text \<open>Between -1 dB and 0 dB the sign is lost.\<close>

lemma cnr_text_loses_sign: "- 1000 < x \<Longrightarrow> x < 0 \<Longrightarrow> cnr_text x = cnr_text (- x)"
  by (simp add: cnr_text_def sgn_if)

end
