(* ===== verification/Pid_Dump.thy ===== *)
theory Pid_Dump
  imports Tool_Text Dvb_Handle "HOL-Library.Sublist"
begin

text \<open>
  The transport-stream dumper (\<open>tools/dvb_pid_dump.c\<close>), the part that does not touch a device: the
  command-line parsers, the PID filter, the framing of the byte stream into packets and the printed
  filter of the summary.

  The staging buffer is the list of its valid bytes, so \<open>stage_len\<close> is a length, a \<open>memmove\<close> to
  the front is a \<open>drop\<close>, and a read into \<open>stage + stage_len\<close> is an append; that the appended bytes
  fit the buffer is a property. \<open>write\<close> to standard output is a parameter: for a list of packets, \<open>None\<close> when
  the write of the last of them was whole, or the \<open>errno\<close> of the write that was not.
\<close>

definition TS_PACKET :: nat where "TS_PACKET = 188"
definition READ_SZ :: nat where "READ_SZ = 49152"
definition STAGE_SZ :: nat where "STAGE_SZ = READ_SZ + TS_PACKET"
definition MAX_FILTER_PIDS :: nat where "MAX_FILTER_PIDS = 32"

subsection \<open>Parsing arguments\<close>

definition parse_delsys :: "string \<Rightarrow> u32 option" where
  "parse_delsys s =
     (if s = ''dvbt'' then Some SYS_DVBT
      else if s = ''dvbt2'' then Some SYS_DVBT2
      else if s = ''dvbc'' then Some SYS_DVBC_ANNEX_A
      else if s = ''atsc'' then Some SYS_ATSC
      else None)"

text \<open>\<open>strtol(s, &end, 0)\<close> and its kin: blanks, a sign, a base from the prefix, the longest run of
  digits; the value and the rest, or \<open>None\<close> when there is no digit. The saturation of \<open>long\<close> is
  left out: every caller below compares with a bound far below it.\<close>

definition digit_in :: "nat \<Rightarrow> char \<Rightarrow> nat option" where
  "digit_in b c =
     (let n = (of_char c :: nat);
          v = (if 48 \<le> n \<and> n \<le> 57 then n - 48
               else if 97 \<le> n \<and> n \<le> 122 then n - 87
               else if 65 \<le> n \<and> n \<le> 90 then n - 55 else 36)
      in if v < b then Some v else None)"

fun digits_in :: "nat \<Rightarrow> nat \<Rightarrow> string \<Rightarrow> nat \<times> string" where
  "digits_in b acc [] = (acc, [])"
| "digits_in b acc (c # cs) =
     (case digit_in b c of None \<Rightarrow> (acc, c # cs) | Some d \<Rightarrow> digits_in b (b * acc + d) cs)"

definition is_blank :: "char \<Rightarrow> bool" where
  "is_blank c \<longleftrightarrow> c \<in> {CHR '' '', CHR 0x09, CHR 0x0A, CHR 0x0B, CHR 0x0C, CHR 0x0D}"

definition take_sign :: "string \<Rightarrow> bool \<times> string" where
  "take_sign s =
     (case s of
        [] \<Rightarrow> (False, s)
      | c # cs \<Rightarrow> if c = CHR ''-'' then (True, cs) else if c = CHR ''+'' then (False, cs) else (False, s))"

definition take_base :: "string \<Rightarrow> nat \<times> string" where
  "take_base s =
     (case s of
        a # b # c # cs \<Rightarrow>
          if a = CHR ''0'' \<and> (b = CHR ''x'' \<or> b = CHR ''X'') \<and> digit_in 16 c \<noteq> None then (16, c # cs)
          else if a = CHR ''0'' then (8, s) else (10, s)
      | a # _ \<Rightarrow> if a = CHR ''0'' then (8, s) else (10, s)
      | [] \<Rightarrow> (10, s))"

definition strtol0 :: "string \<Rightarrow> (int \<times> string) option" where
  "strtol0 s =
     (let (neg, s) = take_sign (dropWhile is_blank s); (b, s) = take_base s; (n, rest) = digits_in b 0 s
      in if rest = s then None else Some (if neg then - int n else int n, rest))"

lemma digits_in_suffix: "length (snd (digits_in b acc s)) \<le> length s"
  by (induction b acc s rule: digits_in.induct) (auto split: option.splits intro: le_SucI)

lemma digits_in_proper: "snd (digits_in b acc s) \<noteq> s \<Longrightarrow> length (snd (digits_in b acc s)) < length s"
  using digits_in_suffix by (cases s) (auto split: option.splits simp: less_Suc_eq_le)

lemma take_base_length: "length (snd (take_base s)) \<le> length s"
  by (auto simp: take_base_def split: list.splits)

lemma take_sign_length: "length (snd (take_sign s)) \<le> length s"
  by (auto simp: take_sign_def split: list.splits)

lemma strtol0_shorter: "strtol0 s = Some (v, rest) \<Longrightarrow> length rest < length s"
proof -
  assume s: "strtol0 s = Some (v, rest)"
  let ?u = "snd (take_base (snd (take_sign (dropWhile is_blank s))))"
  have "rest = snd (digits_in (fst (take_base (snd (take_sign (dropWhile is_blank s))))) 0 ?u)" "rest \<noteq> ?u"
    using s by (auto simp: strtol0_def Let_def split: prod.splits if_splits)
  then have "length rest < length ?u" using digits_in_proper by blast
  also have "\<dots> \<le> length (dropWhile is_blank s)"
    using take_base_length take_sign_length le_trans by blast
  also have "\<dots> \<le> length s" by (rule length_dropWhile_le)
  finally show ?thesis .
qed

subsection \<open>The PID filter\<close>

record pid_filter =
  pf_pass_all :: bool
  pf_pids :: "u16 list"

text \<open>The loop over the comma-separated list, with the PIDs so far.\<close>

function parse_pids :: "string \<Rightarrow> u16 list \<Rightarrow> u16 list option" where
  "parse_pids p pids =
     (if p = [] then Some pids
      else
        (case strtol0 p of
           None \<Rightarrow> None
         | Some (v, rest) \<Rightarrow>
             if v < 0 \<or> v > 0x1fff then None
             else if length pids \<ge> MAX_FILTER_PIDS then None
             else
               (case rest of
                  [] \<Rightarrow> Some (pids @ [word_of_int v])
                | c # cs \<Rightarrow> if c = CHR '','' then parse_pids cs (pids @ [word_of_int v]) else None)))"
  by pat_completeness auto
termination
  by (relation "measure (length \<circ> fst)") (auto dest: strtol0_shorter)

declare parse_pids.simps [simp del]

definition parse_pid_filter :: "string option \<Rightarrow> pid_filter option" where
  "parse_pid_filter s =
     (case s of
        None \<Rightarrow> Some \<lparr>pf_pass_all = False, pf_pids = [0]\<rparr>
      | Some s \<Rightarrow>
          if s = [] then Some \<lparr>pf_pass_all = False, pf_pids = [0]\<rparr>
          else if s = ''-1'' then Some \<lparr>pf_pass_all = True, pf_pids = []\<rparr>
          else
            (case parse_pids s [] of
               None \<Rightarrow> None
             | Some pids \<Rightarrow> if pids = [] then None else Some \<lparr>pf_pass_all = False, pf_pids = pids\<rparr>))"

definition pid_filter_match :: "pid_filter \<Rightarrow> u16 \<Rightarrow> bool" where
  "pid_filter_match f pid \<longleftrightarrow> pf_pass_all f \<or> pid \<in> set (pf_pids f)"

definition ts_pid :: "bytes \<Rightarrow> u16" where
  "ts_pid pkt = push_bit 8 (ucast (pkt ! 1) AND 0x1f) OR ucast (pkt ! 2)"

text \<open>\<open>main\<close>'s \<open>filter_repr\<close>: the PIDs in decimal, joined by commas, in a buffer of 160 bytes; an item that
  does not fit is cut and ends the list.\<close>

definition FILTER_REPR_SZ :: nat where "FILTER_REPR_SZ = 160"

fun filter_repr_loop :: "bool \<Rightarrow> u16 list \<Rightarrow> string \<Rightarrow> string" where
  "filter_repr_loop first [] acc = acc"
| "filter_repr_loop first (p # ps) acc =
     (let item = (if first then [] else '','') @ dec_string (unat p)
      in if length item \<ge> FILTER_REPR_SZ - length acc
         then acc @ take (FILTER_REPR_SZ - length acc - 1) item
         else filter_repr_loop False ps (acc @ item))"

definition filter_repr :: "pid_filter \<Rightarrow> string" where
  "filter_repr f = (if pf_pass_all f then ''all'' else filter_repr_loop True (pf_pids f) [])"

subsection \<open>Framing\<close>

record dump =
  du_stage :: bytes
  du_locked :: bool
  du_total :: u64
  du_matched :: u64
  du_bad_sync :: u64
  du_written :: "bytes list"   \<comment> \<open>the packets handed to \<open>write\<close>; the last one may have failed\<close>
  du_log :: string   \<comment> \<open>the messages on standard error\<close>

definition dump_start :: dump where
  "dump_start = \<lparr>du_stage = [], du_locked = False, du_total = 0, du_matched = 0, du_bad_sync = 0,
                 du_written = [], du_log = []\<rparr>"

text \<open>The first offset from \<open>i\<close> on where two packets' sync bytes line up.\<close>

function find_sync :: "bytes \<Rightarrow> nat \<Rightarrow> nat option" where
  "find_sync st i =
     (if i + TS_PACKET < length st then
        if st ! i = 0x47 \<and> st ! (i + TS_PACKET) = 0x47 then Some i else find_sync st (Suc i)
      else None)"
  by pat_completeness auto
termination
  by (relation "measure (\<lambda>(st, i). length st - i)") (auto simp: TS_PACKET_def)

declare find_sync.simps [simp del]

lemma find_sync_Some:
  "find_sync st i = Some j \<Longrightarrow> i \<le> j \<and> j + TS_PACKET < length st \<and> st ! j = 0x47"
proof (induction st i rule: find_sync.induct)
  case (1 st i)
  show ?case
    using "1.prems" "1.IH" by (subst (asm) find_sync.simps) (auto split: if_splits)
qed

lemma find_sync_after: "find_sync st i = Some j \<Longrightarrow> st ! i \<noteq> 0x47 \<Longrightarrow> i < j"
  using find_sync_Some [of st i j] by (cases "i = j") auto

text \<open>The packet loop: whether it ran into a failing write, and the bytes consumed.\<close>

function frame_loop :: "pid_filter \<Rightarrow> (bytes list \<Rightarrow> int option) \<Rightarrow> nat \<Rightarrow> dump \<Rightarrow> bool \<times> nat \<times> dump" where
  "frame_loop flt wr consumed d =
     (if consumed + TS_PACKET \<le> length (du_stage d) then
        let pkt = take TS_PACKET (drop consumed (du_stage d))
        in if du_stage d ! consumed \<noteq> 0x47 then
             let d1 = d\<lparr>du_bad_sync := du_bad_sync d + 1\<rparr>
             in (case find_sync (du_stage d) consumed of
                   None \<Rightarrow> (False, length (du_stage d), d1\<lparr>du_locked := False\<rparr>)
                 | Some i \<Rightarrow> frame_loop flt wr i d1)
           else
             let d1 = d\<lparr>du_total := du_total d + 1\<rparr>
             in if pid_filter_match flt (ts_pid pkt) then
                  let d2 = d1\<lparr>du_matched := du_matched d1 + 1, du_written := du_written d1 @ [pkt]\<rparr>
                  in (case wr (du_written d2) of
                        None \<Rightarrow> frame_loop flt wr (consumed + TS_PACKET) d2
                      | Some errno \<Rightarrow>
                          (True, consumed,
                           d2\<lparr>du_log := du_log d2 @ ''write to stdout failed: '' @ dec_int errno @ newline\<rparr>))
                else frame_loop flt wr (consumed + TS_PACKET) d1
      else (False, consumed, d))"
  by pat_completeness auto
termination
  by (relation "measure (\<lambda>(flt, wr, consumed, d). length (du_stage d) - consumed)")
     (auto simp: TS_PACKET_def dest: find_sync_after find_sync_Some)

declare frame_loop.simps [simp del]

text \<open>One round of the streaming loop, after a read that delivered \<open>got > 0\<close> bytes.\<close>

definition lock_stage :: "dump \<Rightarrow> bool \<times> dump" where
  "lock_stage d =
     (if du_locked d then (True, d)
      else
        (case find_sync (du_stage d) 0 of
           None \<Rightarrow>
             (False,
              (if length (du_stage d) > 2 * TS_PACKET
               then d\<lparr>du_stage := drop (length (du_stage d) - 2 * TS_PACKET) (du_stage d)\<rparr> else d))
         | Some off \<Rightarrow>
             (True, d\<lparr>du_stage := drop off (du_stage d), du_locked := True, du_log := du_log d @ sync_text off\<rparr>)))"

definition dump_round :: "pid_filter \<Rightarrow> (bytes list \<Rightarrow> int option) \<Rightarrow> bytes \<Rightarrow> dump \<Rightarrow> bool \<times> dump" where
  "dump_round flt wr got d =
     (let (ready, d) = lock_stage (d\<lparr>du_stage := du_stage d @ got\<rparr>)
      in if \<not> ready then (False, d)
         else
           let (failed, consumed, d) = frame_loop flt wr 0 d
           in if failed then (True, d)
              else (False, d\<lparr>du_stage := drop consumed (du_stage d)\<rparr>))"

text \<open>The length of the next read.\<close>

definition read_want :: "dump \<Rightarrow> nat" where
  "read_want d =
     (let want = STAGE_SZ - length (du_stage d) in if want > READ_SZ then READ_SZ else want)"

text \<open>The rounds of a whole run, one chunk per successful read.\<close>

fun dump_rounds :: "pid_filter \<Rightarrow> (bytes list \<Rightarrow> int option) \<Rightarrow> bytes list \<Rightarrow> dump \<Rightarrow> bool \<times> dump" where
  "dump_rounds flt wr [] d = (False, d)"
| "dump_rounds flt wr (got # gots) d =
     (let (failed, d) = dump_round flt wr got d
      in if failed then (True, d) else dump_rounds flt wr gots d)"

subsection \<open>What a run writes\<close>

text \<open>The packets handed to \<open>write\<close> are whole, synchronised and wanted, and counted.\<close>

definition good_packet :: "pid_filter \<Rightarrow> bytes \<Rightarrow> bool" where
  "good_packet flt p \<longleftrightarrow> length p = TS_PACKET \<and> p ! 0 = 0x47 \<and> pid_filter_match flt (ts_pid p)"

definition dump_ok :: "pid_filter \<Rightarrow> dump \<Rightarrow> bool" where
  "dump_ok flt d \<longleftrightarrow>
     (\<forall>p \<in> set (du_written d). good_packet flt p) \<and> du_matched d = of_nat (length (du_written d))"

lemma drop_packet:
  assumes "c + TS_PACKET \<le> length st"
  shows "drop c st = take TS_PACKET (drop c st) @ drop (c + TS_PACKET) st"
  by (metis add.commute append_take_drop_id drop_drop)

lemma subseq_drop_mono:
  assumes "i \<le> j" "subseq xs (a @ drop j st)"
  shows "subseq xs (a @ drop i st)"
proof -
  have "suffix (drop j st) (drop i st)"
    using assms(1) by (metis drop_drop le_add_diff_inverse2 suffix_drop)
  then have "subseq (drop j st) (drop i st)" by (rule list_emb_suffix [OF subseq_order.refl])
  then have "subseq (a @ drop j st) (a @ drop i st)"
    by (rule list_emb_append_mono [OF subseq_order.refl])
  with assms(2) show ?thesis by (rule subseq_order.trans)
qed

lemma subseq_appendL: "subseq (a @ b) c \<Longrightarrow> subseq a c"
  using list_emb_append_mono [of "(=)" a a "[]" b] subseq_order.trans by fastforce

lemma frame_loop_spec:
  "frame_loop flt wr c d = (failed, c', d') \<Longrightarrow> c \<le> length (du_stage d) \<Longrightarrow> dump_ok flt d \<Longrightarrow>
     dump_ok flt d' \<and> du_stage d' = du_stage d \<and> c' \<le> length (du_stage d) \<and>
     (\<not> failed \<longrightarrow> length (du_stage d) < c' + TS_PACKET) \<and>
     subseq (concat (du_written d') @ (if failed then [] else drop c' (du_stage d)))
       (concat (du_written d) @ drop c (du_stage d))"
proof (induction flt wr c d rule: frame_loop.induct)
  case (1 flt wr c d)
  let ?st = "du_stage d"
  let ?pkt = "take TS_PACKET (drop c ?st)"
  show ?case
  proof (cases "c + TS_PACKET \<le> length ?st")
    case False
    then show ?thesis using "1.prems" by (subst (asm) frame_loop.simps) simp
  next
    case fits: True
    note cut = drop_packet [OF fits]
    show ?thesis
    proof (cases "?st ! c = 0x47")
      case bad: False
      let ?d1 = "d\<lparr>du_bad_sync := du_bad_sync d + 1\<rparr>"
      have ok1: "dump_ok flt ?d1" "dump_ok flt (?d1\<lparr>du_locked := False\<rparr>)"
        using "1.prems"(3) by (simp_all add: dump_ok_def)
      show ?thesis
      proof (cases "find_sync ?st c")
        case None
        then show ?thesis
          using "1.prems"(1) fits bad ok1 subseq_rev_drop_many
          by (subst (asm) frame_loop.simps) (auto simp: Let_def TS_PACKET_def intro: list_emb_append2)
      next
        case (Some i)
        have i: "c \<le> i" "i \<le> length ?st" using find_sync_Some [OF Some] by auto
        have "frame_loop flt wr i ?d1 = (failed, c', d')"
          using "1.prems"(1) fits bad Some by (subst (asm) frame_loop.simps) (simp add: Let_def)
        then show ?thesis
          using "1.IH"(1) [OF fits refl bad refl Some] i ok1
          by (cases failed) (auto intro: subseq_drop_mono [OF i(1)])
      qed
    next
      case good: True
      let ?d1 = "d\<lparr>du_total := du_total d + 1\<rparr>"
      have ok1: "dump_ok flt ?d1" using "1.prems"(3) by (simp add: dump_ok_def)
      show ?thesis
      proof (cases "pid_filter_match flt (ts_pid ?pkt)")
        case skip: False
        have "frame_loop flt wr (c + TS_PACKET) ?d1 = (failed, c', d')"
          using "1.prems"(1) fits good skip by (subst (asm) frame_loop.simps) (simp add: Let_def)
        then show ?thesis
          using "1.IH"(3) [OF fits refl _ refl skip] good fits ok1
          by (cases failed) (auto intro: subseq_drop_mono [of c "c + TS_PACKET"])
      next
        case hit: True
        let ?d2 = "?d1\<lparr>du_matched := du_matched ?d1 + 1, du_written := du_written ?d1 @ [?pkt]\<rparr>"
        have "good_packet flt ?pkt" using fits good hit by (simp add: good_packet_def TS_PACKET_def)
        then have ok2: "dump_ok flt ?d2" using "1.prems"(3) by (auto simp: dump_ok_def)
        have sub: "concat (du_written ?d2) @ drop (c + TS_PACKET) ?st
            = concat (du_written d) @ drop c ?st"
          using cut by simp
        show ?thesis
        proof (cases "wr (du_written ?d2)")
          case None
          have "frame_loop flt wr (c + TS_PACKET) ?d2 = (failed, c', d')"
            using "1.prems"(1) fits good hit None by (subst (asm) frame_loop.simps) (simp add: Let_def)
          then show ?thesis
            using "1.IH"(2) [OF fits refl _ refl hit refl None] good fits ok2 sub by auto
        next
          case (Some errno)
          let ?d3 = "?d2\<lparr>du_log := du_log ?d2 @ ''write to stdout failed: '' @ dec_int errno @ newline\<rparr>"
          have "failed" "c' = c" "d' = ?d3"
            using Some "1.prems"(1) fits good hit by (subst (asm) frame_loop.simps; simp add: Let_def)+
          moreover have "subseq (concat (du_written ?d2)) (concat (du_written d) @ drop c ?st)"
            by (rule subseq_appendL [of _ "drop (c + TS_PACKET) ?st"]) (simp only: sub subseq_order.refl)
          ultimately show ?thesis using ok2 fits by (simp add: dump_ok_def)
        qed
      qed
    qed
  qed
qed

text \<open>The first write that is not whole is the last: every packet before the last one handed over was taken
  whole, and the last one too unless the run failed.\<close>

definition taken :: "(bytes list \<Rightarrow> int option) \<Rightarrow> bytes list \<Rightarrow> nat \<Rightarrow> bool" where
  "taken wr ps n \<longleftrightarrow> (\<forall>k. 0 < k \<and> k \<le> n \<longrightarrow> wr (take k ps) = None)"

lemma taken_snoc: "taken wr ps (length ps) \<Longrightarrow> taken wr (ps @ [p]) (length ps)"
  by (auto simp: taken_def)

lemma taken_whole: "taken wr ps (length ps) \<Longrightarrow> wr (ps @ [p]) = None \<Longrightarrow> taken wr (ps @ [p]) (Suc (length ps))"
  by (auto simp: taken_def le_Suc_eq)

lemma frame_loop_taken:
  "frame_loop flt wr c d = (failed, c', d') \<Longrightarrow> taken wr (du_written d) (length (du_written d)) \<Longrightarrow>
     taken wr (du_written d') (length (du_written d') - (if failed then 1 else 0))"
proof (induction flt wr c d rule: frame_loop.induct)
  case (1 flt wr c d)
  show ?case
    using "1.prems" "1.IH" taken_snoc taken_whole
    by (subst (asm) frame_loop.simps) (fastforce simp: Let_def split: if_splits option.splits)
qed

lemma lock_stage_written: "lock_stage d = (ready, d') \<Longrightarrow> du_written d' = du_written d"
  by (auto simp: lock_stage_def split: if_splits option.splits)

lemma dump_rounds_taken:
  "dump_rounds flt wr gots d = (failed, d') \<Longrightarrow> taken wr (du_written d) (length (du_written d)) \<Longrightarrow>
     taken wr (du_written d') (length (du_written d') - (if failed then 1 else 0))"
proof (induction gots arbitrary: d)
  case (Cons got gots)
  obtain f d1 where r: "dump_round flt wr got d = (f, d1)" by fastforce
  then have "taken wr (du_written d1) (length (du_written d1) - (if f then 1 else 0))"
    using Cons.prems(2)
    by (auto simp: dump_round_def Let_def dest!: lock_stage_written dest: frame_loop_taken split: prod.splits if_splits)
  then show ?case using Cons.prems(1) Cons.IH r by (auto split: if_splits)
qed simp

text \<open>A round, and a run: what is written and what is still staged, in this order, is part of what was
  read, in this order.\<close>

definition dump_inv :: "pid_filter \<Rightarrow> dump \<Rightarrow> bytes \<Rightarrow> bool" where
  "dump_inv flt d input \<longleftrightarrow> dump_ok flt d \<and> subseq (concat (du_written d) @ du_stage d) input"

lemma lock_stage_spec:
  assumes "lock_stage d = (ready, d')" "dump_inv flt d input"
  shows "dump_inv flt d' input \<and> (\<not> ready \<longrightarrow> length (du_stage d') \<le> 2 * TS_PACKET)"
proof -
  have sub: "subseq (concat (du_written d) @ drop k (du_stage d)) input" for k
    using assms(2) subseq_drop_mono [of 0 k _ "concat (du_written d)" "du_stage d"] subseq_order.trans
    by (fastforce simp: dump_inv_def)
  show ?thesis
    using assms sub
    by (auto simp: lock_stage_def dump_inv_def dump_ok_def split: if_splits option.splits)
qed

lemma dump_round_spec:
  assumes run: "dump_round flt wr got d = (failed, d')" and inv: "dump_inv flt d input"
  shows "dump_ok flt d' \<and> subseq (concat (du_written d')) (input @ got) \<and>
    (\<not> failed \<longrightarrow> dump_inv flt d' (input @ got) \<and> length (du_stage d') \<le> 2 * TS_PACKET)"
proof -
  let ?d0 = "d\<lparr>du_stage := du_stage d @ got\<rparr>"
  obtain ready d1 where lock: "lock_stage ?d0 = (ready, d1)" by (cases "lock_stage ?d0")
  have "subseq ((concat (du_written d) @ du_stage d) @ got) (input @ got)"
    using inv by (intro list_emb_append_mono subseq_order.refl) (simp add: dump_inv_def)
  then have "dump_inv flt ?d0 (input @ got)" using inv by (simp add: dump_inv_def dump_ok_def)
  note d1 = lock_stage_spec [OF lock this]
  show ?thesis
  proof (cases ready)
    case False
    then have "failed = False" "d' = d1" using run lock by (auto simp: dump_round_def)
    then show ?thesis
      using d1 False by (auto simp: dump_inv_def dest: subseq_appendL)
  next
    case True
    obtain f c d2 where loop: "frame_loop flt wr 0 d1 = (f, c, d2)" by (cases "frame_loop flt wr 0 d1")
    have res: "failed = f" "d' = (if f then d2 else d2\<lparr>du_stage := drop c (du_stage d2)\<rparr>)"
      using run lock True loop by (auto simp: dump_round_def split: if_splits)
    have "dump_ok flt d1" using d1 by (simp add: dump_inv_def)
    note l = frame_loop_spec [OF loop _ this]
    then have "subseq (concat (du_written d2) @ (if f then [] else drop c (du_stage d1))) (input @ got)"
      using d1 by (auto simp: dump_inv_def intro: subseq_order.trans)
    then show ?thesis using l res by (auto simp: dump_inv_def dump_ok_def dest: subseq_appendL)
  qed
qed

lemma dump_rounds_spec:
  "dump_rounds flt wr gots d = (failed, d') \<Longrightarrow> dump_inv flt d input \<Longrightarrow>
     length (du_stage d) \<le> 2 * TS_PACKET \<Longrightarrow>
     dump_ok flt d' \<and> subseq (concat (du_written d')) (input @ concat gots) \<and>
     (\<not> failed \<longrightarrow> length (du_stage d') \<le> 2 * TS_PACKET)"
proof (induction gots arbitrary: d input)
  case Nil
  then show ?case by (auto simp: dump_inv_def dest: subseq_appendL)
next
  case (Cons got gots)
  obtain f d1 where r: "dump_round flt wr got d = (f, d1)" by (cases "dump_round flt wr got d")
  note spec = dump_round_spec [OF r Cons.prems(2)]
  show ?case
  proof (cases f)
    case True
    then have "failed" "d' = d1" using Cons.prems(1) r by simp_all
    moreover have "subseq (concat (du_written d1)) ((input @ got) @ concat gots)"
      using spec list_emb_append_mono [of "(=)" _ "input @ got" "[]" "concat gots"] by fastforce
    ultimately show ?thesis using spec by simp
  next
    case False
    then show ?thesis
      using Cons.IH [of d1 "input @ got"] Cons.prems(1) r spec by simp
  qed
qed

subsection \<open>Clean streams\<close>

text \<open>On a stream of whole packets framing is exact, however the stream is cut into reads.\<close>

definition ts_stream :: "bytes list \<Rightarrow> bool" where
  "ts_stream ps \<longleftrightarrow> (\<forall>p \<in> set ps. length p = TS_PACKET \<and> p ! 0 = 0x47)"

lemma ts_stream_length: "ts_stream ps \<Longrightarrow> length (concat ps) = TS_PACKET * length ps"
  by (induction ps) (auto simp: ts_stream_def)

lemma ts_stream_sync: "ts_stream ps \<Longrightarrow> i < length ps \<Longrightarrow> concat ps ! (TS_PACKET * i) = 0x47"
proof (induction ps arbitrary: i)
  case (Cons p ps)
  then show ?case by (cases i) (auto simp: ts_stream_def nth_append TS_PACKET_def)
qed simp

definition wanted_of :: "pid_filter \<Rightarrow> bytes list \<Rightarrow> bytes list" where
  "wanted_of flt ps = filter (\<lambda>p. pid_filter_match flt (ts_pid p)) ps"

lemma frame_loop_clean:
  "ts_stream ps \<Longrightarrow> drop c (du_stage d) = take m (concat ps) \<Longrightarrow> m \<le> length (concat ps) \<Longrightarrow>
     c \<le> length (du_stage d) \<Longrightarrow>
     frame_loop flt (\<lambda>_. None) c d =
       (False, c + TS_PACKET * (m div TS_PACKET),
        d\<lparr>du_total := du_total d + of_nat (m div TS_PACKET),
          du_matched := du_matched d + of_nat (length (wanted_of flt (take (m div TS_PACKET) ps))),
          du_written := du_written d @ wanted_of flt (take (m div TS_PACKET) ps)\<rparr>)"
proof (induction ps arbitrary: c d m)
  case Nil
  then have "length (du_stage d) = c" by simp
  then show ?case using Nil by (subst frame_loop.simps) (simp add: TS_PACKET_def wanted_of_def)
next
  case (Cons p ps)
  have len: "length (du_stage d) = c + m"
    using Cons.prems by (metis add.commute le_add_diff_inverse length_drop length_take min.absorb2)
  show ?case
  proof (cases "m < TS_PACKET")
    case True
    then show ?thesis using len by (subst frame_loop.simps) (simp add: wanted_of_def)
  next
    case False
    have p: "length p = TS_PACKET" "p ! 0 = 0x47" "ts_stream ps"
      using Cons.prems(1) by (simp_all add: ts_stream_def)
    have m: "m div TS_PACKET = Suc ((m - TS_PACKET) div TS_PACKET)"
      using False by (simp add: TS_PACKET_def le_div_geq)
    have pkt: "take TS_PACKET (drop c (du_stage d)) = p" "du_stage d ! c = 0x47"
      using Cons.prems(2,4) p False len
        nth_drop [of c "du_stage d" 0] by (auto simp: TS_PACKET_def nth_append)
    have rest: "drop (c + TS_PACKET) (du_stage d) = take (m - TS_PACKET) (concat ps)"
      using arg_cong [OF Cons.prems(2), of "drop TS_PACKET"] p False by (simp add: add.commute drop_take)
    let ?d1 = "d\<lparr>du_total := du_total d + 1\<rparr>"
    let ?d2 = "if pid_filter_match flt (ts_pid p)
        then ?d1\<lparr>du_matched := du_matched ?d1 + 1, du_written := du_written ?d1 @ [p]\<rparr> else ?d1"
    have "frame_loop flt (\<lambda>_. None) c d = frame_loop flt (\<lambda>_. None) (c + TS_PACKET) ?d2"
      using False len pkt by (subst frame_loop.simps) (simp add: Let_def)
    also have "\<dots> = (False, c + TS_PACKET + TS_PACKET * ((m - TS_PACKET) div TS_PACKET),
        ?d2\<lparr>du_total := du_total ?d2 + of_nat ((m - TS_PACKET) div TS_PACKET),
          du_matched := du_matched ?d2 + of_nat (length (wanted_of flt (take ((m - TS_PACKET) div TS_PACKET) ps))),
          du_written := du_written ?d2 @ wanted_of flt (take ((m - TS_PACKET) div TS_PACKET) ps)\<rparr>)"
      by (rule Cons.IH) (use p rest Cons.prems(3) len False in auto)
    finally show ?thesis
      by (auto simp: m wanted_of_def add_ac)
  qed
qed

text \<open>The state after \<open>n\<close> bytes of a clean stream.\<close>

definition clean_state :: "pid_filter \<Rightarrow> bytes list \<Rightarrow> nat \<Rightarrow> dump" where
  "clean_state flt ps n =
     (if n \<le> TS_PACKET then dump_start\<lparr>du_stage := take n (concat ps)\<rparr>
      else
        let k = n div TS_PACKET; out = wanted_of flt (take k ps)
        in \<lparr>du_stage = drop (TS_PACKET * k) (take n (concat ps)), du_locked = True,
            du_total = of_nat k, du_matched = of_nat (length out), du_bad_sync = 0, du_written = out,
            du_log = sync_text 0\<rparr>)"

lemma ts_stream_drop: "ts_stream ps \<Longrightarrow> drop (TS_PACKET * k) (concat ps) = concat (drop k ps)"
proof (induction k arbitrary: ps)
  case (Suc k)
  show ?case
  proof (cases ps)
    case (Cons p ps')
    then have "length p = TS_PACKET" "ts_stream ps'" using Suc.prems by (simp_all add: ts_stream_def)
    then show ?thesis using Suc.IH Cons by (simp add: drop_append add.commute)
  qed simp
qed simp

lemma ts_stream_drop_list: "ts_stream ps \<Longrightarrow> ts_stream (drop k ps)"
  by (auto simp: ts_stream_def dest: in_set_dropD)

lemma wanted_of_split:
  "wanted_of flt (take a ps) @ wanted_of flt (take b (drop a ps)) = wanted_of flt (take (a + b) ps)"
  by (simp add: wanted_of_def take_add)

text \<open>Locking takes the stage from its start.\<close>

lemma lock_clean:
  assumes ps: "ts_stream ps" and n: "n \<le> length (concat ps)" and long: "TS_PACKET < n"
    and d: "du_stage d = take n (concat ps)" "\<not> du_locked d"
  shows "lock_stage d = (True, d\<lparr>du_locked := True, du_log := du_log d @ sync_text 0\<rparr>)"
proof -
  have "1 < length ps"
  proof (rule ccontr)
    assume "\<not> 1 < length ps"
    then have "TS_PACKET * length ps \<le> TS_PACKET * 1" by (intro mult_le_mono2) simp
    then show False using ts_stream_length [OF ps] n long by (simp add: TS_PACKET_def)
  qed
  moreover from this have "0 < length ps" by linarith
  ultimately have "concat ps ! 0 = 0x47" "concat ps ! TS_PACKET = 0x47"
    using ts_stream_sync [OF ps, of 0] ts_stream_sync [OF ps, of 1] by simp_all
  moreover have "0 < n" using long by simp
  ultimately have "find_sync (du_stage d) 0 = Some 0"
    using n long by (subst find_sync.simps) (simp add: d)
  then show ?thesis using d by (simp add: lock_stage_def)
qed

lemma clean_round:
  assumes ps: "ts_stream ps" and n: "n + length got \<le> length (concat ps)"
    and got: "got = take (length got) (drop n (concat ps))"
  shows "dump_round flt (\<lambda>_. None) got (clean_state flt ps n) = (False, clean_state flt ps (n + length got))"
proof -
  let ?s = "concat ps" and ?m = "n + length got"
  have grow: "take n ?s @ got = take ?m ?s" by (metis got take_add)
  have nl: "n \<le> length ?s" using n by simp
  show ?thesis
  proof (cases "n \<le> TS_PACKET")
    case short: True
    let ?d = "dump_start\<lparr>du_stage := take ?m ?s\<rparr>"
    have st: "(clean_state flt ps n)\<lparr>du_stage := du_stage (clean_state flt ps n) @ got\<rparr> = ?d"
      using short grow by (simp add: clean_state_def)
    show ?thesis
    proof (cases "?m \<le> TS_PACKET")
      case True
      have "find_sync (take ?m ?s) 0 = None" using True by (subst find_sync.simps) simp
      then have "lock_stage ?d = (False, ?d)"
        using True n by (simp add: lock_stage_def dump_start_def)
      then show ?thesis unfolding dump_round_def st using True by (simp add: clean_state_def)
    next
      case False
      have "lock_stage ?d = (True, ?d\<lparr>du_locked := True, du_log := sync_text 0\<rparr>)"
        using lock_clean [OF ps n, of ?d] False by (simp add: dump_start_def)
      moreover note frame_loop_clean [OF ps, of 0 "?d\<lparr>du_locked := True, du_log := sync_text 0\<rparr>" ?m flt]
      ultimately show ?thesis
        unfolding dump_round_def st using False n by (simp add: clean_state_def dump_start_def Let_def)
    qed
  next
    case long: False
    let ?k = "n div TS_PACKET" and ?r = "n mod TS_PACKET"
    let ?d = "(clean_state flt ps n)\<lparr>du_stage := du_stage (clean_state flt ps n) @ got\<rparr>"
    have kn: "TS_PACKET * ?k \<le> n" by simp
    have "du_stage ?d = drop (TS_PACKET * ?k) (take n ?s) @ got"
      using long by (simp add: clean_state_def Let_def)
    also have "\<dots> = drop (TS_PACKET * ?k) (take n ?s @ got)"
      by (subst drop_append) (use kn nl in simp)
    finally have stage: "du_stage ?d = drop (TS_PACKET * ?k) (take ?m ?s)" unfolding grow .
    have cut: "drop 0 (du_stage ?d) = take (?m - TS_PACKET * ?k) (concat (drop ?k ps))"
      unfolding stage using ts_stream_drop [OF ps, of ?k] by (simp add: drop_take)
    have "lock_stage ?d = (True, ?d)" using long by (simp add: lock_stage_def clean_state_def Let_def)
    moreover have "?m - TS_PACKET * ?k \<le> length (concat (drop ?k ps))"
      using n by (simp flip: ts_stream_drop [OF ps])
    note frame_loop_clean [OF ts_stream_drop_list [OF ps] cut this]
    moreover have "(?m - TS_PACKET * ?k) div TS_PACKET = ?m div TS_PACKET - ?k" "?k \<le> ?m div TS_PACKET"
      by (simp_all add: TS_PACKET_def div_le_mono div_mult_self3)
    moreover from this(2) have "TS_PACKET * (?m div TS_PACKET - ?k) + TS_PACKET * ?k = TS_PACKET * (?m div TS_PACKET)"
      by (simp flip: distrib_left)
    moreover have "of_nat (length (wanted_of flt (take ?k ps)))
        + of_nat (length (wanted_of flt (take (?m div TS_PACKET - ?k) (drop ?k ps))))
        = (of_nat (length (wanted_of flt (take (?m div TS_PACKET) ps))) :: u64)"
      using calculation(4) wanted_of_split [of flt ?k ps "?m div TS_PACKET - ?k"]
      unfolding of_nat_add [symmetric] length_append [symmetric] by simp
    ultimately show ?thesis
      using long stage wanted_of_split [of flt ?k ps "?m div TS_PACKET - ?k"]
      unfolding dump_round_def by (simp add: clean_state_def Let_def)
  qed
qed

lemma clean_rounds:
  assumes ps: "ts_stream ps"
  shows "n + length (concat gots) \<le> length (concat ps) \<Longrightarrow>
    concat gots = take (length (concat gots)) (drop n (concat ps)) \<Longrightarrow>
    dump_rounds flt (\<lambda>_. None) gots (clean_state flt ps n)
      = (False, clean_state flt ps (n + length (concat gots)))"
proof (induction gots arbitrary: n)
  case (Cons got gots)
  let ?g = "length got" and ?r = "length (concat gots)"
  have parts: "got = take ?g (drop n (concat ps))" "concat gots = take ?r (drop (n + ?g) (concat ps))"
    using arg_cong [OF Cons.prems(2), of "take ?g"] arg_cong [OF Cons.prems(2), of "drop ?g"]
    by (simp_all add: drop_take add.commute)
  have "dump_round flt (\<lambda>_. None) got (clean_state flt ps n) = (False, clean_state flt ps (n + ?g))"
    by (rule clean_round [OF ps _ parts(1)]) (use Cons.prems(1) in simp)
  then show ?case
    using Cons.IH [of "n + ?g"] parts(2) Cons.prems(1) by (simp add: add.assoc)
qed simp

subsection \<open>The printed filter\<close>

lemma of_char_digit: "d < 10 \<Longrightarrow> (of_char (dec_digit d) :: nat) = d + 48"
  by (simp add: dec_digit_def)

lemma digit_in_dec: "d < 10 \<Longrightarrow> digit_in 10 (dec_digit d) = Some d"
  by (simp add: digit_in_def Let_def of_char_digit)

lemma digits_in_dec:
  "digits_in 10 acc (dec_string n @ rest) = digits_in 10 (acc * 10 ^ length (dec_string n) + n) rest"
proof (induction n arbitrary: rest rule: dec_string.induct)
  case (1 n)
  show ?case
  proof (cases "n < 10")
    case True
    then show ?thesis by (subst (1 2) dec_string.simps) (simp add: digit_in_dec mult.commute)
  next
    case False
    have "digits_in 10 acc (dec_string n @ rest)
        = digits_in 10 acc (dec_string (n div 10) @ dec_digit (n mod 10) # rest)"
      using False by (subst dec_string.simps) simp
    also have "\<dots> = digits_in 10 (10 * (acc * 10 ^ length (dec_string (n div 10)) + n div 10) + n mod 10) rest"
      using "1.IH" [OF False, of "dec_digit (n mod 10) # rest"] by (simp add: digit_in_dec)
    also have "length (dec_string n) = Suc (length (dec_string (n div 10)))"
      using False by (subst dec_string.simps) simp
    ultimately show ?thesis by (simp add: algebra_simps)
  qed
qed

lemma dec_string_head: "\<exists>(d::nat) cs. dec_string n = dec_digit d # cs \<and> d < 10 \<and> (n \<noteq> 0 \<longrightarrow> d \<noteq> 0)"
proof (induction n rule: dec_string.induct)
  case (1 n)
  show ?case
  proof (cases "n < 10")
    case True
    then show ?thesis by (subst dec_string.simps) auto
  next
    case False
    then show ?thesis
      using "1.IH" by (subst dec_string.simps) (auto simp: div_eq_0_iff)
  qed
qed

lemma digit_chars:
  assumes "(d::nat) < 10"
  shows "dec_digit d \<noteq> CHR ''-''" "dec_digit d \<noteq> CHR ''+''" "\<not> is_blank (dec_digit d)"
    "dec_digit d = CHR ''0'' \<longleftrightarrow> d = 0"
proof -
  have "(of_char (dec_digit d) :: nat) = d + 48" using of_char_digit [OF assms] .
  then have ne: "dec_digit d \<noteq> c" if "(of_char c :: nat) \<notin> {48..57}" for c :: char
    using that assms by auto
  show "dec_digit d \<noteq> CHR ''-''" "dec_digit d \<noteq> CHR ''+''" by (rule ne, simp)+
  show "\<not> is_blank (dec_digit d)" unfolding is_blank_def using ne by auto
  show "dec_digit d = CHR ''0'' \<longleftrightarrow> d = 0"
    using assms by (simp add: dec_digit_def char_of_eq_iff take_bit_nat_eq_self)
qed

lemma dec_string_0: "dec_string 0 = ''0''"
  by (subst dec_string.simps) (simp add: dec_digit_def char_of_eq_iff)

lemma strtol0_dec:
  assumes rest: "rest = [] \<or> hd rest = CHR '',''"
  shows "strtol0 (dec_string n @ rest) = Some (int n, rest)"
proof -
  obtain d cs where h: "dec_string n = dec_digit d # cs" "d < 10" "n \<noteq> 0 \<longrightarrow> d \<noteq> 0"
    using dec_string_head by blast
  have stop: "digits_in b acc rest = (acc, rest)" if "b \<le> 10" for b acc
    using rest that by (cases rest) (auto simp: digit_in_def)
  have tb: "take_base (dec_string n @ rest) = ((if n = 0 then 8 else 10), dec_string n @ rest)"
  proof (cases "n = 0")
    case True
    then show ?thesis using rest by (auto simp: dec_string_0 take_base_def split: list.splits)
  next
    case False
    then show ?thesis
      using h digit_chars(4) [OF h(2)] by (auto simp: take_base_def split: list.splits)
  qed
  have "digits_in (if n = 0 then 8 else 10) 0 (dec_string n @ rest) = (n, rest)"
  proof (cases "n = 0")
    case True
    then show ?thesis using stop by (simp add: dec_string_0 digit_in_def)
  next
    case False
    then show ?thesis using digits_in_dec [of 0 n rest] stop by simp
  qed
  note base = tb this
  show ?thesis
    using base h digit_chars [OF h(2)] by (simp add: strtol0_def take_sign_def)
qed

text \<open>The list in print, and the parser on it.\<close>

fun pids_string :: "u16 list \<Rightarrow> string" where
  "pids_string [] = []"
| "pids_string (p # ps) = dec_string (unat p) @ (if ps = [] then [] else CHR '','' # pids_string ps)"

lemma dec_string_ne [simp]: "dec_string n \<noteq> []"
  using dec_string_head [of n] by auto

lemma pids_string_ne [simp]: "ps \<noteq> [] \<Longrightarrow> pids_string ps \<noteq> []"
  by (cases ps) simp_all

lemma parse_pids_string:
  "ps \<noteq> [] \<Longrightarrow> \<forall>p \<in> set ps. p \<le> 0x1fff \<Longrightarrow> length acc + length ps \<le> MAX_FILTER_PIDS \<Longrightarrow>
     parse_pids (pids_string ps) acc = Some (acc @ ps)"
proof (induction ps arbitrary: acc)
  case (Cons p ps)
  let ?rest = "if ps = [] then [] else CHR '','' # pids_string ps"
  have p: "uint p \<le> 0x1fff" "word_of_int (int (unat p)) = p"
    using Cons.prems(2) by (simp_all add: word_le_def)
  have "strtol0 (pids_string (p # ps)) = Some (int (unat p), ?rest)"
    using strtol0_dec [of ?rest "unat p"] by simp
  then show ?case
    using Cons p by (subst parse_pids.simps) (auto split: if_splits)
qed simp

lemma parse_pids_bounds:
  "parse_pids s acc = Some pids \<Longrightarrow> length acc \<le> MAX_FILTER_PIDS \<Longrightarrow> \<forall>p \<in> set acc. p \<le> 0x1fff \<Longrightarrow>
     length pids \<le> MAX_FILTER_PIDS \<and> (\<forall>p \<in> set pids. p \<le> 0x1fff)"
proof (induction s acc rule: parse_pids.induct)
  case (1 s acc)
  have small: "word_of_int v \<le> (0x1fff :: u16)" if "0 \<le> v" "v \<le> 0x1fff" for v
    using that by (simp add: word_le_def uint_word_of_int)
  show ?case
    using "1.prems" "1.IH" small
    by (subst (asm) parse_pids.simps) (auto simp: not_less split: if_splits option.splits list.splits)
qed

lemma parse_pid_filter_bounds:
  assumes "parse_pid_filter s = Some f" "\<not> pf_pass_all f"
  shows "pf_pids f \<noteq> [] \<and> length (pf_pids f) \<le> MAX_FILTER_PIDS \<and> (\<forall>p \<in> set (pf_pids f). p \<le> 0x1fff)"
  using assms parse_pids_bounds [of _ "[]"]
  by (auto simp: parse_pid_filter_def MAX_FILTER_PIDS_def split: option.splits if_splits)

text \<open>A PID prints in at most four digits, so the print never runs out of its buffer.\<close>

lemma dec_string_short: "n < 10 ^ Suc k \<Longrightarrow> length (dec_string n) \<le> Suc k"
proof (induction k arbitrary: n)
  case (Suc k)
  then show ?case by (subst dec_string.simps) auto
qed (subst dec_string.simps, simp)

lemma filter_repr_loop_fits:
  "\<forall>p \<in> set ps. p \<le> 0x1fff \<Longrightarrow> length acc + 5 * length ps < FILTER_REPR_SZ \<Longrightarrow>
     filter_repr_loop False ps acc = acc @ (if ps = [] then [] else CHR '','' # pids_string ps)"
proof (induction ps arbitrary: acc)
  case (Cons p ps)
  have "unat p < 10 ^ Suc 3" using Cons.prems(1) by (simp add: word_le_nat_alt)
  then have "length (dec_string (unat p)) \<le> 4" using dec_string_short [of "unat p" 3] by simp
  then show ?case
    using Cons.IH [of "acc @ CHR '','' # dec_string (unat p)"] Cons.prems
    by (simp add: Let_def)
qed simp

lemma filter_repr_pids:
  assumes "\<not> pf_pass_all f" "pf_pids f \<noteq> []" "length (pf_pids f) \<le> MAX_FILTER_PIDS"
    "\<forall>p \<in> set (pf_pids f). p \<le> 0x1fff"
  shows "filter_repr f = pids_string (pf_pids f)"
proof -
  obtain p ps where ps: "pf_pids f = p # ps" using assms(2) by (cases "pf_pids f") auto
  have "unat p < 10 ^ Suc 3" using assms(4) ps by (simp add: word_le_nat_alt)
  then have "length (dec_string (unat p)) \<le> 4" using dec_string_short [of "unat p" 3] by simp
  then show ?thesis
    using filter_repr_loop_fits [of ps "dec_string (unat p)"] assms ps
    by (simp add: filter_repr_def Let_def FILTER_REPR_SZ_def MAX_FILTER_PIDS_def)
qed

subsection \<open>Properties\<close>

text \<open>On a stream of whole packets the dumper writes exactly the packets the filter wants, in order and
  unchanged, however the stream is cut into reads: after \<open>n\<close> bytes it has written the wanted ones of
  the \<open>n div 188\<close> complete packets, counted them all, and seen no bad sync. Only a stream that ends
  within its first packet and one byte is not written, since locking looks at two sync bytes.\<close>

theorem dump_clean_stream:
  assumes "ts_stream ps" "concat gots = take n (concat ps)" "n \<le> length (concat ps)" "TS_PACKET < n"
  shows "\<exists>d. dump_rounds flt (\<lambda>_. None) gots dump_start = (False, d) \<and>
    du_written d = filter (\<lambda>p. pid_filter_match flt (ts_pid p)) (take (n div TS_PACKET) ps) \<and>
    du_total d = of_nat (n div TS_PACKET) \<and> du_matched d = of_nat (length (du_written d)) \<and>
    du_bad_sync d = 0"
proof -
  have n: "length (concat gots) = n" using arg_cong [OF assms(2), of length] assms(3) by simp
  have "dump_rounds flt (\<lambda>_. None) gots (clean_state flt ps 0) = (False, clean_state flt ps n)"
    using clean_rounds [OF assms(1), of 0 gots flt] assms(2,3) by (simp add: n)
  moreover have "clean_state flt ps 0 = dump_start" by (simp add: clean_state_def dump_start_def)
  ultimately show ?thesis using assms(4) by (simp add: clean_state_def wanted_of_def Let_def)
qed

definition null_packet :: bytes where
  "null_packet = [0x47, 0x1f, 0xff] @ replicate 185 0"

lemma dump_clean_stream_witness:
  "\<exists>d. dump_rounds \<lparr>pf_pass_all = True, pf_pids = []\<rparr> (\<lambda>_. None)
      [take 100 (concat [null_packet, null_packet]), drop 100 (concat [null_packet, null_packet])] dump_start
        = (False, d) \<and> du_written d = [null_packet, null_packet]"
proof -
  have l: "length null_packet = 188" by (simp add: null_packet_def)
  have "ts_stream [null_packet, null_packet]"
    by (simp add: ts_stream_def TS_PACKET_def null_packet_def)
  from dump_clean_stream [OF this, of "[take 100 (concat [null_packet, null_packet]),
      drop 100 (concat [null_packet, null_packet])]" 376 "\<lparr>pf_pass_all = True, pf_pids = []\<rparr>"] l
  show ?thesis by (auto simp: TS_PACKET_def pid_filter_match_def)
qed

text \<open>Whatever arrives, and whatever writes fail, the dumper hands to \<open>write\<close> only whole 188-byte packets that
  start with the sync byte and carry a wanted PID, it counts each, and what it hands over is part of what
  it read, in order: no byte is invented, repeated or reordered.\<close>

theorem dump_writes_only_input:
  assumes "dump_rounds flt wr gots dump_start = (failed, d)"
  shows "(\<forall>p \<in> set (du_written d). length p = TS_PACKET \<and> p ! 0 = 0x47 \<and> pid_filter_match flt (ts_pid p)) \<and>
    du_matched d = of_nat (length (du_written d)) \<and> subseq (concat (du_written d)) (concat gots)"
proof -
  have "dump_inv flt dump_start []" by (simp add: dump_inv_def dump_ok_def dump_start_def)
  from dump_rounds_spec [OF assms this] show ?thesis
    by (auto simp: dump_start_def dump_ok_def good_packet_def)
qed

lemma dump_writes_only_input_witness:
  "\<exists>failed d. dump_rounds \<lparr>pf_pass_all = True, pf_pids = []\<rparr> (\<lambda>_. Some 28) [null_packet] dump_start = (failed, d) \<and>
    subseq (concat (du_written d)) null_packet"
proof -
  obtain failed d where run: "dump_rounds \<lparr>pf_pass_all = True, pf_pids = []\<rparr> (\<lambda>_. Some 28) [null_packet] dump_start
      = (failed, d)" by (cases "dump_rounds \<lparr>pf_pass_all = True, pf_pids = []\<rparr> (\<lambda>_. Some 28) [null_packet] dump_start")
  from dump_writes_only_input [OF this] run show ?thesis by auto
qed

text \<open>C35: Every read of the streaming loop asks for at least one byte and stays within the staging buffer.\<close>

theorem dump_read_in_bounds:
  assumes "dump_rounds flt wr gots dump_start = (False, d)"
  shows "0 < read_want d \<and> read_want d \<le> READ_SZ \<and> length (du_stage d) + read_want d \<le> STAGE_SZ"
proof -
  have "dump_inv flt dump_start []" by (simp add: dump_inv_def dump_ok_def dump_start_def)
  from dump_rounds_spec [OF assms this] have "length (du_stage d) \<le> 2 * TS_PACKET"
    by (simp add: dump_start_def)
  then show ?thesis by (auto simp: read_want_def STAGE_SZ_def READ_SZ_def TS_PACKET_def Let_def)
qed

lemma dump_read_in_bounds_witness:
  "\<exists>d. dump_rounds \<lparr>pf_pass_all = True, pf_pids = []\<rparr> (\<lambda>_. None) [[0, 0]] dump_start = (False, d) \<and>
    0 < read_want d"
proof -
  have "find_sync [0, 0] 0 = None" by (subst find_sync.simps) (simp add: TS_PACKET_def)
  then have "dump_rounds \<lparr>pf_pass_all = True, pf_pids = []\<rparr> (\<lambda>_. None) [[0, 0]] dump_start
      = (False, dump_start\<lparr>du_stage := [0, 0]\<rparr>)"
    by (simp add: dump_round_def lock_stage_def dump_start_def TS_PACKET_def)
  with dump_read_in_bounds [OF this] show ?thesis by blast
qed

text \<open>C36: The two shapes of an accepted PID argument. A filter of PIDs has between one and 32 PIDs of 13 bits, and the
  summary prints it whole, in a form the parser reads back to the same filter. The filter that passes everything comes
  from the argument \<open>-1\<close> alone; the summary prints it as \<open>all\<close>, which is not an argument the parser accepts.\<close>

theorem pid_filter_roundtrip:
  assumes "parse_pid_filter s = Some f"
  shows "if pf_pass_all f then s = Some ''-1'' \<and> filter_repr f = ''all'' \<and> parse_pid_filter (Some (filter_repr f)) = None
     else pf_pids f \<noteq> [] \<and> length (pf_pids f) \<le> 32 \<and> (\<forall>p \<in> set (pf_pids f). p \<le> 0x1fff) \<and>
       parse_pid_filter (Some (filter_repr f)) = Some f"
proof (cases "pf_pass_all f")
  case True
  have "strtol0 ''all'' = None"
    by (simp add: strtol0_def take_sign_def take_base_def is_blank_def digit_in_def)
  then have "parse_pids ''all'' [] = None" by (subst parse_pids.simps) simp
  then show ?thesis
    using True assms by (auto simp: parse_pid_filter_def filter_repr_def split: option.splits if_splits)
next
  case False
  note b = parse_pid_filter_bounds [OF assms False]
  then have repr: "filter_repr f = pids_string (pf_pids f)" using filter_repr_pids [OF False] by simp
  obtain p ps where ps: "pf_pids f = p # ps" using b by (cases "pf_pids f") auto
  obtain c cs where "dec_string (unat p) = c # cs" "c \<noteq> CHR ''-''"
    using dec_string_head [of "unat p"] digit_chars by auto
  then have "pids_string (pf_pids f) \<noteq> ''-1''" by (simp add: ps)
  then have "parse_pid_filter (Some (filter_repr f)) = Some f"
    using b parse_pids_string [of "pf_pids f" "[]"] False by (simp add: parse_pid_filter_def repr)
  then show ?thesis using b False by (simp add: MAX_FILTER_PIDS_def)
qed

lemma pid_filter_roundtrip_witness:
  "parse_pid_filter (Some (filter_repr \<lparr>pf_pass_all = False, pf_pids = [0]\<rparr>))
     = Some \<lparr>pf_pass_all = False, pf_pids = [0]\<rparr>"
  using pid_filter_roundtrip [of None "\<lparr>pf_pass_all = False, pf_pids = [0]\<rparr>"] by (simp add: parse_pid_filter_def)

end
