(* ===== verification/Handle_Log.thy ===== *)
theory Handle_Log
  imports Usbq_Stream Boards "HOL-Library.Multiset"
begin

text \<open>
  Which device handles a run of the program holds. Only \<open>usbq_open\<close>, \<open>usbq_open_by_addr\<close> and
  \<open>usbq_close\<close> open and close handles; every bridge, stream and board operation leaves them alone
  (\<open>quiet\<close>). \<open>held env w w' M M'\<close> says that a run from \<open>w\<close> to \<open>w'\<close> that began holding the handles \<open>M\<close> ends
  holding \<open>M'\<close>; the engines' theorems on leaked handles are statements about it.
\<close>

fun handle_req :: "usb_req \<Rightarrow> bool" where
  "handle_req (Open_Vid_Pid v p) = True"
| "handle_req (Open_Device i) = True"
| "handle_req (Close_Handle h) = True"
| "handle_req _ = False"

definition quiet :: "wire \<Rightarrow> wire \<Rightarrow> bool" where
  "quiet w w' \<longleftrightarrow> (\<exists>v. w' = w @ v \<and> (\<forall>q \<in> set v. \<not> handle_req q))"

named_theorems quiet_ops "operations that open and close no handle"

lemma quiet_refl [simp, intro]: "quiet w w"
  by (simp add: quiet_def)

lemma quiet_trans: "quiet w w1 \<Longrightarrow> quiet w1 w2 \<Longrightarrow> quiet w w2"
  by (auto simp: quiet_def)

lemma quiet_append [simp]: "quiet w0 w \<Longrightarrow> (\<forall>q \<in> set v. \<not> handle_req q) \<Longrightarrow> quiet w0 (w @ v)"
  by (auto simp: quiet_def)

lemma quiet_msleep [simp]: "quiet w0 w \<Longrightarrow> quiet w0 (msleep ms w)"
  by (simp add: msleep_def)

subsection \<open>Transfers and bridges\<close>

text \<open>Every rule has the form: a run that was quiet up to the call is quiet up to its return.\<close>

lemma quiet_control [quiet_ops]:
  "usbq_control env d bm req v i buf len t w = (rc, b, w') \<Longrightarrow> quiet w0 w \<Longrightarrow> quiet w0 w'"
  by (auto simp: usbq_control_def ask_def Let_def split: option.splits)

lemma quiet_bulk_write [quiet_ops]:
  "usbq_bulk_write env d ep buf len t w = (rc, w') \<Longrightarrow> quiet w0 w \<Longrightarrow> quiet w0 w'"
  by (auto simp: usbq_bulk_write_def ask_def Let_def split: option.splits if_splits)

lemma quiet_bulk_read [quiet_ops]:
  "usbq_bulk_read env d ep buf len t w = (rc, b, w') \<Longrightarrow> quiet w0 w \<Longrightarrow> quiet w0 w'"
  by (auto simp: usbq_bulk_read_def ask_def Let_def split: option.splits if_splits)

lemma quiet_release [quiet_ops]:
  "usbq_release_interface env d i w = (rc, w') \<Longrightarrow> quiet w0 w \<Longrightarrow> quiet w0 w'"
  by (auto simp: usbq_release_interface_def ask_def Let_def split: option.splits)

lemma quiet_claim [quiet_ops]:
  "usbq_claim_interface env d i w = (rc, w') \<Longrightarrow> quiet w0 w \<Longrightarrow> quiet w0 w'"
  by (auto simp: usbq_claim_interface_def ask_def Let_def split: option.splits)

lemma quiet_disconnect [quiet_ops]:
  "usbq_disconnect_kernel_driver env d w = (rc, w') \<Longrightarrow> quiet w0 w \<Longrightarrow> quiet w0 w'"
  by (auto simp: usbq_disconnect_kernel_driver_def ask_def Let_def split: option.splits if_splits)

lemma quiet_init [quiet_ops]:
  "usbq_init env g w = (rc, g', w') \<Longrightarrow> quiet w0 w \<Longrightarrow> quiet w0 w'"
  by (auto simp: usbq_init_def ask_def Let_def split: if_splits)

lemma quiet_shutdown [quiet_ops]:
  "usbq_shutdown g w = (g', w') \<Longrightarrow> quiet w0 w \<Longrightarrow> quiet w0 w'"
  by (auto simp: usbq_shutdown_def Let_def split: if_splits)

lemma quiet_evt [quiet_ops]:
  "usbq_evt_acquire env g w = (rc, g', w') \<Longrightarrow> quiet w0 w \<Longrightarrow> quiet w0 w'"
  "usbq_evt_release g w = (g', w') \<Longrightarrow> quiet w0 w \<Longrightarrow> quiet w0 w'"
  by (auto simp: usbq_evt_acquire_def usbq_evt_release_def ask_def Let_def split: if_splits prod.splits)

lemma quiet_em28xx_write [quiet_ops]:
  "em28xx_write_reg env dev reg v w = (rc, w') \<Longrightarrow> quiet w0 w \<Longrightarrow> quiet w0 w'"
  by (auto simp: em28xx_write_reg_def em28xx_write_regs_def em28xx_write_regs_req_def Let_def
      dest: quiet_control split: option.splits if_splits prod.splits)

lemma quiet_em28xx_read [quiet_ops]:
  "em28xx_read_reg env dev reg w = (rc, w') \<Longrightarrow> quiet w0 w \<Longrightarrow> quiet w0 w'"
  by (auto simp: em28xx_read_reg_def em28xx_read_reg_len_def em28xx_read_reg_req_len_def Let_def
      dest: quiet_control split: option.splits if_splits prod.splits)

lemma quiet_em28xx_bits [quiet_ops]:
  "em28xx_write_reg_bits env dev reg v m w = (rc, w') \<Longrightarrow> quiet w0 w \<Longrightarrow> quiet w0 w'"
  by (auto simp: em28xx_write_reg_bits_def Let_def em28xx_write_regs_def em28xx_write_regs_req_def
      dest!: quiet_em28xx_read [of _ _ _ _ _ _ w0] dest: quiet_control
      split: option.splits if_splits prod.splits)

lemma quiet_em28xx_open [quiet_ops]:
  "em28xx_open env usb w = (d, w') \<Longrightarrow> quiet w0 w \<Longrightarrow> quiet w0 w'"
  by (auto simp: em28xx_open_def ask_def Let_def dest: quiet_em28xx_read [of _ _ _ _ _ _ w0]
      split: option.splits if_splits prod.splits)

lemma quiet_em28xx_speed [quiet_ops]:
  "em28xx_i2c_set_speed env dev v w = (rc, d, w') \<Longrightarrow> quiet w0 w \<Longrightarrow> quiet w0 w'"
  by (auto simp: em28xx_i2c_set_speed_def dest: quiet_em28xx_write
      split: option.splits if_splits prod.splits)

lemma quiet_em28xx_xclk [quiet_ops]:
  "em28xx_set_xclk env dev v w = (rc, w') \<Longrightarrow> quiet w0 w \<Longrightarrow> quiet w0 w'"
  by (auto simp: em28xx_set_xclk_def dest: quiet_em28xx_write split: if_splits)

lemma quiet_em28xx_walk [quiet_ops]:
  "em28xx_gpio_walk env dev qs w = (rc, w') \<Longrightarrow> quiet w0 w \<Longrightarrow> quiet w0 w'"
proof (induction env dev qs w rule: em28xx_gpio_walk.induct)
  case (2 env dev q qs w)
  show ?case
  proof (cases "rs_sleep_ms q < 0")
    case False
    obtain ret w1 where s: "(if rs_reg q \<ge> 0
        then em28xx_write_reg_bits env dev (word_of_int (rs_reg q)) (word_of_int (rs_val q))
               (word_of_int (rs_mask q)) w else (0, w)) = (ret, w1)" by fastforce
    then have w1: "quiet w0 w1" using 2(3) quiet_em28xx_bits by (auto split: if_splits)
    show ?thesis using 2(1) [OF False s [symmetric] refl] 2(2) False s w1
      by (auto split: if_splits)
  qed (use 2 in simp)
qed simp

lemma quiet_em28xx_gpio [quiet_ops]:
  "em28xx_gpio_set env dev mode sq w = (rc, w') \<Longrightarrow> quiet w0 w \<Longrightarrow> quiet w0 w'"
  by (auto simp: em28xx_gpio_set_def Let_def dest!: quiet_em28xx_write [of _ _ _ _ _ _ _ w0]
      quiet_em28xx_walk [of _ _ _ _ _ _ w0] split: option.splits if_splits prod.splits)

lemma quiet_em28xx_dual [quiet_ops]:
  "em28xx_enable_dual_ts_bulk env dev w = (rc, w') \<Longrightarrow> quiet w0 w \<Longrightarrow> quiet w0 w'"
  by (auto simp: em28xx_enable_dual_ts_bulk_def Let_def dest!: quiet_em28xx_write [of _ _ _ _ _ _ _ w0]
      split: if_splits prod.splits)

lemma quiet_em28xx_capture [quiet_ops]:
  "em28xx_capture_start env dev i on w = (rc, w') \<Longrightarrow> quiet w0 w \<Longrightarrow> quiet w0 w'"
  by (auto simp: em28xx_capture_start_def Let_def dest!: quiet_em28xx_write [of _ _ _ _ _ _ _ w0]
      quiet_em28xx_bits [of _ _ _ _ _ _ _ _ w0] split: if_splits prod.splits)

lemma quiet_dib0700_wr [quiet_ops]:
  "dib0700_ctrl_wr env dev tx n w = (rc, w') \<Longrightarrow> quiet w0 w \<Longrightarrow> quiet w0 w'"
  by (auto simp: dib0700_ctrl_wr_def dest: quiet_control split: option.splits if_splits prod.splits)

lemma quiet_dib0700_open [quiet_ops]:
  "dib0700_open env usb w = (d, w') \<Longrightarrow> quiet w0 w \<Longrightarrow> quiet w0 w'"
  by (auto simp: dib0700_open_def ask_def split: option.splits)

lemma quiet_dib0700_cold [quiet_ops]:
  "dib0700_is_cold env dev w = (rc, w') \<Longrightarrow> quiet w0 w \<Longrightarrow> quiet w0 w'"
  by (auto simp: dib0700_is_cold_def dest: quiet_control split: option.splits prod.splits)

lemma quiet_dib0700_version [quiet_ops]:
  "dib0700_get_firmware_version env dev x w = (rc, v, d, w') \<Longrightarrow> quiet w0 w \<Longrightarrow> quiet w0 w'"
  by (auto simp: dib0700_get_firmware_version_def Let_def dest: quiet_control
      split: option.splits prod.splits if_splits)

lemma quiet_dib0700_gpio [quiet_ops]:
  "dib0700_set_gpio env dev gpio dir v w = (rc, d, w') \<Longrightarrow> quiet w0 w \<Longrightarrow> quiet w0 w'"
  by (auto simp: dib0700_set_gpio_def Let_def dest: quiet_dib0700_wr split: option.splits prod.splits)

lemma quiet_dib0700_stream [quiet_ops]:
  "dib0700_streaming_ctrl env dev i on dm w = (rc, d, w') \<Longrightarrow> quiet w0 w \<Longrightarrow> quiet w0 w'"
  by (auto simp: dib0700_streaming_ctrl_def set_usb_xfer_len_def Let_def
      dest!: quiet_dib0700_wr [of _ _ _ _ _ _ _ w0] split: option.splits prod.splits if_splits)

lemma quiet_dib0700_records:
  "dib0700_fw_records env d fw pos pkt w = (rc, w') \<Longrightarrow> quiet w0 w \<Longrightarrow> quiet w0 w'"
proof (induction "length fw - pos" arbitrary: pos pkt w rule: less_induct)
  case less
  show ?case
  proof (cases "pos < length fw \<and> \<not> pos + 4 > length fw \<and> \<not> pos + unat (fw ! pos) + 4 + 1 > length fw")
    case False
    then show ?thesis
      using less(2,3) by (subst (asm) dib0700_fw_records.simps) (auto simp: Let_def split: if_splits)
  next
    case True
    have IH: "dib0700_fw_records env d fw (pos + unat (fw ! pos) + 4 + 1) pkt' w1 = (rc, w') \<Longrightarrow>
        quiet w0 w1 \<Longrightarrow> quiet w0 w'" for pkt' w1
      by (rule less(1)) (use True in auto)
    show ?thesis
      using less(2,3) True
      by (subst (asm) dib0700_fw_records.simps)
         (auto simp: Let_def split: if_splits prod.splits
           dest!: quiet_bulk_write [of _ _ _ _ _ _ _ _ _ w0] dest: IH [simplified])
  qed
qed

lemma quiet_dib0700_download [quiet_ops]:
  "dib0700_download_firmware env fs dev path w = (rc, w') \<Longrightarrow> quiet w0 w \<Longrightarrow> quiet w0 w'"
  by (auto simp: dib0700_download_firmware_def dib0700_jumpram_def Let_def
      dest!: quiet_dib0700_records [of _ _ _ _ _ _ _ _ w0] dest: quiet_bulk_write
      split: option.splits sum.splits prod.splits if_splits)

lemma quiet_dib0700_script [quiet_ops]:
  "dib0700_gpio_script env steps d w = (rc, d', w') \<Longrightarrow> quiet w0 w \<Longrightarrow> quiet w0 w'"
proof (induction env steps d w rule: dib0700_gpio_script.induct)
  case (2 env gpio v ms steps d w)
  obtain rc1 d1 w1 where c: "dib0700_set_gpio env (Some d) gpio 1 v w = (rc1, d1, w1)"
    by (cases "dib0700_set_gpio env (Some d) gpio 1 v w")
  show ?case
    using 2(1) [OF c [symmetric] refl refl] 2(2) quiet_dib0700_gpio [OF c 2(3)]
    by (auto simp: c Let_def split: if_splits)
qed simp

lemma quiet_dvbsky_rw [quiet_ops]:
  "dvbsky_bulk_rw_locked env d a la b lb w = (rc, rb, d', w') \<Longrightarrow> quiet w0 w \<Longrightarrow> quiet w0 w'"
  by (auto simp: dvbsky_bulk_rw_locked_def Let_def dest!: quiet_bulk_write [of _ _ _ _ _ _ _ _ _ w0]
      quiet_bulk_read [of _ _ _ _ _ _ _ _ _ _ w0] split: if_splits prod.splits)

lemma quiet_dvbsky_gpio [quiet_ops]:
  "dvbsky_gpio_ctrl env dev p v w = (rc, d, w') \<Longrightarrow> quiet w0 w \<Longrightarrow> quiet w0 w'"
  by (auto simp: dvbsky_gpio_ctrl_def dest: quiet_dvbsky_rw split: option.splits prod.splits)

lemma quiet_dvbsky_open [quiet_ops]:
  "dvbsky_open env usb w = (d, w') \<Longrightarrow> quiet w0 w \<Longrightarrow> quiet w0 w'"
  by (auto simp: dvbsky_open_def ask_def split: option.splits)

lemma quiet_dvbsky_stream [quiet_ops]:
  "dvbsky_stream_ctrl env dev on w = (rc, w') \<Longrightarrow> quiet w0 w \<Longrightarrow> quiet w0 w'"
  by (auto simp: dvbsky_stream_ctrl_def dvbsky_stream_frame_def
      dest!: quiet_bulk_write [of _ _ _ _ _ _ _ _ _ w0] split: option.splits prod.splits if_splits)

lemma quiet_dvbsky_script [quiet_ops]:
  "dvbsky_gpio_script env steps d w = (rc, d', w') \<Longrightarrow> quiet w0 w \<Longrightarrow> quiet w0 w'"
proof (induction env steps d w rule: dvbsky_gpio_script.induct)
  case (2 env gport v ms steps d w)
  obtain rc1 d1 w1 where c: "dvbsky_gpio_ctrl env (Some d) gport v w = (rc1, d1, w1)"
    by (cases "dvbsky_gpio_ctrl env (Some d) gport v w")
  show ?case
    using 2(1) [OF c [symmetric] refl refl] 2(2) quiet_dvbsky_gpio [OF c 2(3)]
    by (auto simp: c Let_def split: if_splits)
qed simp

subsection \<open>Streams\<close>

lemma quiet_wake [simp]: "quiet w0 w \<Longrightarrow> quiet w0 (stream_wake_select s w)"
  by (simp add: stream_wake_select_def)

lemma quiet_cb: "stream_xfer_cb env c s w = (s', w') \<Longrightarrow> quiet w0 w \<Longrightarrow> quiet w0 w'"
  by (auto simp: stream_xfer_cb_def ask_def Let_def split: if_splits)

lemma quiet_await:
  "await_cancels env evs s w = Some (rest, s', w') \<Longrightarrow> quiet w0 w \<Longrightarrow> quiet w0 w'"
proof (induction env evs s w rule: await_cancels.induct)
  case (2 env c cs s w)
  obtain s1 w1 where cb: "stream_xfer_cb env c s w = (s1, w1)" by force
  show ?case using 2(1) [OF _ cb [symmetric] refl] 2(2) quiet_cb [OF cb 2(3)] 2(3)
    by (auto simp: cb split: if_splits)
qed (auto split: if_splits)

lemma quiet_cancel: "cancel_urbs env us w = (us', n, w') \<Longrightarrow> quiet w0 w \<Longrightarrow> quiet w0 w'"
  by (induction env us w arbitrary: us' n w' rule: cancel_urbs.induct)
     (fastforce simp: ask_def Let_def split: if_splits prod.splits)+

lemma quiet_cancel_first: "cancel_first env k s w = (s', w') \<Longrightarrow> quiet w0 w \<Longrightarrow> quiet w0 w'"
  by (auto simp: cancel_first_def dest: quiet_cancel split: prod.splits)

lemma quiet_submit: "submit_urbs env us i w = (f, w') \<Longrightarrow> quiet w0 w \<Longrightarrow> quiet w0 w'"
  by (induction us arbitrary: i w) (auto simp: ask_def Let_def split: if_splits)

lemma quiet_alloc: "alloc_urbs env n w = (ok, us, w') \<Longrightarrow> quiet w0 w \<Longrightarrow> quiet w0 w'"
  by (induction n arbitrary: ok us w w') (fastforce simp: ask_def Let_def split: if_splits prod.splits)+

lemma quiet_free: "quiet w0 w \<Longrightarrow> quiet w0 (free_xfers us w)"
  by (induction us w rule: free_xfers.induct) simp_all

lemma quiet_free_all: "quiet w0 w \<Longrightarrow> quiet w0 (free_all us w)"
  by (induction us w rule: free_all.induct) simp_all

lemma quiet_stream_close [quiet_ops]:
  "usbq_stream_close env so evs g w = Some (g', w') \<Longrightarrow> quiet w0 w \<Longrightarrow> quiet w0 w'"
  by (auto simp: usbq_stream_close_def dest!: quiet_cancel_first [of _ _ _ _ _ _ w0]
      quiet_await [of _ _ _ _ _ _ _ w0] dest: quiet_evt(2) intro: quiet_free_all
      split: option.splits prod.splits)

lemma quiet_stream_restart [quiet_ops]:
  "usbq_stream_restart env so evs w = Some (rc, so', w') \<Longrightarrow> quiet w0 w \<Longrightarrow> quiet w0 w'"
  by (auto simp: usbq_stream_restart_def Let_def dest!: quiet_cancel_first [of _ _ _ _ _ _ w0]
      quiet_await [of _ _ _ _ _ _ _ w0] quiet_submit [of _ _ _ _ _ _ w0]
      split: option.splits prod.splits if_splits)

lemma quiet_launch:
  "stream_launch env s evs g w = Some (so, g', w') \<Longrightarrow> quiet w0 w \<Longrightarrow> quiet w0 w'"
  by (auto simp: stream_launch_def Let_def dest!: quiet_cancel_first [of _ _ _ _ _ _ w0]
      quiet_await [of _ _ _ _ _ _ _ w0] quiet_submit [of _ _ _ _ _ _ w0] quiet_evt(1) [of _ _ _ _ _ _ w0]
      quiet_evt(2) [of _ _ _ _ w0] intro: quiet_free split: option.splits prod.splits if_splits)

lemma quiet_stream_open [quiet_ops]:
  "usbq_stream_open env dev cfg evs g w = Some (so, g', w') \<Longrightarrow> quiet w0 w \<Longrightarrow> quiet w0 w'"
  by (auto simp: usbq_stream_open_def ask_def Let_def dest!: quiet_alloc [of _ _ _ _ _ _ w0]
      dest: quiet_launch intro: quiet_free split: option.splits prod.splits if_splits)

subsection \<open>Chip drivers and attach functions\<close>

text \<open>A property of the state that every probe and remove of the drivers keeps.\<close>

definition drivers_keep :: "('s, 'fe) chips \<Rightarrow> ('s \<Rightarrow> bool) \<Rightarrow> bool" where
  "drivers_keep chips Q \<longleftrightarrow>
     (\<forall>d \<in> set (ch_drivers chips).
        (\<forall>probe c s ret c' s'. drv_probe d = Some probe \<longrightarrow> probe c s = Some (ret, c', s') \<longrightarrow> Q s \<longrightarrow> Q s') \<and>
        (\<forall>remove c s. drv_remove d = Some remove \<longrightarrow> Q s \<longrightarrow> Q (remove c s)))"

lemma drivers_keep_probe:
  "drivers_keep chips Q \<Longrightarrow> d \<in> set (ch_drivers chips) \<Longrightarrow> drv_probe d = Some probe \<Longrightarrow>
     probe c s = Some (ret, c', s') \<Longrightarrow> Q s \<Longrightarrow> Q s'"
  unfolding drivers_keep_def by blast

lemma drivers_keep_remove:
  "drivers_keep chips Q \<Longrightarrow> d \<in> set (ch_drivers chips) \<Longrightarrow> drv_remove d = Some remove \<Longrightarrow> Q s \<Longrightarrow>
     Q (remove c s)"
  by (simp add: drivers_keep_def)

lemma new_client_yields:
  assumes k: "drivers_keep chips Q" and Q: "Q s" and P: "\<And>x s'. Q s' \<Longrightarrow> P (x, s')"
  shows "yields P (i2c_new_client_device (ch_drivers chips) ok adap info s)"
proof (rule yieldsI)
  fix r
  assume run: "i2c_new_client_device (ch_drivers chips) ok adap info s = Some r"
  have "Q (snd r)"
  proof (cases "snd r = s")
    case False
    then obtain d m probe c ret c' where "find_driver_by_name (bi_type (the info)) (ch_drivers chips) = Some (d, m)"
      "drv_probe d = Some probe" "probe c s = Some (ret, c', snd r)"
      using run
      by (auto simp: i2c_new_client_device_def Let_def bind_eq_Some_conv split: option.split_asm if_split_asm)
    then show ?thesis using drivers_keep_probe [OF k find_driver_in] Q by blast
  qed (simp add: Q)
  then show "P r" using P by (cases r) simp
qed

lemma bind_chip_yields:
  assumes "drivers_keep chips Q" "Q s" and P: "\<And>r s'. Q s' \<Longrightarrow> P (r, s')"
  shows "yields P (bind_chip chips adap name addr cfg s)"
  unfolding bind_chip_def using P
  by (auto intro!: new_client_yields [OF assms(1,2)])

lemma unregister_keeps:
  assumes k: "drivers_keep chips Q" and Q: "Q s"
  shows "Q (i2c_unregister_device (ch_drivers chips) c s)"
  using Q
  by (auto simp: i2c_unregister_device_def find_Some_iff intro: drivers_keep_remove [OF k nth_mem]
      split: option.splits sum.splits)

lemma dualhd_attach_keeps:
  assumes "drivers_keep chips Q" "Q s"
  shows "yields (\<lambda>(rc, at, s'). Q s') (dualhd_attach ty cfg addrs a2 invs chips adap i s)"
  using assms(2)
  by (auto simp: dualhd_attach_def Let_def intro!: bind_chip_yields [OF assms(1)]
      unregister_keeps [OF assms(1)] split: option.split)

lemma xbox_one_attach_keeps:
  assumes "drivers_keep chips Q" "Q s"
  shows "yields (\<lambda>(rc, at, s'). Q s') (xbox_one_attach chips adap i s)"
  using assms(2)
  by (auto simp: xbox_one_attach_def intro!: bind_chip_yields [OF assms(1)]
      unregister_keeps [OF assms(1)] split: option.split)

lemma t230_like_attach_keeps:
  assumes "drivers_keep chips Q" "Q s"
  shows "yields (\<lambda>(rc, at, s'). Q s') (t230_like_attach man ty port chips adap i s)"
  using assms(2)
  by (auto simp: t230_like_attach_def attach_si2168_def attach_tuner_si2157_like_def
      intro!: bind_chip_yields [OF assms(1)] unregister_keeps [OF assms(1)] split: option.split)

lemma attach_functions_keep:
  assumes "drivers_keep chips Q" "Q s"
    and "attach \<in> {wintv_dualhd_dvb_attach, wintv_dualhd_atsc_attach, xbox_one_attach, t230_attach,
                   t230c_attach, t230c2_attach}"
  shows "yields (\<lambda>(rc, at, s'). Q s') (attach chips adap i s)"
  using assms(3) dualhd_attach_keeps [OF assms(1,2)] xbox_one_attach_keeps [OF assms(1,2)]
    t230_like_attach_keeps [OF assms(1,2)]
  by (auto simp: attach_fns)

subsection \<open>Handles opened and closed\<close>

text \<open>The handles the answers opened along \<open>v\<close>, which comes after \<open>w\<close>, and those it closed.\<close>

fun opened :: "host \<Rightarrow> wire \<Rightarrow> wire \<Rightarrow> nat multiset" where
  "opened env w [] = {#}"
| "opened env w (q # v) =
     (let r = env (w @ [q]) in
      (case q of
         Open_Vid_Pid _ _ \<Rightarrow> if r_handle r \<noteq> 0 then {#r_handle r#} else {#}
       | Open_Device _ \<Rightarrow> if r_rc r = 0 \<and> r_handle r \<noteq> 0 then {#r_handle r#} else {#}
       | _ \<Rightarrow> {#})) + opened env (w @ [q]) v"

fun closed :: "wire \<Rightarrow> nat multiset" where
  "closed [] = {#}"
| "closed (Close_Handle h # v) = add_mset h (closed v)"
| "closed (_ # v) = closed v"

lemma opened_append: "opened env w (v1 @ v2) = opened env w v1 + opened env (w @ v1) v2"
  by (induction env w v1 rule: opened.induct) (simp_all add: Let_def)

lemma closed_append [simp]: "closed (v1 @ v2) = closed v1 + closed v2"
  by (induction v1 rule: closed.induct) simp_all

definition held :: "host \<Rightarrow> wire \<Rightarrow> wire \<Rightarrow> nat multiset \<Rightarrow> nat multiset \<Rightarrow> bool" where
  "held env w w' M M' \<longleftrightarrow> (\<exists>v. w' = w @ v \<and> M + opened env w v = M' + closed v)"

lemma held_refl [simp, intro]: "held env w w M M"
  by (simp add: held_def)

lemma held_trans: "held env w w1 M M1 \<Longrightarrow> held env w1 w2 M1 M2 \<Longrightarrow> held env w w2 M M2"
  unfolding held_def
proof (elim exE conjE)
  fix v1 v2
  assume "w1 = w @ v1" "w2 = w1 @ v2" "M + opened env w v1 = M1 + closed v1"
    "M1 + opened env w1 v2 = M2 + closed v2"
  then have "M + opened env w (v1 @ v2) = M2 + closed (v1 @ v2)"
    by (simp add: opened_append ac_simps)
      (metis add.assoc add.commute)
  then show "\<exists>v. w2 = w @ v \<and> M + opened env w v = M2 + closed v"
    using \<open>w1 = w @ v1\<close> \<open>w2 = w1 @ v2\<close> by auto
qed

lemma no_handle_req:
  "(\<forall>q \<in> set v. \<not> handle_req q) \<Longrightarrow> opened env w v = {#} \<and> closed v = {#}"
proof (induction v arbitrary: w)
  case (Cons q v)
  then show ?case by (cases q) (auto simp: Let_def)
qed simp

lemma held_quiet: "quiet w w' \<Longrightarrow> held env w w' M M"
  by (auto simp: quiet_def held_def dest!: no_handle_req [where env = env and w = w])

lemma held_then_quiet: "held env w w1 M M1 \<Longrightarrow> quiet w1 w2 \<Longrightarrow> held env w w2 M M1"
  using held_trans held_quiet by blast

lemma held_close: "held env w (w @ [Close_Handle h]) (add_mset h M) M"
  by (simp add: held_def)

definition dev_handle :: "usbq_dev option \<Rightarrow> nat multiset" where
  "dev_handle d = (case d of None \<Rightarrow> {#} | Some u \<Rightarrow> {#ud_handle u#})"

lemma held_wrap:
  assumes "usbq_dev_wrap env h w = (d, w')"
  shows "held env w w' (add_mset h M) (M + dev_handle d)"
proof -
  have q: "quiet w (w @ [Alloc])" "quiet w (w @ [Alloc, Dev_Descriptor h])"
    "quiet w (w @ [Alloc, Dev_Descriptor h, Auto_Detach h])"
    by (simp_all add: quiet_def)
  show ?thesis
    using assms held_trans [OF held_quiet [OF q(1)] held_close [of env _ h M]]
      held_trans [OF held_quiet [OF q(2)] held_close [of env _ h M]]
      held_quiet [OF q(3), of env "add_mset h M"] held_quiet [OF q(2), of env "add_mset h M"]
    by (auto simp: usbq_dev_wrap_def ask_def Let_def dev_handle_def split: if_splits)
qed

end
