(* ===== verification/Engine_Core.thy ===== *)
theory Engine_Core
  imports Usbq_Stream Boards
begin

text \<open>
  The code the three engines (\<open>bridges/*/dvb/src/dvb_*.c\<close>) have in common, word for word but for the
  bridge they call: per-frontend state, the chip half of a tune, reading, status, opening and tearing
  down a frontend, taking over an opened USB device, opening by id or address, discovery, presence
  scan and shutdown. What differs is a parameter here and is filled in in \<open>Engines\<close>: the capture
  switch, the bring-up, the adapter and the stream settings.

  \<open>'b\<close> is the bridge, \<open>'c\<close> the state the chip drivers keep, \<open>'fe\<close> their frontends. An operation that
  may wait (for the device, a cancellation, a chip) has no result, \<open>None\<close>, when it does not return.
  Logging is left out.
\<close>

type_synonym ('b, 'c) chip_state = "('b \<times> wire) \<times> 'c"

abbreviation bridge_of :: "('b, 'c) chip_state \<Rightarrow> 'b" where "bridge_of s \<equiv> fst (fst s)"
abbreviation wire_of :: "('b, 'c) chip_state \<Rightarrow> wire" where "wire_of s \<equiv> snd (fst s)"

definition set_wire :: "wire \<Rightarrow> ('b, 'c) chip_state \<Rightarrow> ('b, 'c) chip_state" where
  "set_wire w s = ((bridge_of s, w), snd s)"

text \<open>A bridge's adapter as the chip drivers see it, next to their own state.\<close>

definition lift_master :: "('b \<times> wire) master \<Rightarrow> (('b, 'c) chip_state) master" where
  "lift_master xfer msgs s = do {
     (rc, msgs, bw) \<leftarrow> xfer msgs (fst s);
     Some (rc, msgs, (bw, snd s))
   }"

subsection \<open>Frontends of the chip drivers\<close>

record dtv_props =
  dp_frequency :: u32
  dp_delivery_system :: u32
  dp_modulation :: nat
  dp_inversion :: nat
  dp_symbol_rate :: u32
  dp_bandwidth_hz :: u32
  dp_stream_id :: int
  dp_cnr :: "(u8 \<times> int) list"   \<comment> \<open>scale and value of the \<open>cnr.len\<close> entries\<close>

text \<open>The operations of a \<open>struct dvb_frontend\<close> the engines call; \<open>None\<close> is a NULL pointer. Each may
  change the parameter cache.\<close>

type_synonym 's fe_op = "dtv_props \<Rightarrow> 's \<Rightarrow> (int \<times> dtv_props \<times> 's) option"

record 's fe_ops =
  fo_init :: "'s fe_op option"
  fo_sleep :: "'s fe_op option"
  fo_tuner_init :: "'s fe_op option"
  fo_tuner_sleep :: "'s fe_op option"
  fo_set_frontend :: "'s fe_op option"
  fo_read_status :: "(dtv_props \<Rightarrow> 's \<Rightarrow> (int \<times> u32 \<times> dtv_props \<times> 's) option) option"

text \<open>What surrounds a run: libusb and the hardware, the chip drivers, and what happens while a call
  waits (the callbacks that run, the clock, the outcomes of the timed waits).\<close>

record ('s, 'fe) engine_env =
  en_host :: host
  en_chips :: "('s, 'fe) chips"
  en_ops :: "'fe \<Rightarrow> 's fe_ops"
  en_cache :: "'fe \<Rightarrow> dtv_props"
  en_evs :: "wire \<Rightarrow> completion list"
  en_now :: "wire \<Rightarrow> int \<times> int"
  en_waits :: "wire \<Rightarrow> int \<times> int \<Rightarrow> (completion list \<times> int) list"

record ('s, 'fe) frontend =
  ef_demod_client :: "('s, 'fe) client option"
  ef_fe :: "'fe option"
  ef_cache :: dtv_props
  ef_tuner_client :: "('s, 'fe) client option"
  ef_demod_init_done :: bool
  ef_tuner_init_done :: bool
  ef_capture_on :: bool
  ef_index :: int
  ef_endpoint :: u8
  ef_tune_count :: u32
  ef_stream :: "stream option"
  ef_wake_pipe :: "int \<times> int"
  ef_last_lock :: bool   \<comment> \<open>dvbsky only\<close>
  ef_handle :: "dvb_frontend_handle option"

definition zero_cache :: dtv_props where
  "zero_cache = \<lparr>dp_frequency = 0, dp_delivery_system = 0, dp_modulation = 0, dp_inversion = 0,
                 dp_symbol_rate = 0, dp_bandwidth_hz = 0, dp_stream_id = 0, dp_cnr = []\<rparr>"

text \<open>\<open>calloc\<close>ed, with the fields \<open>frontend_open\<close> sets first.\<close>

definition new_frontend :: "int \<Rightarrow> u8 \<Rightarrow> ('s, 'fe) frontend" where
  "new_frontend fn ep =
     \<lparr>ef_demod_client = None, ef_fe = None, ef_cache = zero_cache, ef_tuner_client = None,
      ef_demod_init_done = False, ef_tuner_init_done = False, ef_capture_on = False, ef_index = fn,
      ef_endpoint = ep, ef_tune_count = 0, ef_stream = None, ef_wake_pipe = (-1, -1),
      ef_last_lock = False, ef_handle = None\<rparr>"

subsection \<open>Vtable operations\<close>

definition QAM_AUTO :: nat where "QAM_AUTO = 6"
definition INVERSION_AUTO :: nat where "INVERSION_AUTO = 2"
definition NO_STREAM_ID_FILTER :: int where "NO_STREAM_ID_FILTER = -1"

definition tune_cache :: "dvb_tune_params \<Rightarrow> dtv_props \<Rightarrow> dtv_props" where
  "tune_cache p c =
     c\<lparr>dp_delivery_system := tp_delsys p, dp_frequency := tp_freq_hz p,
       dp_bandwidth_hz := (if tp_bandwidth_hz p \<noteq> 0 then tp_bandwidth_hz p else 8000000),
       dp_symbol_rate := tp_symbol_rate p,
       dp_stream_id := (if tp_stream_id p < 0 then NO_STREAM_ID_FILTER else tp_stream_id p),
       dp_modulation := QAM_AUTO, dp_inversion := INVERSION_AUTO\<rparr>"

text \<open>A tune up to the return of \<open>set_frontend\<close>.\<close>

definition tune_chip :: "('s, 'fe) engine_env \<Rightarrow> ('s, 'fe) frontend option \<Rightarrow> dvb_tune_params option \<Rightarrow> 's
    \<Rightarrow> (int \<times> ('s, 'fe) frontend option \<times> 's) option" where
  "tune_chip E so po s =
     (case (so, po) of
        (Some fe, Some p) \<Rightarrow>
          (case ef_fe fe of
             None \<Rightarrow> Some (- EINVAL, so, s)
           | Some f \<Rightarrow>
               let fe = fe\<lparr>ef_tune_count := ef_tune_count fe + 1, ef_cache := tune_cache p (ef_cache fe)\<rparr>
               in (case fo_set_frontend (en_ops E f) of
                     None \<Rightarrow> Some (- ENOSYS, Some fe, s)
                   | Some set_frontend \<Rightarrow> do {
                       (rc, c, s) \<leftarrow> set_frontend (ef_cache fe) s;
                       Some (rc, Some (fe\<lparr>ef_cache := c\<rparr>), s)
                     }))
      | _ \<Rightarrow> Some (- EINVAL, so, s))"

definition engine_read_ts :: "(('b, 'c) chip_state, 'fe) engine_env
    \<Rightarrow> (('b, 'c) chip_state, 'fe) frontend option \<Rightarrow> bytes option \<Rightarrow> nat \<Rightarrow> u32 \<Rightarrow> ('b, 'c) chip_state
    \<Rightarrow> (int \<times> bytes option \<times> (('b, 'c) chip_state, 'fe) frontend option \<times> ('b, 'c) chip_state) option" where
  "engine_read_ts E so buf len timeout_ms s =
     (case so of
        None \<Rightarrow> Some (- EINVAL, buf, so, s)
      | Some fe \<Rightarrow>
          if buf = None \<or> len = 0 then Some (- EINVAL, buf, so, s)
          else
            (case ef_stream fe of
               None \<Rightarrow> Some (0, buf, so, s)
             | Some st \<Rightarrow> do {
                 (rc, buf, st, w) \<leftarrow> usbq_stream_read (en_host E) (Some st) buf len timeout_ms
                    (en_now E (wire_of s)) (en_waits E (wire_of s)) (wire_of s);
                 Some (rc, buf, Some (fe\<lparr>ef_stream := st\<rparr>), set_wire w s)
               }))"

definition FE_SCALE_DECIBEL :: u8 where "FE_SCALE_DECIBEL = 1"

definition decode_status :: "u32 \<Rightarrow> dtv_props \<Rightarrow> dvb_status" where
  "decode_status st c =
     \<lparr>st_has_signal = bit st 0, st_has_carrier = bit st 1, st_has_viterbi = bit st 2,
      st_has_sync = bit st 3, st_has_lock = bit st 4,
      st_cnr_db_x1000 =
        (case dp_cnr c of
           [] \<Rightarrow> 0
         | (scale, svalue) # _ \<Rightarrow> if scale = FE_SCALE_DECIBEL then sint (word_of_int svalue :: u32) else 0)\<rparr>"

text \<open>\<open>*out\<close> is cleared only by the argument check; a failing \<open>read_status\<close> leaves it alone.\<close>

definition engine_get_status :: "('s, 'fe) engine_env \<Rightarrow> ('s, 'fe) frontend option \<Rightarrow> dvb_status option \<Rightarrow> 's
    \<Rightarrow> (int \<times> dvb_status option \<times> ('s, 'fe) frontend option \<times> 's) option" where
  "engine_get_status E so out s =
     (case (so, out) of
        (Some fe, Some _) \<Rightarrow>
          (case ef_fe fe of
             None \<Rightarrow> Some (- EINVAL, Some no_status, so, s)
           | Some f \<Rightarrow>
               (case fo_read_status (en_ops E f) of
                  None \<Rightarrow> Some (- EINVAL, Some no_status, so, s)
                | Some read_status \<Rightarrow> do {
                    (rc, st, c, s) \<leftarrow> read_status (ef_cache fe) s;
                    Some (if rc < 0 then rc else 0, if rc < 0 then out else Some (decode_status st c),
                          Some (fe\<lparr>ef_cache := c\<rparr>), s)
                  }))
      | _ \<Rightarrow> Some (- EINVAL, (if out = None then None else Some no_status), so, s))"

definition engine_event_fd :: "('s, 'fe) frontend option \<Rightarrow> int" where
  "engine_event_fd so = (case so of None \<Rightarrow> -1 | Some fe \<Rightarrow> fst (ef_wake_pipe fe))"

text \<open>The capture switch of a bridge: frontend index, on or off.\<close>

type_synonym 'b capture = "int \<Rightarrow> bool \<Rightarrow> 'b \<Rightarrow> wire \<Rightarrow> int \<times> 'b \<times> wire"

definition run_capture :: "'b capture \<Rightarrow> int \<Rightarrow> bool \<Rightarrow> ('b, 'c) chip_state \<Rightarrow> int \<times> ('b, 'c) chip_state" where
  "run_capture cap i on s = (let (rc, b, w) = cap i on (bridge_of s) (wire_of s) in (rc, ((b, w), snd s)))"

definition engine_capture_stop :: "'b capture \<Rightarrow> (('b, 'c) chip_state, 'fe) frontend option
    \<Rightarrow> ('b, 'c) chip_state \<Rightarrow> int \<times> (('b, 'c) chip_state, 'fe) frontend option \<times> ('b, 'c) chip_state" where
  "engine_capture_stop cap so s =
     (case so of
        None \<Rightarrow> (- EINVAL, so, s)
      | Some fe \<Rightarrow>
          if \<not> ef_capture_on fe then (0, so, s)
          else
            let (rc, s) = run_capture cap (ef_index fe) False s
            in if rc < 0 then (rc, so, s)
               else (0, Some (fe\<lparr>ef_capture_on := False, ef_last_lock := False\<rparr>), s))"

subsection \<open>Opening a frontend\<close>

text \<open>An optional chip operation: whether it ran and succeeded.\<close>

definition run_op :: "'s fe_op option \<Rightarrow> dtv_props \<Rightarrow> 's \<Rightarrow> (int \<times> bool \<times> dtv_props \<times> 's) option" where
  "run_op f c s =
     (case f of None \<Rightarrow> Some (0, False, c, s)
      | Some f \<Rightarrow> do { (rc, c, s) \<leftarrow> f c s; Some (rc, \<not> rc < 0, c, s) })"

definition display_name :: "('s, 'fe, 'z) board_scheme \<Rightarrow> int \<Rightarrow> string" where
  "display_name b fn =
     take 95 (if b_num_frontends b > 1 then b_name b @ '' (fe'' @ dec_string (nat fn) @ '')'' else b_name b)"

text \<open>A device under construction is named by its engine and its number.\<close>

type_synonym dev_name = "bridge_kind \<times> nat"

definition publish :: "('s, 'fe, 'z) board_scheme \<Rightarrow> usbq_dev \<Rightarrow> dev_name \<Rightarrow> int \<Rightarrow> dvb_frontend_handle" where
  "publish b usb dev fn =
     \<lparr>fh_ops = fst dev, fh_engine_state = (snd dev, nat fn), fh_display_name = display_name b fn, fh_supported_delsys = b_supported_delsys b,
      fh_bus = ud_bus usb, fh_addr = ud_addr usb\<rparr>"

text \<open>A failing \<open>pipe\<close> answers with its negated \<open>errno\<close>. The last argument but two is the stream's
  settings for the pipe's write end. Attach functions that succeed set the frontend; without one the
  code would dereference NULL (no result).\<close>

definition engine_frontend_open :: "(('b, 'c) chip_state, 'fe) engine_env
    \<Rightarrow> (('b, 'c) chip_state, 'fe, 'z) board_scheme \<Rightarrow> (int \<Rightarrow> stream_cfg) \<Rightarrow> usbq_dev
    \<Rightarrow> dev_name \<Rightarrow> ('b, 'c) chip_state master \<Rightarrow> int \<Rightarrow> usbq_lib \<Rightarrow> ('b, 'c) chip_state
    \<Rightarrow> (int \<times> (('b, 'c) chip_state, 'fe) frontend \<times> usbq_lib \<times> ('b, 'c) chip_state) option" where
  "engine_frontend_open E board scfg usb dev adap fn g s =
     (let fe = new_frontend fn (cfg_endpoint (scfg 0));
          (r, w) = ask (en_host E) Pipe (wire_of s)
      in if r_rc r < 0 then Some (r_rc r, fe, g, set_wire w s)
         else
           let fe = fe\<lparr>ef_wake_pipe := r_fds r\<rparr>;
               s = set_wire (w @ [Set_Nonblock (fst (r_fds r)), Set_Nonblock (snd (r_fds r))]) s
           in do {
             (rc, at, s) \<leftarrow> b_attach board (en_chips E) (Some adap) fn s;
             let fe = fe\<lparr>ef_demod_client := at_demod at, ef_fe := at_fe at, ef_tuner_client := at_tuner at\<rparr>;
             if rc < 0 then Some (rc, fe, g, s)
             else
               (case at_fe at of
                  None \<Rightarrow> None
                | Some f \<Rightarrow> do {
                    (rc, done, c, s) \<leftarrow> run_op (fo_init (en_ops E f)) (en_cache E f) s;
                    let fe = fe\<lparr>ef_cache := c, ef_demod_init_done := done\<rparr>;
                    if rc < 0 then Some (rc, fe, g, s)
                    else do {
                      (rc, done, c, s) \<leftarrow> run_op (fo_tuner_init (en_ops E f)) c s;
                      let fe = fe\<lparr>ef_cache := c, ef_tuner_init_done := done\<rparr>;
                      if rc < 0 then Some (rc, fe, g, s)
                      else do {
                        (st, g, w) \<leftarrow> usbq_stream_open (en_host E) (Some usb) (Some (scfg (snd (r_fds r))))
                           (en_evs E (wire_of s)) g (wire_of s);
                        let s = set_wire w s;
                        Some (if st = None then (- EIO, fe, g, s)
                              else (0, fe\<lparr>ef_stream := st, ef_handle := Some (publish board usb dev fn)\<rparr>, g, s))
                      }
                    }
                  })
           })"

subsection \<open>Tearing a frontend down\<close>

definition run_sleep :: "bool \<Rightarrow> 's fe_op option \<Rightarrow> dtv_props \<Rightarrow> 's \<Rightarrow> (dtv_props \<times> 's) option" where
  "run_sleep armed f c s =
     (case f of Some f \<Rightarrow> if armed then do { (_, c, s) \<leftarrow> f c s; Some (c, s) } else Some (c, s)
      | None \<Rightarrow> Some (c, s))"

definition close_fds :: "int list \<Rightarrow> wire \<Rightarrow> wire" where
  "close_fds fds w = w @ map Close_Fd (filter (\<lambda>fd. fd \<ge> 0) fds)"

text \<open>The client pointers are not cleared.\<close>

definition engine_frontend_teardown :: "(('b, 'c) chip_state, 'fe) engine_env \<Rightarrow> 'b capture
    \<Rightarrow> (('b, 'c) chip_state, 'fe) frontend \<Rightarrow> usbq_lib \<Rightarrow> ('b, 'c) chip_state
    \<Rightarrow> ((('b, 'c) chip_state, 'fe) frontend \<times> usbq_lib \<times> ('b, 'c) chip_state) option" where
  "engine_frontend_teardown E cap fe g s =
     (let s = (if ef_capture_on fe then snd (run_capture cap (ef_index fe) False s) else s);
          fe = fe\<lparr>ef_capture_on := False\<rparr>
      in do {
        (g, w) \<leftarrow> usbq_stream_close (en_host E) (ef_stream fe) (en_evs E (wire_of s)) g (wire_of s);
        let s = set_wire w s;
        let fe = fe\<lparr>ef_stream := None\<rparr>;
        (c, s) \<leftarrow> (case ef_fe fe of
            None \<Rightarrow> Some (ef_cache fe, s)
          | Some f \<Rightarrow> do {
              (c, s) \<leftarrow> run_sleep (ef_tuner_init_done fe) (fo_tuner_sleep (en_ops E f)) (ef_cache fe) s;
              run_sleep (ef_demod_init_done fe) (fo_sleep (en_ops E f)) c s
            });
        let s = i2c_unregister_device (ch_drivers (en_chips E)) (map_option Inr (ef_tuner_client fe)) s;
        let s = i2c_unregister_device (ch_drivers (en_chips E)) (map_option Inr (ef_demod_client fe)) s;
        let s = set_wire (close_fds [snd (ef_wake_pipe fe), fst (ef_wake_pipe fe)] (wire_of s)) s;
        Some (fe\<lparr>ef_cache := c, ef_wake_pipe := (-1, -1), ef_handle := None\<rparr>, g, s)
      })"

subsection \<open>Devices\<close>

record ('b, 'c, 'fe) engine_dev =
  ed_usb :: usbq_dev
  ed_bridge :: 'b
  ed_frontends :: "(('b, 'c) chip_state, 'fe) frontend list"

text \<open>The state of one engine, with the library and the wire it shares with the others: \<open>g_devices\<close>
  (newest first) and \<open>g_usbq_inited\<close>.\<close>

record ('b, 'c, 'fe) engine =
  en_devices :: "('b, 'c, 'fe) engine_dev list"
  en_inited :: bool
  en_lib :: usbq_lib
  en_chip :: 'c
  en_wire :: wire

text \<open>What is at the address of a frontend: the place of its device in the list, and its own in the device.\<close>

definition dev_frontend :: "('b, 'c, 'fe) engine \<Rightarrow> frontend_addr \<Rightarrow> (nat \<times> nat) option" where
  "dev_frontend W a =
     (let k = length (en_devices W) - Suc (fst a)
      in if fst a < length (en_devices W) \<and> snd a < length (ed_frontends (en_devices W ! k)) then Some (k, snd a)
         else None)"

lemma dev_frontend_SomeD:
  "dev_frontend W a = Some (k, i) \<Longrightarrow> k < length (en_devices W) \<and> i < length (ed_frontends (en_devices W ! k))"
  by (auto simp: dev_frontend_def Let_def split: if_splits)

definition give_back :: "(('b, 'c) chip_state, 'fe) engine_env \<Rightarrow> usbq_dev \<Rightarrow> wire \<Rightarrow> wire" where
  "give_back E usb w = usbq_close (Some usb) (snd (usbq_release_interface (en_host E) (Some usb) 0 w))"

fun teardown_all :: "(('b, 'c) chip_state, 'fe) engine_env \<Rightarrow> 'b capture
    \<Rightarrow> (('b, 'c) chip_state, 'fe) frontend list \<Rightarrow> usbq_lib \<Rightarrow> ('b, 'c) chip_state
    \<Rightarrow> ((('b, 'c) chip_state, 'fe) frontend list \<times> usbq_lib \<times> ('b, 'c) chip_state) option" where
  "teardown_all E cap [] g s = Some ([], g, s)"
| "teardown_all E cap (fe # fes) g s = do {
     (fe, g, s) \<leftarrow> engine_frontend_teardown E cap fe g s;
     (fes, g, s) \<leftarrow> teardown_all E cap fes g s;
     Some (fe # fes, g, s)
   }"

text \<open>The frontend loop: \<open>fes\<close> are those opened so far. When one fails, the earlier ones are torn down
  here, and the caller's \<open>fail\<close> label does it again.\<close>

fun open_frontends :: "(('b, 'c) chip_state, 'fe) engine_env \<Rightarrow> 'b capture
    \<Rightarrow> (('b, 'c) chip_state, 'fe, 'z) board_scheme \<Rightarrow> (int \<Rightarrow> int \<Rightarrow> stream_cfg) \<Rightarrow> usbq_dev
    \<Rightarrow> dev_name \<Rightarrow> ('b, 'c) chip_state master \<Rightarrow> nat \<Rightarrow> (('b, 'c) chip_state, 'fe) frontend list \<Rightarrow> usbq_lib
    \<Rightarrow> ('b, 'c) chip_state
    \<Rightarrow> (bool \<times> (('b, 'c) chip_state, 'fe) frontend list \<times> usbq_lib \<times> ('b, 'c) chip_state) option" where
  "open_frontends E cap board scfg usb dev adap 0 fes g s = Some (True, fes, g, s)"
| "open_frontends E cap board scfg usb dev adap (Suc k) fes g s = do {
     let fn = int (length fes);
     (rc, fe, g, s) \<leftarrow> engine_frontend_open E board (scfg fn) usb dev adap fn g s;
     if rc < 0 then do {
       (fes, g, s) \<leftarrow> teardown_all E cap fes g s;
       Some (False, fes, g, s)
     }
     else open_frontends E cap board scfg usb dev adap k (fes @ [fe]) g s
   }"

text \<open>What distinguishes the engines in \<open>open_device_from_usb\<close>: the vtable, the capacity check (em28xx only), the
  bring-up of the bridge (\<open>None\<close> when it fails; closing a bridge frees memory only), the adapter, the
  stream settings by frontend and wake descriptor, the board table, and two of the handles' operations.\<close>

record ('b, 'c, 'fe, 'z) engine_kind =
  ek_ops :: bridge_kind
  ek_capture :: "'b capture"
  ek_capacity :: "int option"
  ek_bring_up :: "(('b, 'c) chip_state, 'fe, 'z) board_scheme \<Rightarrow> usbq_dev \<Rightarrow> wire \<Rightarrow> 'b option \<times> wire"
  ek_adapter :: "'b \<Rightarrow> ('b \<times> wire) master option"
  ek_stream_cfg :: "(('b, 'c) chip_state, 'fe, 'z) board_scheme \<Rightarrow> int \<Rightarrow> int \<Rightarrow> stream_cfg"
  ek_table :: "(('b, 'c) chip_state, 'fe, 'z) board_scheme list"
  ek_name :: string
  ek_tune :: "(('b, 'c) chip_state, 'fe) engine_env \<Rightarrow> (('b, 'c) chip_state, 'fe) frontend option
    \<Rightarrow> dvb_tune_params option \<Rightarrow> ('b, 'c) chip_state
    \<Rightarrow> (int \<times> (('b, 'c) chip_state, 'fe) frontend option \<times> ('b, 'c) chip_state) option"
  ek_get_status :: "(('b, 'c) chip_state, 'fe) engine_env \<Rightarrow> (('b, 'c) chip_state, 'fe) frontend option
    \<Rightarrow> dvb_status option \<Rightarrow> ('b, 'c) chip_state
    \<Rightarrow> (int \<times> dvb_status option \<times> (('b, 'c) chip_state, 'fe) frontend option \<times> ('b, 'c) chip_state) option"

text \<open>The result is the number of frontends published and their handles.\<close>

definition engine_open_from_usb :: "(('b, 'c) chip_state, 'fe) engine_env \<Rightarrow> ('b, 'c, 'fe, 'z) engine_kind
    \<Rightarrow> (('b, 'c) chip_state, 'fe, 'z) board_scheme \<Rightarrow> usbq_dev \<Rightarrow> int \<Rightarrow> ('b, 'c, 'fe) engine
    \<Rightarrow> (int \<times> dvb_frontend_handle list \<times> ('b, 'c, 'fe) engine) option" where
  "engine_open_from_usb E K board usb max_out W =
     (let refuse = (\<lambda>g c w. Some (0, [], W\<lparr>en_lib := g, en_chip := c, en_wire := give_back E usb w\<rparr>))
      in if (case ek_capacity K of None \<Rightarrow> False | Some cap \<Rightarrow> b_num_frontends board > cap)
           \<or> max_out < b_num_frontends board then refuse (en_lib W) (en_chip W) (en_wire W)
         else
           let (r, w) = ask (en_host E) Alloc (en_wire W)
           in if r_rc r = 0 then refuse (en_lib W) (en_chip W) w
              else
                let (bridge, w) = ek_bring_up K board usb w
                in (case bridge of
                      None \<Rightarrow> refuse (en_lib W) (en_chip W) w
                    | Some b \<Rightarrow>
                        (case ek_adapter K b of
                           None \<Rightarrow> refuse (en_lib W) (en_chip W) w
                         | Some xfer \<Rightarrow> do {
                             (ok, fes, g, s) \<leftarrow> open_frontends E (ek_capture K) board (ek_stream_cfg K board) usb
                                (ek_ops K, length (en_devices W)) (lift_master xfer) (nat (b_num_frontends board)) [] (en_lib W)
                                ((b, w), en_chip W);
                             if ok then
                               Some (b_num_frontends board, map (the \<circ> ef_handle) fes,
                                     W\<lparr>en_devices := \<lparr>ed_usb = usb, ed_bridge = bridge_of s, ed_frontends = fes\<rparr>
                                                      # en_devices W,
                                       en_lib := g, en_chip := snd s, en_wire := wire_of s\<rparr>)
                             else do {
                               (fes, g, s) \<leftarrow> teardown_all E (ek_capture K) fes g s;
                               refuse g (snd s) (wire_of s)
                             }
                           })))"

definition claim_and_open :: "(('b, 'c) chip_state, 'fe) engine_env \<Rightarrow> ('b, 'c, 'fe, 'z) engine_kind
    \<Rightarrow> (('b, 'c) chip_state, 'fe, 'z) board_scheme \<Rightarrow> usbq_dev \<Rightarrow> int \<Rightarrow> ('b, 'c, 'fe) engine
    \<Rightarrow> (int \<times> dvb_frontend_handle list \<times> ('b, 'c, 'fe) engine) option" where
  "claim_and_open E K board usb max_out W =
     (let (_, w) = usbq_disconnect_kernel_driver (en_host E) (Some usb) (en_wire W);
          (rc, w) = usbq_claim_interface (en_host E) (Some usb) 0 w
      in if rc < 0 then Some (0, [], W\<lparr>en_wire := usbq_close (Some usb) w\<rparr>)
         else engine_open_from_usb E K board usb max_out (W\<lparr>en_wire := w\<rparr>))"

definition engine_open_device :: "(('b, 'c) chip_state, 'fe) engine_env \<Rightarrow> ('b, 'c, 'fe, 'z) engine_kind
    \<Rightarrow> (('b, 'c) chip_state, 'fe, 'z) board_scheme \<Rightarrow> string \<Rightarrow> int \<Rightarrow> ('b, 'c, 'fe) engine
    \<Rightarrow> (int \<times> dvb_frontend_handle list \<times> ('b, 'c, 'fe) engine) option" where
  "engine_open_device E K board vidpid max_out W =
     (let (usb, g, w) = usbq_open (en_host E) (Some vidpid) (en_lib W) (en_wire W);
          W = W\<lparr>en_lib := g, en_wire := w\<rparr>
      in case usb of None \<Rightarrow> Some (0, [], W) | Some usb \<Rightarrow> claim_and_open E K board usb max_out W)"

subsection \<open>The public operations\<close>

definition ensure_init :: "(('b, 'c) chip_state, 'fe) engine_env \<Rightarrow> ('b, 'c, 'fe) engine
    \<Rightarrow> bool \<times> ('b, 'c, 'fe) engine" where
  "ensure_init E W =
     (if en_inited W then (True, W)
      else
        let (rc, g, w) = usbq_init (en_host E) (en_lib W) (en_wire W);
            W = W\<lparr>en_lib := g, en_wire := w\<rparr>
        in if rc \<noteq> 0 then (False, W) else (True, W\<lparr>en_inited := True\<rparr>))"

text \<open>\<open>has_handles\<close>: whether the caller's array is not NULL.\<close>

definition engine_open :: "(('b, 'c) chip_state, 'fe) engine_env \<Rightarrow> ('b, 'c, 'fe, 'z) engine_kind
    \<Rightarrow> string option \<Rightarrow> bool \<Rightarrow> int \<Rightarrow> ('b, 'c, 'fe) engine
    \<Rightarrow> (int \<times> dvb_frontend_handle list \<times> ('b, 'c, 'fe) engine) option" where
  "engine_open E K vidpid has_handles mx W =
     (case vidpid of
        None \<Rightarrow> Some (0, [], W)
      | Some v \<Rightarrow>
          if \<not> has_handles \<or> mx \<le> 0 then Some (0, [], W)
          else
            let (ok, W) = ensure_init E W
            in if \<not> ok then Some (0, [], W)
               else (case find_board_by_vidpid (ek_table K) (Some v) of
                       None \<Rightarrow> Some (0, [], W)
                     | Some board \<Rightarrow> engine_open_device E K board v mx W))"

definition engine_open_by_addr :: "(('b, 'c) chip_state, 'fe) engine_env \<Rightarrow> ('b, 'c, 'fe, 'z) engine_kind
    \<Rightarrow> u8 \<Rightarrow> u8 \<Rightarrow> bool \<Rightarrow> int \<Rightarrow> ('b, 'c, 'fe) engine
    \<Rightarrow> (int \<times> dvb_frontend_handle list \<times> ('b, 'c, 'fe) engine) option" where
  "engine_open_by_addr E K bus addr has_handles mx W =
     (if \<not> has_handles \<or> mx \<le> 0 then Some (0, [], W)
      else
        let (ok, W) = ensure_init E W
        in if \<not> ok then Some (0, [], W)
           else
             let (usb, g, w) = usbq_open_by_addr (en_host E) bus addr (en_lib W) (en_wire W);
                 W = W\<lparr>en_lib := g, en_wire := w\<rparr>
             in case usb of
                  None \<Rightarrow> Some (0, [], W)
                | Some usb \<Rightarrow>
                    (case find_board_by_vidpid (ek_table K) (Some (format_vidpid (ud_vid usb) (ud_pid usb))) of
                       None \<Rightarrow> Some (0, [], W\<lparr>en_wire := usbq_close (Some usb) (en_wire W)\<rparr>)
                     | Some board \<Rightarrow> claim_and_open E K board usb mx W))"

fun discover_ids :: "(('b, 'c) chip_state, 'fe) engine_env \<Rightarrow> ('b, 'c, 'fe, 'z) engine_kind
    \<Rightarrow> (('b, 'c) chip_state, 'fe, 'z) board_scheme \<Rightarrow> int \<Rightarrow> string list \<Rightarrow> int \<Rightarrow> dvb_frontend_handle list
    \<Rightarrow> ('b, 'c, 'fe) engine \<Rightarrow> (int \<times> dvb_frontend_handle list \<times> ('b, 'c, 'fe) engine) option" where
  "discover_ids E K b mx [] published hs W = Some (published, hs, W)"
| "discover_ids E K b mx (v # vs) published hs W =
     (if published < mx then do {
        (n, new, W) \<leftarrow> engine_open_device E K b v (mx - published) W;
        discover_ids E K b mx vs (published + n) (hs @ new) W
      }
      else Some (published, hs, W))"

fun discover_boards :: "(('b, 'c) chip_state, 'fe) engine_env \<Rightarrow> ('b, 'c, 'fe, 'z) engine_kind \<Rightarrow> int
    \<Rightarrow> (('b, 'c) chip_state, 'fe, 'z) board_scheme list \<Rightarrow> int \<Rightarrow> dvb_frontend_handle list
    \<Rightarrow> ('b, 'c, 'fe) engine \<Rightarrow> (int \<times> dvb_frontend_handle list \<times> ('b, 'c, 'fe) engine) option" where
  "discover_boards E K mx [] published hs W = Some (published, hs, W)"
| "discover_boards E K mx (b # bs) published hs W = do {
     (published, hs, W) \<leftarrow> discover_ids E K b mx (b_vidpids b) published hs W;
     discover_boards E K mx bs published hs W
   }"

definition engine_discover_all :: "(('b, 'c) chip_state, 'fe) engine_env \<Rightarrow> ('b, 'c, 'fe, 'z) engine_kind
    \<Rightarrow> bool \<Rightarrow> int \<Rightarrow> ('b, 'c, 'fe) engine
    \<Rightarrow> (int \<times> dvb_frontend_handle list \<times> ('b, 'c, 'fe) engine) option" where
  "engine_discover_all E K has_handles mx W =
     (if \<not> has_handles \<or> mx \<le> 0 then Some (0, [], W)
      else
        let (ok, W) = ensure_init E W
        in if \<not> ok then Some (0, [], W) else discover_boards E K mx (ek_table K) 0 [] W)"

text \<open>The presence scan: rows for at most 16 devices of an id.\<close>

definition present_row :: "string \<Rightarrow> ('s, 'fe, 'z) board_scheme \<Rightarrow> string \<Rightarrow> usbq_device_info
    \<Rightarrow> dvb_present_board" where
  "present_row bridge b v d =
     \<lparr>pb_bridge = bridge, pb_name = b_name b, pb_vidpid = v, pb_num_frontends = b_num_frontends b,
      pb_bus = dinf_bus d, pb_addr = dinf_addr d\<rparr>"

fun scan_ids :: "host \<Rightarrow> string \<Rightarrow> ('s, 'fe, 'z) board_scheme \<Rightarrow> int \<Rightarrow> string list \<Rightarrow> dvb_present_board list
    \<Rightarrow> usbq_lib \<Rightarrow> wire \<Rightarrow> dvb_present_board list \<times> usbq_lib \<times> wire" where
  "scan_ids env bridge b mx [] out g w = (out, g, w)"
| "scan_ids env bridge b mx (v # vs) out g w =
     (if int (length out) < mx then
        let (dn, devs, g, w) = usbq_enumerate env (Some v) 16 g w;
            rows = map (present_row bridge b v) (take (nat dn) devs)
        in scan_ids env bridge b mx vs (out @ take (nat mx - length out) rows) g w
      else (out, g, w))"

fun scan_boards :: "host \<Rightarrow> string \<Rightarrow> int \<Rightarrow> ('s, 'fe, 'z) board_scheme list \<Rightarrow> dvb_present_board list
    \<Rightarrow> usbq_lib \<Rightarrow> wire \<Rightarrow> dvb_present_board list \<times> usbq_lib \<times> wire" where
  "scan_boards env bridge mx [] out g w = (out, g, w)"
| "scan_boards env bridge mx (b # bs) out g w =
     (if int (length out) < mx then
        let (out, g, w) = scan_ids env bridge b mx (b_vidpids b) out g w
        in scan_boards env bridge mx bs out g w
      else (out, g, w))"

definition engine_scan_present :: "host \<Rightarrow> string \<Rightarrow> ('s, 'fe, 'z) board_scheme list \<Rightarrow> bool \<Rightarrow> int
    \<Rightarrow> usbq_lib \<Rightarrow> wire \<Rightarrow> dvb_present_board list \<times> usbq_lib \<times> wire" where
  "engine_scan_present env bridge table has_out mx g w =
     (if \<not> has_out \<or> mx \<le> 0 then ([], g, w)
      else
        let (rc, g, w) = usbq_init env g w
        in if rc \<noteq> 0 then ([], g, w) else scan_boards env bridge mx table [] g w)"

fun close_devices :: "(('b, 'c) chip_state, 'fe) engine_env \<Rightarrow> 'b capture \<Rightarrow> ('b, 'c, 'fe) engine_dev list
    \<Rightarrow> usbq_lib \<Rightarrow> 'c \<Rightarrow> wire \<Rightarrow> (usbq_lib \<times> 'c \<times> wire) option" where
  "close_devices E cap [] g c w = Some (g, c, w)"
| "close_devices E cap (d # ds) g c w = do {
     (_, g, s) \<leftarrow> teardown_all E cap (ed_frontends d) g ((ed_bridge d, w), c);
     close_devices E cap ds g (snd s) (give_back E (ed_usb d) (wire_of s))
   }"

definition engine_shutdown :: "(('b, 'c) chip_state, 'fe) engine_env \<Rightarrow> 'b capture \<Rightarrow> ('b, 'c, 'fe) engine
    \<Rightarrow> ('b, 'c, 'fe) engine option" where
  "engine_shutdown E cap W = do {
     (g, c, w) \<leftarrow> close_devices E cap (en_devices W) (en_lib W) (en_chip W) (en_wire W);
     let (g, w) = (if en_inited W then usbq_shutdown g w else (g, w));
     Some (W\<lparr>en_devices := [], en_inited := False, en_lib := g, en_chip := c, en_wire := w\<rparr>)
   }"

end
