(* ===== verification/Engines.thy ===== *)
theory Engines
  imports Engine_Core Em28xx_Bridge Dib0700_Bridge Dvbsky_Bridge
begin

text \<open>
  The three engines: what each puts into the common code of \<open>Engine_Core\<close> (its capture switch, bridge
  bring-up, adapter and stream settings), its tune and status operations, its vtable, and its public
  functions as the instances.
\<close>

subsection \<open>em28xx (\<open>dvb_em28xx.c\<close>)\<close>

definition em28xx_capture :: "host \<Rightarrow> em28xx_dev capture" where
  "em28xx_capture env i on b w = (let (rc, w) = em28xx_capture_start env (Some b) i on w in (rc, b, w))"

definition em28xx_v_tune :: "((em28xx_dev, 'c) chip_state, 'fe) engine_env
    \<Rightarrow> ((em28xx_dev, 'c) chip_state, 'fe) frontend option \<Rightarrow> dvb_tune_params option
    \<Rightarrow> (em28xx_dev, 'c) chip_state
    \<Rightarrow> (int \<times> ((em28xx_dev, 'c) chip_state, 'fe) frontend option \<times> (em28xx_dev, 'c) chip_state) option" where
  "em28xx_v_tune E so p s = do {
     (rc, so, s) \<leftarrow> tune_chip E so p s;
     Some (case so of
             None \<Rightarrow> (rc, None, s)
           | Some fe \<Rightarrow>
               if rc < 0 then (rc, Some fe, s)
               else
                 let fe = fe\<lparr>ef_stream := usbq_stream_flush (ef_stream fe)\<rparr>
                 in if \<not> ef_capture_on fe then
                      let (rc, s) = run_capture (em28xx_capture (en_host E)) (ef_index fe) True s
                      in if rc < 0 then (rc, Some fe, s) else (0, Some (fe\<lparr>ef_capture_on := True\<rparr>), s)
                    else (0, Some fe, s))
   }"

definition em28xx_bring_up where
  "em28xx_bring_up env board usb w =
     (let (bo, w) = em28xx_open env (Some usb) w
      in if bo = None \<or> em28xx_chip_id bo \<noteq> 113 then (None, w)
         else
           let (rc, bo, w) = em28xx_i2c_set_speed env bo (b_i2c_speed board) w
           in if rc < 0 then (None, w)
              else
                let (rc, w) = em28xx_set_xclk env bo (b_xclk board) w
                in if rc < 0 then (None, w)
                   else
                     let (rc, w) = em28xx_gpio_set env bo EM28XX_MODE_DIGITAL (Some (b_gpio_seq board)) w
                     in if rc < 0 then (None, w)
                        else if b_num_frontends board > 1
                        then let (rc, w) = em28xx_enable_dual_ts_bulk env bo w
                             in if rc < 0 then (None, w) else (bo, w)
                        else (bo, w))"

text \<open>A board's per-frontend entry, or a default.\<close>

definition per_frontend :: "'a list option \<Rightarrow> 'a \<Rightarrow> int \<Rightarrow> 'a" where
  "per_frontend xs d fn = (case xs of None \<Rightarrow> d | Some xs \<Rightarrow> xs ! nat fn)"

definition em28xx_stream_cfg where
  "em28xx_stream_cfg board fn fd =
     \<lparr>cfg_endpoint = per_frontend (b_ts_endpoints board) 0 fn, cfg_buf_size = 0, cfg_pool_depth = 0,
      cfg_ring_capacity = 0, cfg_wake_fd = fd\<rparr>"

text \<open>The size of a device's \<open>frontends\<close> array.\<close>

definition EM28XX_FRONTENDS :: nat where "EM28XX_FRONTENDS = 4"

definition em28xx_kind where
  "em28xx_kind env =
     \<lparr>ek_ops = Em28xx, ek_capture = em28xx_capture env, ek_capacity = Some (int EM28XX_FRONTENDS), ek_bring_up = em28xx_bring_up env,
      ek_adapter = (\<lambda>b. em28xx_get_i2c_adapter env (Some b) 1), ek_stream_cfg = em28xx_stream_cfg,
      ek_table = em28xx_board_table, ek_name = ''em28xx'',
      ek_tune = em28xx_v_tune, ek_get_status = engine_get_status\<rparr>"

subsection \<open>dib0700 (\<open>dvb_dib0700.c\<close>)\<close>

definition dib0700_capture :: "host \<Rightarrow> dib0700_dev capture" where
  "dib0700_capture env i on b w =
     (let (rc, bo, w) = dib0700_streaming_ctrl env (Some b) 0 on True w
      in (rc, (case bo of None \<Rightarrow> b | Some b \<Rightarrow> b), w))"

text \<open>Cancelling and resubmitting the transfers around the switch; a failing restart is not an error.\<close>

definition dib_v_tune :: "((dib0700_dev, 'c) chip_state, 'fe) engine_env
    \<Rightarrow> ((dib0700_dev, 'c) chip_state, 'fe) frontend option \<Rightarrow> dvb_tune_params option
    \<Rightarrow> (dib0700_dev, 'c) chip_state
    \<Rightarrow> (int \<times> ((dib0700_dev, 'c) chip_state, 'fe) frontend option \<times> (dib0700_dev, 'c) chip_state) option" where
  "dib_v_tune E so p s = do {
     (rc, so, s) \<leftarrow> tune_chip E so p s;
     case so of
       None \<Rightarrow> Some (rc, None, s)
     | Some fe \<Rightarrow>
         if rc < 0 then Some (rc, Some fe, s)
         else do {
           (st, w) \<leftarrow> (case ef_stream fe of
               None \<Rightarrow> Some (None, wire_of s)
             | Some st \<Rightarrow> do {
                 (_, st, w) \<leftarrow> usbq_stream_restart (en_host E) (Some st) (en_evs E (wire_of s)) (wire_of s);
                 Some (st, w)
               });
           let s = set_wire w s;
           let fe = fe\<lparr>ef_stream := usbq_stream_flush st\<rparr>;
           Some (if \<not> ef_capture_on fe then
                   let (rc, s) = run_capture (dib0700_capture (en_host E)) (ef_index fe) True s
                   in if rc < 0 then (rc, Some fe, s) else (0, Some (fe\<lparr>ef_capture_on := True\<rparr>), s)
                 else (0, Some fe, s))
         }
   }"

text \<open>Where the bridge firmware is: \<open>$FIRMWARE_DIR\<close> if set, otherwise the first of the system
  directories in which it is readable; the empty string if none.\<close>

fun fw_fallback :: "host \<Rightarrow> string \<Rightarrow> string list \<Rightarrow> wire \<Rightarrow> string \<times> wire" where
  "fw_fallback env name [] w = ([], w)"
| "fw_fallback env name (d # ds) w =
     (let path = take 1023 (d @ ''/'' @ name); (r, w) = ask env (File_Readable path) w
      in if r_rc r = 0 then (path, w) else fw_fallback env name ds w)"

definition fw_dirs :: "string list" where
  "fw_dirs = [''/usr/local/lib/firmware'', ''/usr/lib/firmware'', ''/lib/firmware'']"

definition bridge_fw_path :: "host \<Rightarrow> string option \<Rightarrow> string \<Rightarrow> wire \<Rightarrow> string \<times> wire" where
  "bridge_fw_path env fw_dir name w =
     (case fw_dir of
        Some (c # cs) \<Rightarrow> (take 1023 ((c # cs) @ ''/'' @ name), w)
      | _ \<Rightarrow> fw_fallback env name fw_dirs w)"

definition load_bridge_fw :: "host \<Rightarrow> file_system \<Rightarrow> string option \<Rightarrow> string \<Rightarrow> dib0700_dev option \<Rightarrow> wire
    \<Rightarrow> bool \<times> wire" where
  "load_bridge_fw env fs fw_dir name bo w =
     (let (cold, w) = dib0700_is_cold env bo w
      in if cold < 0 then (False, w)
         else if cold \<noteq> 0 then
           let (path, w) = bridge_fw_path env fw_dir name w
           in if path = [] then (False, w)
              else let (rc, w) = dib0700_download_firmware env fs bo (Some path) w in (\<not> rc < 0, w)
         else (True, w))"

definition dib0700_bring_up where
  "dib0700_bring_up env fs fw_dir board usb w =
     (let (bo, w) = dib0700_open env (Some usb) w
      in if bo = None then (None, w)
         else
           let (ok, w) = load_bridge_fw env fs fw_dir (b_bridge_firmware board) bo w
           in if \<not> ok then (None, w)
              else
                let (_, _, bo, w) = dib0700_get_firmware_version env bo 0 w
                in (case (b_dib0700_bringup board, bo) of
                      (Some bringup, Some b) \<Rightarrow>
                        let (rc, b, w) = bringup env b w in if rc < 0 then (None, w) else (Some b, w)
                    | _ \<Rightarrow> (bo, w)))"

definition dib0700_stream_cfg where
  "dib0700_stream_cfg board fn fd =
     \<lparr>cfg_endpoint = per_frontend (b_ts_endpoints board) 0 fn,
      cfg_buf_size = per_frontend (b_ts_buf_sizes board) 0 fn,
      cfg_pool_depth = per_frontend (b_ts_pool_depths board) 0 fn, cfg_ring_capacity = 0, cfg_wake_fd = fd\<rparr>"

definition DIB0700_FRONTENDS :: nat where "DIB0700_FRONTENDS = 2"

definition dib0700_kind where
  "dib0700_kind env fs fw_dir =
     \<lparr>ek_ops = Dib0700, ek_capture = dib0700_capture env, ek_capacity = None, ek_bring_up = dib0700_bring_up env fs fw_dir,
      ek_adapter = (\<lambda>b. dib0700_get_i2c_adapter env (Some b)), ek_stream_cfg = dib0700_stream_cfg,
      ek_table = dib0700_board_table, ek_name = ''dib0700'',
      ek_tune = dib_v_tune, ek_get_status = engine_get_status\<rparr>"

subsection \<open>dvbsky (\<open>dvb_dvbsky.c\<close>)\<close>

definition dvbsky_capture :: "host \<Rightarrow> dvbsky_dev capture" where
  "dvbsky_capture env i on b w = (let (rc, w) = dvbsky_stream_ctrl env (Some b) on w in (rc, b, w))"

text \<open>The switch is fired on every tune, and the lock edge is armed again.\<close>

definition dvbsky_v_tune :: "((dvbsky_dev, 'c) chip_state, 'fe) engine_env
    \<Rightarrow> ((dvbsky_dev, 'c) chip_state, 'fe) frontend option \<Rightarrow> dvb_tune_params option
    \<Rightarrow> (dvbsky_dev, 'c) chip_state
    \<Rightarrow> (int \<times> ((dvbsky_dev, 'c) chip_state, 'fe) frontend option \<times> (dvbsky_dev, 'c) chip_state) option" where
  "dvbsky_v_tune E so p s = do {
     (rc, so, s) \<leftarrow> tune_chip E so p s;
     Some (case so of
             None \<Rightarrow> (rc, None, s)
           | Some fe \<Rightarrow>
               if rc < 0 then (rc, Some fe, s)
               else
                 let fe = fe\<lparr>ef_stream := usbq_stream_flush (ef_stream fe), ef_last_lock := False\<rparr>;
                     (rc, s) = run_capture (dvbsky_capture (en_host E)) (ef_index fe) True s
                 in if rc < 0 then (rc, Some fe, s)
                    else (0, Some (if \<not> ef_capture_on fe then fe\<lparr>ef_capture_on := True\<rparr> else fe), s))
   }"

text \<open>A rising lock edge while capturing re-fires the switch; its result is ignored.\<close>

definition dvbsky_v_get_status :: "((dvbsky_dev, 'c) chip_state, 'fe) engine_env
    \<Rightarrow> ((dvbsky_dev, 'c) chip_state, 'fe) frontend option \<Rightarrow> dvb_status option \<Rightarrow> (dvbsky_dev, 'c) chip_state
    \<Rightarrow> (int \<times> dvb_status option \<times> ((dvbsky_dev, 'c) chip_state, 'fe) frontend option
          \<times> (dvbsky_dev, 'c) chip_state) option" where
  "dvbsky_v_get_status E so out s = do {
     (rc, out, so, s) \<leftarrow> engine_get_status E so out s;
     Some (case (so, out) of
             (Some fe, Some st) \<Rightarrow>
               if rc < 0 then (rc, out, so, s)
               else
                 let s = (if st_has_lock st \<and> \<not> ef_last_lock fe \<and> ef_capture_on fe
                          then snd (run_capture (dvbsky_capture (en_host E)) (ef_index fe) True s) else s)
                 in (0, out, Some (fe\<lparr>ef_last_lock := st_has_lock st\<rparr>), s)
           | _ \<Rightarrow> (rc, out, so, s))
   }"

definition dvbsky_stream_cfg where
  "dvbsky_stream_cfg board fn fd =
     \<lparr>cfg_endpoint = per_frontend (b_ts_endpoints board) 0x82 fn,
      cfg_buf_size = per_frontend (b_ts_buf_sizes board) 4096 fn,
      cfg_pool_depth = per_frontend (b_ts_pool_depths board) 8 fn, cfg_ring_capacity = 0, cfg_wake_fd = fd\<rparr>"

definition dvbsky_bring_up where
  "dvbsky_bring_up env board usb w =
     (let (bo, w) = dvbsky_open env (Some usb) w
      in case (bo, b_dvbsky_bringup board) of
           (Some b, Some bringup) \<Rightarrow>
             let (rc, b, w) = bringup env b w in if rc < 0 then (None, w) else (Some b, w)
         | _ \<Rightarrow> (bo, w))"

definition DVBSKY_FRONTENDS :: nat where "DVBSKY_FRONTENDS = 1"

definition dvbsky_kind where
  "dvbsky_kind env =
     \<lparr>ek_ops = Dvbsky, ek_capture = dvbsky_capture env, ek_capacity = None, ek_bring_up = dvbsky_bring_up env,
      ek_adapter = (\<lambda>b. dvbsky_get_i2c_adapter env (Some b)), ek_stream_cfg = dvbsky_stream_cfg,
      ek_table = dvbsky_board_table, ek_name = ''dvbsky'',
      ek_tune = dvbsky_v_tune, ek_get_status = dvbsky_v_get_status\<rparr>"

lemmas kinds = em28xx_kind_def dib0700_kind_def dvbsky_kind_def

subsection \<open>The engines' functions\<close>

text \<open>The functions of each engine's file, the common code with its own parts filled in.\<close>

text \<open>\<open>dvb_em28xx.c\<close>\<close>

definition em28xx_v_read_ts where
  "em28xx_v_read_ts (E :: ((em28xx_dev, 'c) chip_state, 'fe) engine_env) = engine_read_ts E"

definition em28xx_v_get_status where
  "em28xx_v_get_status (E :: ((em28xx_dev, 'c) chip_state, 'fe) engine_env) = engine_get_status E"

definition em28xx_v_event_fd :: "((em28xx_dev, 'c) chip_state, 'fe) frontend option \<Rightarrow> int" where
  "em28xx_v_event_fd = engine_event_fd"

definition em28xx_v_capture_stop where
  "em28xx_v_capture_stop env = engine_capture_stop (em28xx_capture env)"

definition em28xx_frontend_open where
  "em28xx_frontend_open (E :: ((em28xx_dev, 'c) chip_state, 'fe) engine_env) board usb dev adap fn =
     engine_frontend_open E board (em28xx_stream_cfg board fn) usb dev adap fn"

definition em28xx_frontend_teardown where
  "em28xx_frontend_teardown E = engine_frontend_teardown E (em28xx_capture (en_host E))"

definition em28xx_open_device_from_usb where
  "em28xx_open_device_from_usb E = engine_open_from_usb E (em28xx_kind (en_host E))"

definition em28xx_open_device where
  "em28xx_open_device E = engine_open_device E (em28xx_kind (en_host E))"

definition dvb_em28xx_open where
  "dvb_em28xx_open E = engine_open E (em28xx_kind (en_host E))"

definition dvb_em28xx_open_by_addr where
  "dvb_em28xx_open_by_addr E = engine_open_by_addr E (em28xx_kind (en_host E))"

definition dvb_em28xx_discover_all where
  "dvb_em28xx_discover_all E = engine_discover_all E (em28xx_kind (en_host E))"

definition dvb_em28xx_scan_present where
  "dvb_em28xx_scan_present env =
     engine_scan_present env ''em28xx'' (em28xx_board_table :: (unit, unit) em28xx_board list)"

definition dvb_em28xx_shutdown where
  "dvb_em28xx_shutdown E = engine_shutdown E (em28xx_capture (en_host E))"

text \<open>\<open>dvb_dib0700.c\<close>\<close>

definition dib_v_read_ts where
  "dib_v_read_ts (E :: ((dib0700_dev, 'c) chip_state, 'fe) engine_env) = engine_read_ts E"

definition dib_v_get_status where
  "dib_v_get_status (E :: ((dib0700_dev, 'c) chip_state, 'fe) engine_env) = engine_get_status E"

definition dib_v_event_fd :: "((dib0700_dev, 'c) chip_state, 'fe) frontend option \<Rightarrow> int" where
  "dib_v_event_fd = engine_event_fd"

definition dib_v_capture_stop where
  "dib_v_capture_stop env = engine_capture_stop (dib0700_capture env)"

definition dib0700_frontend_open where
  "dib0700_frontend_open (E :: ((dib0700_dev, 'c) chip_state, 'fe) engine_env) board usb dev adap fn =
     engine_frontend_open E board (dib0700_stream_cfg board fn) usb dev adap fn"

definition dib0700_frontend_teardown where
  "dib0700_frontend_teardown E = engine_frontend_teardown E (dib0700_capture (en_host E))"

definition dib0700_open_device_from_usb where
  "dib0700_open_device_from_usb E fs dir = engine_open_from_usb E (dib0700_kind (en_host E) fs dir)"

definition dib0700_open_device where
  "dib0700_open_device E fs dir = engine_open_device E (dib0700_kind (en_host E) fs dir)"

definition dvb_dib0700_open where
  "dvb_dib0700_open E fs dir = engine_open E (dib0700_kind (en_host E) fs dir)"

definition dvb_dib0700_open_by_addr where
  "dvb_dib0700_open_by_addr E fs dir = engine_open_by_addr E (dib0700_kind (en_host E) fs dir)"

definition dvb_dib0700_discover_all where
  "dvb_dib0700_discover_all E fs dir = engine_discover_all E (dib0700_kind (en_host E) fs dir)"

definition dvb_dib0700_scan_present where
  "dvb_dib0700_scan_present env =
     engine_scan_present env ''dib0700'' (dib0700_board_table :: (unit, unit) dib0700_board list)"

definition dvb_dib0700_shutdown where
  "dvb_dib0700_shutdown E = engine_shutdown E (dib0700_capture (en_host E))"

text \<open>\<open>dvb_dvbsky.c\<close>\<close>

definition dvbsky_v_read_ts where
  "dvbsky_v_read_ts (E :: ((dvbsky_dev, 'c) chip_state, 'fe) engine_env) = engine_read_ts E"

definition dvbsky_v_event_fd :: "((dvbsky_dev, 'c) chip_state, 'fe) frontend option \<Rightarrow> int" where
  "dvbsky_v_event_fd = engine_event_fd"

definition dvbsky_v_capture_stop where
  "dvbsky_v_capture_stop env = engine_capture_stop (dvbsky_capture env)"

definition dvbsky_frontend_open where
  "dvbsky_frontend_open (E :: ((dvbsky_dev, 'c) chip_state, 'fe) engine_env) board usb dev adap fn =
     engine_frontend_open E board (dvbsky_stream_cfg board fn) usb dev adap fn"

definition dvbsky_frontend_teardown where
  "dvbsky_frontend_teardown E = engine_frontend_teardown E (dvbsky_capture (en_host E))"

definition dvbsky_open_device_from_usb where
  "dvbsky_open_device_from_usb E = engine_open_from_usb E (dvbsky_kind (en_host E))"

definition dvbsky_open_device where
  "dvbsky_open_device E = engine_open_device E (dvbsky_kind (en_host E))"

definition dvb_dvbsky_open where
  "dvb_dvbsky_open E = engine_open E (dvbsky_kind (en_host E))"

definition dvb_dvbsky_open_by_addr where
  "dvb_dvbsky_open_by_addr E = engine_open_by_addr E (dvbsky_kind (en_host E))"

definition dvb_dvbsky_discover_all where
  "dvb_dvbsky_discover_all E = engine_discover_all E (dvbsky_kind (en_host E))"

definition dvb_dvbsky_scan_present where
  "dvb_dvbsky_scan_present env =
     engine_scan_present env ''dvbsky'' (dvbsky_board_table :: (unit, unit) dvbsky_board list)"

definition dvb_dvbsky_shutdown where
  "dvb_dvbsky_shutdown E = engine_shutdown E (dvbsky_capture (en_host E))"

subsection \<open>Vtables\<close>

text \<open>The state of a handle's operations: its frontend (the opaque pointer) and what it works on.\<close>

definition engine_vtable where
  "engine_vtable E tune get_status stop =
     \<lparr>vt_tune = (\<lambda>p (so, s). map_option (\<lambda>(rc, so, s). (rc, (so, s))) (tune E so p s)),
      vt_read_ts = (\<lambda>buf n t (so, s). map_option (\<lambda>(rc, buf, so, s). (rc, buf, (so, s)))
                                        (engine_read_ts E so buf n t s)),
      vt_get_status = (\<lambda>out (so, s). map_option (\<lambda>(rc, out, so, s). (rc, out, (so, s)))
                                        (get_status E so out s)),
      vt_event_fd = (\<lambda>(so, s). engine_event_fd so),
      vt_capture_stop = (\<lambda>(so, s). let (rc, so, s) = stop so s in Some (rc, (so, s)))\<rparr>"

definition k_em28xx_vtable where
  "k_em28xx_vtable E =
     engine_vtable E em28xx_v_tune engine_get_status (em28xx_v_capture_stop (en_host E))"

definition k_dib0700_vtable where
  "k_dib0700_vtable E =
     engine_vtable E dib_v_tune engine_get_status (dib_v_capture_stop (en_host E))"

definition k_dvbsky_vtable where
  "k_dvbsky_vtable E =
     engine_vtable E dvbsky_v_tune dvbsky_v_get_status (dvbsky_v_capture_stop (en_host E))"

end
