(* ===== verification/Engine_Safety.thy ===== *)
theory Engine_Safety
  imports Handle_Log Engines
begin

text \<open>
  What every engine keeps: the USB handles it holds are those of its devices, and its references on the
  event thread are those of the open streams, through every operation and on every failure path. The
  locale \<open>usb_engine\<close> is the contract between the common code and a bridge's part; the three engines
  are its interpretations.

  The chip drivers are relied on for one thing: they reach the bus through their adapter and neither
  open nor close USB devices (\<open>chips_tame\<close>).
\<close>

definition tame_op :: "(('b, 'c) chip_state) fe_op option \<Rightarrow> bool" where
  "tame_op f \<longleftrightarrow>
     (\<forall>g c s w0. f = Some g \<longrightarrow> quiet w0 (wire_of s) \<longrightarrow> yields (\<lambda>(rc, c, s'). quiet w0 (wire_of s')) (g c s))"

definition tame_read :: "(dtv_props \<Rightarrow> ('b, 'c) chip_state
    \<Rightarrow> (int \<times> u32 \<times> dtv_props \<times> ('b, 'c) chip_state) option) option \<Rightarrow> bool" where
  "tame_read f \<longleftrightarrow>
     (\<forall>g c s w0. f = Some g \<longrightarrow> quiet w0 (wire_of s) \<longrightarrow>
        yields (\<lambda>(rc, st, c, s'). quiet w0 (wire_of s')) (g c s))"

definition chips_tame :: "(('b, 'c) chip_state, 'fe) engine_env \<Rightarrow> bool" where
  "chips_tame E \<longleftrightarrow>
     (\<forall>w0. drivers_keep (en_chips E) (\<lambda>s. quiet w0 (wire_of s))) \<and>
     (\<forall>f. tame_op (fo_init (en_ops E f)) \<and> tame_op (fo_sleep (en_ops E f)) \<and>
          tame_op (fo_tuner_init (en_ops E f)) \<and> tame_op (fo_tuner_sleep (en_ops E f)) \<and>
          tame_op (fo_set_frontend (en_ops E f)) \<and> tame_read (fo_read_status (en_ops E f)))"

lemma chips_tame_drivers: "chips_tame E \<Longrightarrow> drivers_keep (en_chips E) (\<lambda>s. quiet w0 (wire_of s))"
  by (simp add: chips_tame_def)

lemma chips_tame_ops:
  assumes "chips_tame E"
  shows "tame_op (fo_init (en_ops E f))" "tame_op (fo_sleep (en_ops E f))"
    "tame_op (fo_tuner_init (en_ops E f))" "tame_op (fo_tuner_sleep (en_ops E f))"
    "tame_op (fo_set_frontend (en_ops E f))" "tame_read (fo_read_status (en_ops E f))"
  using assms by (simp_all add: chips_tame_def)

lemma wire_set_wire [simp]: "wire_of (set_wire w s) = w" "bridge_of (set_wire w s) = bridge_of s"
  "snd (set_wire w s) = snd s"
  by (simp_all add: set_wire_def)

lemma tame_op_yields:
  assumes t: "tame_op (Some g)" and q: "quiet w0 (wire_of s)"
    and P: "\<And>rc c s'. quiet w0 (wire_of s') \<Longrightarrow> P (rc, c, s')"
  shows "yields P (g c s)"
proof -
  have "yields (\<lambda>(rc, c, s'). quiet w0 (wire_of s')) (g c s)" using t q unfolding tame_op_def by blast
  then show ?thesis by (rule yields_mono) (auto intro: P)
qed

lemma tame_read_yields:
  assumes t: "tame_read (Some g)" and q: "quiet w0 (wire_of s)"
    and P: "\<And>rc st c s'. quiet w0 (wire_of s') \<Longrightarrow> P (rc, st, c, s')"
  shows "yields P (g c s)"
proof -
  have "yields (\<lambda>(rc, st, c, s'). quiet w0 (wire_of s')) (g c s)" using t q unfolding tame_read_def by blast
  then show ?thesis by (rule yields_mono) (auto intro: P)
qed

lemma run_op_yields:
  assumes "tame_op f" "quiet w0 (wire_of s)" and P: "\<And>rc d c s'. quiet w0 (wire_of s') \<Longrightarrow> P (rc, d, c, s')"
  shows "yields P (run_op f c s)"
  using assms by (cases f) (auto simp: run_op_def intro: tame_op_yields)

lemma run_sleep_yields:
  assumes "tame_op f" "quiet w0 (wire_of s)" and P: "\<And>c s'. quiet w0 (wire_of s') \<Longrightarrow> P (c, s')"
  shows "yields P (run_sleep armed f c s)"
  using assms by (cases f) (auto simp: run_sleep_def intro: tame_op_yields)

subsection \<open>References on the event thread\<close>

definition evt_by :: "int \<Rightarrow> usbq_lib \<Rightarrow> usbq_lib \<Rightarrow> bool" where
  "evt_by k g g' \<longleftrightarrow> evt_refcount g' = evt_refcount g + k \<and> g_init_refcount g' = g_init_refcount g"

lemma evt_by_refl [simp]: "evt_by 0 g g"
  by (simp add: evt_by_def)

lemma evt_by_trans: "evt_by j g g1 \<Longrightarrow> evt_by k g1 g2 \<Longrightarrow> evt_by (j + k) g g2"
  by (simp add: evt_by_def)

lemma evt_acquire_init: "usbq_evt_acquire env g w = (rc, g', w') \<Longrightarrow> g_init_refcount g' = g_init_refcount g"
  using evt_acquire_lib(1) [of env g w] by simp

lemma evt_release_init: "usbq_evt_release g w = (g', w') \<Longrightarrow> g_init_refcount g' = g_init_refcount g"
  using evt_release_lib(1) [of g w] by simp

lemma stream_open_init:
  "usbq_stream_open env dev cfg evs g w = Some (so, g', w') \<Longrightarrow> g_init_refcount g' = g_init_refcount g"
  by (auto simp: usbq_stream_open_def stream_launch_def Let_def ask_def
      dest!: evt_acquire_init evt_release_init split: option.splits prod.splits if_splits)

lemma stream_open_yields:
  assumes "0 \<le> evt_refcount g" "quiet w0 w"
    and P: "\<And>so g' w'. quiet w0 w' \<Longrightarrow> evt_by (if so = None then 0 else 1) g g' \<Longrightarrow>
              (\<forall>st. so = Some st \<longrightarrow> stream_ready st) \<Longrightarrow> P (so, g', w')"
  shows "yields P (usbq_stream_open env dev cfg evs g w)"
proof (rule yieldsI)
  fix x assume x: "usbq_stream_open env dev cfg evs g w = Some x"
  obtain so g' w' where [simp]: "x = (so, g', w')" by (cases x)
  show "P x"
    using stream_open_spec [of env dev cfg evs g w so g' w'] x assms(1) quiet_stream_open [of env dev cfg evs g w]
      assms(2) stream_open_init [of env dev cfg evs g w]
    by (cases so) (auto simp: evt_by_def intro!: P)
qed

lemma stream_close_yields:
  assumes "so \<noteq> None \<longrightarrow> 0 < evt_refcount g" "quiet w0 w"
    and P: "\<And>g' w'. quiet w0 w' \<Longrightarrow> evt_by (if so = None then 0 else -1) g g' \<Longrightarrow> P (g', w')"
  shows "yields P (usbq_stream_close env so evs g w)"
proof (rule yieldsI)
  fix x assume x: "usbq_stream_close env so evs g w = Some x"
  obtain g' w' where [simp]: "x = (g', w')" by (cases x)
  have "evt_by (if so = None then 0 else -1) g g'"
    using x assms(1)
    by (auto simp: usbq_stream_close_def evt_by_def split: option.splits prod.splits
        dest: evt_release_count evt_release_init)
  then show "P x" using x quiet_stream_close assms(2) by (auto intro!: P)
qed

subsection \<open>The contract of an engine\<close>

definition streams :: "(('b, 'c) chip_state, 'fe) frontend list \<Rightarrow> int" where
  "streams fes = (\<Sum>fe \<leftarrow> fes. if ef_stream fe = None then 0 else 1)"

lemma streams_simps [simp]:
  "streams [] = 0" "streams (fe # fes) = (if ef_stream fe = None then 0 else 1) + streams fes"
  "streams (xs @ ys) = streams xs + streams ys"
  by (simp_all add: streams_def)

lemma streams_nonneg: "0 \<le> streams fes"
  by (induction fes) auto

text \<open>A frontend as \<open>frontend_open\<close> publishes it.\<close>

definition frontend_ready :: "(('b, 'c) chip_state, 'fe) frontend \<Rightarrow> bool" where
  "frontend_ready fe \<longleftrightarrow>
     ef_fe fe \<noteq> None \<and> ef_handle fe \<noteq> None \<and> \<not> ef_capture_on fe \<and>
     (\<exists>st. ef_stream fe = Some st \<and> stream_ready st)"

lemma quiet_close_fds: "quiet w0 w \<Longrightarrow> quiet w0 (close_fds fds w)"
  by (auto simp: close_fds_def)

definition dev_handles :: "('b, 'c, 'fe) engine \<Rightarrow> nat multiset" where
  "dev_handles W = mset (map (\<lambda>d. ud_handle (ed_usb d)) (en_devices W))"

definition dev_streams :: "('b, 'c, 'fe) engine \<Rightarrow> int" where
  "dev_streams W = (\<Sum>d \<leftarrow> en_devices W. streams (ed_frontends d))"

text \<open>The references on the event thread that are not this engine's.\<close>

definition spare :: "('b, 'c, 'fe) engine \<Rightarrow> int" where
  "spare W = evt_refcount (en_lib W) - dev_streams W"

text \<open>From \<open>W\<close>, holding \<open>M\<close> besides the devices' handles, to \<open>W'\<close>, holding \<open>M'\<close> besides.\<close>

definition engine_step :: "host \<Rightarrow> nat multiset \<Rightarrow> ('b, 'c, 'fe) engine \<Rightarrow> nat multiset \<Rightarrow> ('b, 'c, 'fe) engine
    \<Rightarrow> bool" where
  "engine_step env M W M' W' \<longleftrightarrow>
     held env (en_wire W) (en_wire W') (M + dev_handles W) (M' + dev_handles W') \<and> spare W' = spare W"

lemma engine_step_refl [simp]: "engine_step env M W M W"
  by (simp add: engine_step_def)

lemma engine_step_trans:
  "engine_step env M W M1 W1 \<Longrightarrow> engine_step env M1 W1 M2 W2 \<Longrightarrow> engine_step env M W M2 W2"
  using held_trans by (auto simp: engine_step_def)

lemma dev_streams_nonneg: "0 \<le> dev_streams W"
  unfolding dev_streams_def by (rule sum_list_nonneg) (auto intro: streams_nonneg)

lemma held_give_back: "held (en_host E) w (give_back E usb w) (add_mset (ud_handle usb) M) M"
proof -
  have "quiet w (snd (usbq_release_interface (en_host E) (Some usb) 0 w))"
    using quiet_release [of "en_host E" "Some usb" 0 w _ _ w] by (metis prod.collapse quiet_refl)
  then show ?thesis
    using held_trans [OF held_quiet held_close] by (simp add: give_back_def usbq_close_def)
qed

text \<open>Taking over an opened device: its handle ends in the device list, or closed.\<close>

definition opened_device :: "(('b, 'c) chip_state, 'fe, 'z) board_scheme \<Rightarrow> usbq_dev \<Rightarrow> int
    \<Rightarrow> ('b, 'c, 'fe) engine \<Rightarrow> int \<times> dvb_frontend_handle list \<times> ('b, 'c, 'fe) engine \<Rightarrow> bool" where
  "opened_device board usb mx W r \<longleftrightarrow>
     (case r of (n, hs, W') \<Rightarrow>
        en_inited W' = en_inited W \<and>
        (n = 0 \<and> hs = [] \<and> en_devices W' = en_devices W \<or>
         n = b_num_frontends board \<and> n \<le> mx \<and>
         (\<exists>d. en_devices W' = d # en_devices W \<and> ed_usb d = usb \<and> length (ed_frontends d) = nat n \<and>
              list_all frontend_ready (ed_frontends d) \<and> hs = map (the \<circ> ef_handle) (ed_frontends d))))"

abbreviation refused :: "(('b, 'c) chip_state, 'fe) engine_env \<Rightarrow> usbq_dev \<Rightarrow> usbq_lib \<Rightarrow> 'c \<Rightarrow> wire
    \<Rightarrow> ('b, 'c, 'fe) engine \<Rightarrow> int \<times> dvb_frontend_handle list \<times> ('b, 'c, 'fe) engine" where
  "refused E usb g c w W \<equiv> (0, [], W\<lparr>en_lib := g, en_chip := c, en_wire := give_back E usb w\<rparr>)"

lemma refused_spec:
  assumes "quiet (en_wire W) w" "evt_refcount g = evt_refcount (en_lib W)"
  shows "engine_step (en_host E) {#ud_handle usb#} W {#} (snd (snd (refused E usb g c w W))) \<and>
    opened_device board usb mx W (refused E usb g c w W)"
  using held_trans [OF held_quiet [OF assms(1)] held_give_back] assms(2)
  by (simp add: engine_step_def opened_device_def spare_def dev_streams_def dev_handles_def)

text \<open>What an operation on a handle leaves as it was.\<close>

definition same_frontend :: "('s, 'fe) frontend \<Rightarrow> ('s, 'fe) frontend \<Rightarrow> bool" where
  "same_frontend fe fe' \<longleftrightarrow>
     ef_fe fe' = ef_fe fe \<and> ef_handle fe' = ef_handle fe \<and> ef_wake_pipe fe' = ef_wake_pipe fe \<and>
     ef_index fe' = ef_index fe \<and> ef_endpoint fe' = ef_endpoint fe \<and>
     ef_demod_client fe' = ef_demod_client fe \<and> ef_tuner_client fe' = ef_tuner_client fe \<and>
     (ef_stream fe' = None \<longleftrightarrow> ef_stream fe = None)"

lemma same_frontend_refl [simp]: "same_frontend fe fe"
  by (simp add: same_frontend_def)

abbreviation kept :: "wire \<Rightarrow> (('b, 'c) chip_state, 'fe) frontend
    \<Rightarrow> (('b, 'c) chip_state, 'fe) frontend option \<Rightarrow> ('b, 'c) chip_state \<Rightarrow> bool" where
  "kept w0 fe so s \<equiv> quiet w0 (wire_of s) \<and> (\<exists>fe'. so = Some fe' \<and> same_frontend fe fe')"

locale usb_engine =
  fixes K :: "('b, 'c, 'fe, 'z) engine_kind"
  assumes capture_quiet: "ek_capture K i on b w = (rc, b', w') \<Longrightarrow> quiet w0 w \<Longrightarrow> quiet w0 w'"
    and bring_up_quiet: "board \<in> set (ek_table K) \<Longrightarrow> ek_bring_up K board usb w = (bo, w') \<Longrightarrow>
          quiet w0 w \<Longrightarrow> quiet w0 w'"
    and attach_keeps: "board \<in> set (ek_table K) \<Longrightarrow> drivers_keep chips Q \<Longrightarrow> Q s \<Longrightarrow>
          yields (\<lambda>(rc, at, s'). Q s') (b_attach board chips adap i s)"
    and num_pos: "board \<in> set (ek_table K) \<Longrightarrow> 0 < b_num_frontends board"
    and tune_keeps: "chips_tame E \<Longrightarrow> quiet w0 (wire_of s) \<Longrightarrow>
          yields (\<lambda>(rc, so, s'). kept w0 fe so s') (ek_tune K E (Some fe) p s)"
    and status_keeps: "chips_tame E \<Longrightarrow> quiet w0 (wire_of s) \<Longrightarrow>
          yields (\<lambda>(rc, out, so, s'). kept w0 fe so s') (ek_get_status K E (Some fe) out s)"
begin

lemma run_capture_quiet:
  "run_capture (ek_capture K) i on s = (rc, s') \<Longrightarrow> quiet w0 (wire_of s) \<Longrightarrow> quiet w0 (wire_of s')"
  by (auto simp: run_capture_def Let_def dest: capture_quiet split: prod.splits)

lemma attach_yields:
  assumes "board \<in> set (ek_table K)" "drivers_keep chips Q" "Q s"
    and P: "\<And>rc at s'. Q s' \<Longrightarrow> P (rc, at, s')"
  shows "yields P (b_attach board chips adap i s)"
  using attach_keeps [OF assms(1-3)] by (rule yields_mono) (auto intro: P)

lemma frontend_open_yields:
  assumes t: "chips_tame E" and b: "board \<in> set (ek_table K)" and g: "0 \<le> evt_refcount g"
    and q: "quiet w0 (wire_of s)"
  shows "yields (\<lambda>(rc, fe, g', s'). quiet w0 (wire_of s') \<and> evt_by (streams [fe]) g g' \<and>
      (rc < 0 \<longrightarrow> ef_stream fe = None) \<and> (\<not> rc < 0 \<longrightarrow> frontend_ready fe))
    (engine_frontend_open E board scfg usb dev adap fn g s)"
proof -
  note ops = chips_tame_ops [OF t]
  show ?thesis
    using q g
    by (auto simp: engine_frontend_open_def ask_def Let_def new_frontend_def frontend_ready_def
        intro!: attach_yields [OF b chips_tame_drivers [OF t, of w0]]
          run_op_yields [OF ops(1), of w0] run_op_yields [OF ops(3), of w0] stream_open_yields [of _ w0]
        split: option.split)
qed

lemma teardown_yields:
  assumes t: "chips_tame E" and g: "streams [fe] \<le> evt_refcount g" and q: "quiet w0 (wire_of s)"
  shows "yields (\<lambda>(fe', g', s'). quiet w0 (wire_of s') \<and> evt_by (- streams [fe]) g g' \<and> ef_stream fe' = None)
    (engine_frontend_teardown E (ek_capture K) fe g s)"
proof -
  note ops = chips_tame_ops [OF t]
  note unreg = unregister_keeps [OF chips_tame_drivers [OF t, of w0]]
  obtain s1 where s1: "s1 = (if ef_capture_on fe then snd (run_capture (ek_capture K) (ef_index fe) False s) else s)"
    by blast
  have q1: "quiet w0 (wire_of s1)"
    using q run_capture_quiet [of "ef_index fe" False s] by (auto simp: s1 simp del: split_paired_All)
      (metis prod.collapse)
  show ?thesis
    using q1 g
    by (auto simp: engine_frontend_teardown_def Let_def simp flip: s1
        intro!: stream_close_yields [of _ _ w0] run_sleep_yields [OF ops(2), of w0]
          run_sleep_yields [OF ops(4), of w0] unreg quiet_close_fds split: option.split if_splits)
qed

lemma teardown_all_yields:
  assumes t: "chips_tame E"
  shows "streams fes \<le> evt_refcount g \<Longrightarrow> quiet w0 (wire_of s) \<Longrightarrow>
    yields (\<lambda>(fes', g', s'). quiet w0 (wire_of s') \<and> evt_by (- streams fes) g g' \<and> streams fes' = 0)
      (teardown_all E (ek_capture K) fes g s)"
proof (induction fes arbitrary: g s)
  case (Cons fe fes)
  show ?case
  proof (rule yieldsI)
    fix x assume "teardown_all E (ek_capture K) (fe # fes) g s = Some x"
    then obtain fe1 g1 s1 fes2 g2 s2 where h: "engine_frontend_teardown E (ek_capture K) fe g s = Some (fe1, g1, s1)"
      and r: "teardown_all E (ek_capture K) fes g1 s1 = Some (fes2, g2, s2)" and x: "x = (fe1 # fes2, g2, s2)"
      by (auto simp: bind_eq_Some_conv simp del: split_paired_Ex)
    have "streams [fe] \<le> evt_refcount g" using Cons.prems(1) streams_nonneg [of fes] by simp
    then have one: "quiet w0 (wire_of s1)" "evt_by (- streams [fe]) g g1" "ef_stream fe1 = None"
      using yieldsD [OF teardown_yields [OF t _ Cons.prems(2)] h] by auto
    have "streams fes \<le> evt_refcount g1" using one Cons.prems(1) by (simp add: evt_by_def)
    then show "case x of (fes', g', s') \<Rightarrow>
        quiet w0 (wire_of s') \<and> evt_by (- streams (fe # fes)) g g' \<and> streams fes' = 0"
      using yieldsD [OF Cons.IH [OF _ one(1)] r] one by (auto simp: x evt_by_def)
  qed
qed simp

lemma open_frontends_yields:
  assumes t: "chips_tame E" and b: "board \<in> set (ek_table K)"
  shows "0 \<le> evt_refcount g \<Longrightarrow> streams fes \<le> evt_refcount g \<Longrightarrow> quiet w0 (wire_of s) \<Longrightarrow>
    list_all frontend_ready fes \<Longrightarrow>
    yields (\<lambda>(ok, fes', g', s'). quiet w0 (wire_of s') \<and> evt_by (streams fes' - streams fes) g g' \<and>
        (\<not> ok \<longrightarrow> streams fes' = 0) \<and>
        (ok \<longrightarrow> list_all frontend_ready fes' \<and> length fes' = length fes + k))
      (open_frontends E (ek_capture K) board scfg usb dev adap k fes g s)"
proof (induction k arbitrary: fes g s)
  case (Suc k)
  show ?case
  proof (rule yieldsI)
    fix x assume run: "open_frontends E (ek_capture K) board scfg usb dev adap (Suc k) fes g s = Some x"
    let ?fn = "int (length fes)"
    obtain rc fe g1 s1 where h: "engine_frontend_open E board (scfg ?fn) usb dev adap ?fn g s = Some (rc, fe, g1, s1)"
      using run by (auto simp: bind_eq_Some_conv Let_def)
    have one: "quiet w0 (wire_of s1)" "evt_by (streams [fe]) g g1" "rc < 0 \<longrightarrow> ef_stream fe = None"
      "\<not> rc < 0 \<longrightarrow> frontend_ready fe"
      using yieldsD [OF frontend_open_yields [OF t b Suc.prems(1,3)] h] by auto
    show "case x of (ok, fes', g', s') \<Rightarrow> quiet w0 (wire_of s') \<and> evt_by (streams fes' - streams fes) g g' \<and>
        (\<not> ok \<longrightarrow> streams fes' = 0) \<and>
        (ok \<longrightarrow> list_all frontend_ready fes' \<and> length fes' = length fes + Suc k)"
    proof (cases "rc < 0")
      case True
      then obtain fes2 g2 s2 where r: "teardown_all E (ek_capture K) fes g1 s1 = Some (fes2, g2, s2)"
        and x: "x = (False, fes2, g2, s2)"
        using run h by (auto simp: bind_eq_Some_conv Let_def)
      have e: "evt_by 0 g g1" "streams fes \<le> evt_refcount g1"
        using one True Suc.prems(2) by (simp_all add: evt_by_def)
      show ?thesis
        using yieldsD [OF teardown_all_yields [OF t e(2) one(1)] r] e(1) by (auto simp: x evt_by_def)
    next
      case False
      then obtain st where st: "ef_stream fe = Some st" using one(4) by (auto simp: frontend_ready_def)
      have pre: "0 \<le> evt_refcount g1" "streams (fes @ [fe]) \<le> evt_refcount g1"
        "list_all frontend_ready (fes @ [fe])"
        using one Suc.prems st False by (simp_all add: evt_by_def)
      have r: "open_frontends E (ek_capture K) board scfg usb dev adap k (fes @ [fe]) g1 s1 = Some x"
        using run h False by (simp add: Let_def)
      show ?thesis
        using yieldsD [OF Suc.IH [OF pre(1,2) one(1) pre(3)] r] one(2) st by (auto simp: evt_by_def)
    qed
  qed
qed simp

lemma open_from_usb_cases:
  assumes b: "board \<in> set (ek_table K)" and run: "engine_open_from_usb E K board usb mx W = Some r"
  obtains (refused) w where "r = refused E usb (en_lib W) (en_chip W) w W" "quiet (en_wire W) w"
  | (frontends) bri xfer w ok fes g s where "quiet (en_wire W) w" "b_num_frontends board \<le> mx"
    "open_frontends E (ek_capture K) board (ek_stream_cfg K board) usb (ek_ops K, length (en_devices W)) (lift_master xfer)
       (nat (b_num_frontends board)) [] (en_lib W) ((bri, w), en_chip W) = Some (ok, fes, g, s)"
    "(if ok then Some (b_num_frontends board, map (the \<circ> ef_handle) fes,
        W\<lparr>en_devices := \<lparr>ed_usb = usb, ed_bridge = bridge_of s, ed_frontends = fes\<rparr> # en_devices W,
          en_lib := g, en_chip := snd s, en_wire := wire_of s\<rparr>)
      else teardown_all E (ek_capture K) fes g s \<bind> (\<lambda>(fes, g, s). Some (refused E usb g (snd s) (wire_of s) W)))
     = Some r"
proof (cases "(case ek_capacity K of None \<Rightarrow> False | Some cap \<Rightarrow> b_num_frontends board > cap) \<or>
    mx < b_num_frontends board")
  case True
  then have "r = refused E usb (en_lib W) (en_chip W) (en_wire W) W"
    using run by (auto simp: engine_open_from_usb_def Let_def)
  then show thesis by (rule that(1)) simp
next
  case room: False
  let ?w = "en_wire W @ [Alloc]"
  have qw: "quiet (en_wire W) ?w" by simp
  obtain bo w1 where up: "ek_bring_up K board usb ?w = (bo, w1)" by fastforce
  have q1: "quiet (en_wire W) w1" by (rule bring_up_quiet [OF b up qw])
  consider "r_rc (en_host E ?w) = 0" | "r_rc (en_host E ?w) \<noteq> 0" "\<not> (\<exists>b. bo = Some b \<and> ek_adapter K b \<noteq> None)"
    | b xfer where "r_rc (en_host E ?w) \<noteq> 0" "bo = Some b" "ek_adapter K b = Some xfer"
    by (metis option.exhaust)
  then show thesis
  proof cases
    case 1
    then show thesis using run room qw
      by (intro that(1) [of ?w]) (auto simp: engine_open_from_usb_def Let_def ask_def)
  next
    case 2
    then show thesis using run room up q1
      by (intro that(1) [of w1]) (auto simp: engine_open_from_usb_def Let_def ask_def split: option.splits)
  next
    case 3
    then show thesis using run room up q1
      by (auto simp: engine_open_from_usb_def Let_def ask_def bind_eq_Some_conv simp del: split_paired_Ex
          intro: that(2))
  qed
qed

lemma open_from_usb_spec:
  assumes t: "chips_tame E" and b: "board \<in> set (ek_table K)" and sp: "0 \<le> spare W"
    and run: "engine_open_from_usb E K board usb mx W = Some r"
  shows "engine_step (en_host E) {#ud_handle usb#} W {#} (snd (snd r)) \<and> opened_device board usb mx W r"
  using b run
proof (cases rule: open_from_usb_cases)
  case (refused w)
  then show ?thesis using refused_spec [of W w "en_lib W" E usb "en_chip W" board mx] by simp
next
  case (frontends bri xfer w ok fes g s)
  have ev: "0 \<le> evt_refcount (en_lib W)" using sp dev_streams_nonneg [of W] by (simp add: spare_def)
  have q: "quiet (en_wire W) (wire_of s)" "evt_by (streams fes) (en_lib W) g" "\<not> ok \<longrightarrow> streams fes = 0"
    "ok \<longrightarrow> list_all frontend_ready fes \<and> length fes = nat (b_num_frontends board)"
    using yieldsD [OF open_frontends_yields [OF t b ev, of "[]" "en_wire W"] frontends(3)] ev frontends(1) by auto
  show ?thesis
  proof (cases ok)
    case True
    have "engine_step (en_host E) {#ud_handle usb#} W {#} (snd (snd r))"
      using frontends(4) True q held_quiet [OF q(1), of "en_host E" "add_mset (ud_handle usb) (dev_handles W)"]
      by (auto simp: engine_step_def dev_handles_def spare_def dev_streams_def evt_by_def)
    then show ?thesis using frontends(2,4) True q by (auto simp: opened_device_def)
  next
    case False
    then obtain fes2 g2 s2 where td: "teardown_all E (ek_capture K) fes g s = Some (fes2, g2, s2)"
      and r: "r = refused E usb g2 (snd s2) (wire_of s2) W"
      using frontends(4) by (auto simp: bind_eq_Some_conv simp del: split_paired_Ex)
    have "streams fes \<le> evt_refcount g" using q False ev by (simp add: evt_by_def)
    from yieldsD [OF teardown_all_yields [OF t this q(1)] td] q(2,3) False
    have "quiet (en_wire W) (wire_of s2)" "evt_refcount g2 = evt_refcount (en_lib W)"
      by (auto simp: evt_by_def)
    then show ?thesis unfolding r by (rule refused_spec)
  qed
qed

end

end
