(* ===== verification/Engine_Run.thy ===== *)
theory Engine_Run
  imports Engine_Safety
begin

text \<open>
  The public operations of an engine over the contract \<open>usb_engine\<close>: the invariant of the device list,
  what opening, discovering and shutting down do to it and to the handles held, and runs of any
  sequence of operations.
\<close>

subsection \<open>Opening a device by id and by address\<close>

lemma held_ask_open:
  assumes "ask env (Open_Vid_Pid v p) w = (r, w')"
  shows "held env w w' M (if r_handle r = 0 then M else add_mset (r_handle r) M)"
  using assms unfolding held_def ask_def by (intro exI [of _ "[Open_Vid_Pid v p]"]) auto

lemma held_open_at:
  "open_at env ds i bus devaddr w = (h, w') \<Longrightarrow>
     held env w w' M (if h = 0 then M else add_mset h M)"
proof (induction env ds i bus devaddr w rule: open_at.induct)
  case (2 env d ds i bus devaddr w)
  have "held env w (w @ [Open_Device i]) M
      (if r_rc (env (w @ [Open_Device i])) \<noteq> 0 \<or> r_handle (env (w @ [Open_Device i])) = 0 then M
       else add_mset (r_handle (env (w @ [Open_Device i]))) M)"
    unfolding held_def by (intro exI [of _ "[Open_Device i]"]) auto
  then show ?case using 2 by (auto simp: ask_def split: if_splits)
qed simp

lemma evt_init [simp]: "usbq_init env g w = (rc, g', w') \<Longrightarrow> evt_refcount g' = evt_refcount g"
  by (auto simp: usbq_init_def ask_def Let_def split: if_splits)

lemma init_keeps:
  "usbq_init env g w = (rc, g', w') \<Longrightarrow> quiet w w' \<and> evt_refcount g' = evt_refcount g"
  using quiet_init [of env g w rc g' w' w] by simp

lemma evt_shutdown [simp]: "usbq_shutdown g w = (g', w') \<Longrightarrow> evt_refcount g' = evt_refcount g"
  by (auto simp: usbq_shutdown_def Let_def split: if_splits)

lemma held_wrapped:
  assumes "held env w w1 M (if h = 0 then M else add_mset h M)" "h \<noteq> 0" "usbq_dev_wrap env h w1 = (d, w')"
  shows "held env w w' M (M + dev_handle d)"
  using held_trans [OF assms(1), of w' "M + dev_handle d"] held_wrap [OF assms(3), of M] assms(2) by simp

lemma held_usbq_open:
  assumes "usbq_open env vidpid g w = (d, g', w')"
  shows "held env w w' M (M + dev_handle d) \<and> evt_refcount g' = evt_refcount g"
proof (cases "parse_vidpid vidpid")
  case None
  then show ?thesis using assms by (simp add: usbq_open_def dev_handle_def)
next
  case (Some vp)
  obtain v p where vp: "vp = (v, p)" by (cases vp)
  obtain rc g1 w1 where i: "usbq_init env g w = (rc, g1, w1)" by (cases "usbq_init env g w")
  obtain r w2 where a: "ask env (Open_Vid_Pid v p) w1 = (r, w2)" by fastforce
  have h1: "held env w w1 M M" by (rule held_quiet, rule quiet_init [OF i]) simp
  have h2: "held env w w2 M (if r_handle r = 0 then M else add_mset (r_handle r) M)"
    by (rule held_trans [OF h1 held_ask_open [OF a]])
  show ?thesis
    using assms i a h1 h2 held_wrapped [OF h2] Some vp
    by (auto simp: usbq_open_def Let_def dev_handle_def split: if_splits prod.splits)
qed

lemma held_open_by_addr:
  assumes "usbq_open_by_addr env bus devaddr g w = (d, g', w')"
  shows "held env w w' M (M + dev_handle d) \<and> evt_refcount g' = evt_refcount g"
proof -
  obtain rc g1 w1 where i: "usbq_init env g w = (rc, g1, w1)" by (cases "usbq_init env g w")
  let ?r = "env (w1 @ [Device_List])"
  obtain h w2 where o: "open_at env (r_devs ?r) 0 bus devaddr (w1 @ [Device_List]) = (h, w2)" by fastforce
  have h1: "held env w w1 M M" "held env w (w1 @ [Device_List]) M M"
    by (rule held_quiet, simp add: quiet_init [OF i])+
  have h2: "held env w w2 M (if h = 0 then M else add_mset h M)"
    by (rule held_trans [OF h1(2) held_open_at [OF o]])
  show ?thesis
    using assms i o h1 h2 held_wrapped [OF h2]
    by (auto simp: usbq_open_by_addr_def Let_def dev_handle_def ask_def split: if_splits prod.splits)
qed

lemma quiet_enumerate:
  "usbq_enumerate env v mx g w = (n, out, g', w') \<Longrightarrow> quiet w w' \<and> evt_refcount g' = evt_refcount g"
  by (auto simp: usbq_enumerate_def Let_def ask_def dest: evt_init dest!: quiet_init [of _ _ _ _ _ _ w]
      split: if_splits prod.splits)

lemma quiet_scan_ids:
  "scan_ids env bridge b mx vs out g w = (out', g', w') \<Longrightarrow> quiet w w' \<and> evt_refcount g' = evt_refcount g"
proof (induction vs arbitrary: out g w)
  case (Cons v vs)
  obtain n ds g1 w1 where e: "usbq_enumerate env (Some v) 16 g w = (n, ds, g1, w1)"
    by (cases "usbq_enumerate env (Some v) 16 g w")
  show ?case using Cons.IH Cons.prems quiet_enumerate [OF e] quiet_trans
    by (auto simp: e Let_def split: if_splits)
qed simp

lemma quiet_scan_boards:
  "scan_boards env bridge mx bs out g w = (out', g', w') \<Longrightarrow> quiet w w' \<and> evt_refcount g' = evt_refcount g"
proof (induction bs arbitrary: out g w)
  case (Cons b bs)
  obtain o1 g1 w1 where e: "scan_ids env bridge b mx (b_vidpids b) out g w = (o1, g1, w1)"
    by (cases "scan_ids env bridge b mx (b_vidpids b) out g w")
  show ?case using Cons.IH [of o1 g1 w1] Cons.prems quiet_scan_ids [OF e] quiet_trans
    by (auto simp: e Let_def split: if_splits)
qed simp

lemma quiet_scan_present:
  "engine_scan_present env bridge table has mx g w = (out, g', w') \<Longrightarrow>
     quiet w w' \<and> evt_refcount g' = evt_refcount g"
  by (auto simp: engine_scan_present_def Let_def dest!: quiet_scan_boards init_keeps
      intro: quiet_trans split: if_splits prod.splits)

subsection \<open>The invariant of an engine\<close>

definition frontend_live :: "('s, 'fe) frontend \<Rightarrow> bool" where
  "frontend_live fe \<longleftrightarrow> ef_fe fe \<noteq> None \<and> ef_handle fe \<noteq> None \<and> ef_stream fe \<noteq> None"

definition engine_inv :: "('b, 'c, 'fe) engine \<Rightarrow> bool" where
  "engine_inv W \<longleftrightarrow>
     0 \<le> spare W \<and> (en_devices W \<noteq> [] \<longrightarrow> en_inited W) \<and>
     list_all (\<lambda>d. ed_frontends d \<noteq> [] \<and> list_all frontend_live (ed_frontends d)) (en_devices W)"

text \<open>The handles a caller may use.\<close>

definition published :: "('b, 'c, 'fe) engine \<Rightarrow> dvb_frontend_handle option multiset" where
  "published W = mset (concat (map (\<lambda>d. map ef_handle (ed_frontends d)) (en_devices W)))"

text \<open>An operation that may add devices: from \<open>W\<close>, holding \<open>M\<close> besides, with result \<open>r\<close>.\<close>

definition publishes :: "host \<Rightarrow> nat multiset \<Rightarrow> int \<Rightarrow> ('b, 'c, 'fe) engine
    \<Rightarrow> int \<times> dvb_frontend_handle list \<times> ('b, 'c, 'fe) engine \<Rightarrow> bool" where
  "publishes env M mx W r \<longleftrightarrow>
     (case r of (n, hs, W') \<Rightarrow>
        0 \<le> n \<and> n \<le> mx \<and> length hs = nat n \<and> engine_step env M W {#} W' \<and> engine_inv W' \<and>
        (en_inited W \<longrightarrow> en_inited W') \<and>
        (\<exists>ds. en_devices W' = ds @ en_devices W \<and>
              map Some hs = concat (map (\<lambda>d. map ef_handle (ed_frontends d)) (rev ds))))"

lemma publishes_published:
  assumes "publishes env M mx W (n, hs, W')"
  shows "published W' = mset (map Some hs) + published W"
proof -
  have rev: "mset (concat (map f (rev xs))) = mset (concat (map f xs))" for f :: "'x \<Rightarrow> 'y list" and xs
    by (induction xs) simp_all
  show ?thesis
    using assms by (auto simp: publishes_def published_def rev simp del: mset_map)
qed

text \<open>Steps that leave the device list alone.\<close>

lemma spare_update [simp]:
  "spare (W\<lparr>en_lib := g, en_wire := w\<rparr>) = evt_refcount g - dev_streams W"
  "spare (W\<lparr>en_wire := w\<rparr>) = spare W"
  by (simp_all add: spare_def dev_streams_def)

lemma engine_step_wire:
  "held env (en_wire W) w (M + dev_handles W) (M' + dev_handles W) \<Longrightarrow> engine_step env M W M' (W\<lparr>en_wire := w\<rparr>)"
  by (simp add: engine_step_def dev_handles_def)

lemma engine_step_lib:
  "held env (en_wire W) w (M + dev_handles W) (M' + dev_handles W) \<Longrightarrow>
     evt_refcount g = evt_refcount (en_lib W) \<Longrightarrow> engine_step env M W M' (W\<lparr>en_lib := g, en_wire := w\<rparr>)"
  by (simp add: engine_step_def dev_handles_def spare_def dev_streams_def)

lemma published_update [simp]: "published (W\<lparr>en_lib := g, en_wire := w\<rparr>) = published W"
  "published (W\<lparr>en_wire := w\<rparr>) = published W" "published (W\<lparr>en_lib := g\<rparr>) = published W"
  by (simp_all add: published_def)

lemma engine_inv_update [simp]:
  "engine_inv (W\<lparr>en_wire := w\<rparr>) = engine_inv W"
  "evt_refcount g = evt_refcount (en_lib W) \<Longrightarrow> engine_inv (W\<lparr>en_lib := g\<rparr>) = engine_inv W"
  by (simp_all add: engine_inv_def spare_def dev_streams_def)

lemma publishes_none:
  "engine_step env M W {#} W' \<Longrightarrow> engine_inv W' \<Longrightarrow> (en_inited W \<longrightarrow> en_inited W') \<Longrightarrow>
     en_devices W' = en_devices W \<Longrightarrow> 0 \<le> mx \<Longrightarrow> publishes env M mx W (0, [], W')"
  by (simp add: publishes_def)

lemma publishes_after:
  assumes "engine_step env M W M1 W1" "en_inited W \<longrightarrow> en_inited W1" "en_devices W1 = en_devices W"
    "publishes env M1 mx W1 r"
  shows "publishes env M mx W r"
  using assms engine_step_trans by (auto simp: publishes_def split: prod.splits)

lemma ensure_init_spec:
  assumes "engine_inv W" "ensure_init E W = (ok, W1)"
  shows "engine_step (en_host E) {#} W {#} W1 \<and> engine_inv W1 \<and> (ok \<longrightarrow> en_inited W1) \<and>
    (en_inited W \<longrightarrow> en_inited W1) \<and> en_devices W1 = en_devices W"
proof (cases "en_inited W")
  case False
  obtain rc g w where i: "usbq_init (en_host E) (en_lib W) (en_wire W) = (rc, g, w)"
    by (cases "usbq_init (en_host E) (en_lib W) (en_wire W)")
  have k: "held (en_host E) (en_wire W) w (dev_handles W) (dev_handles W)" "evt_refcount g = evt_refcount (en_lib W)"
    using init_keeps [OF i] held_quiet by auto
  show ?thesis using assms False i k
    by (auto simp: ensure_init_def Let_def engine_step_def dev_handles_def spare_def dev_streams_def engine_inv_def
        published_def split: if_splits)
qed (use assms in \<open>simp add: ensure_init_def\<close>)

subsection \<open>Opening\<close>

lemma ready_live: "frontend_ready fe \<Longrightarrow> frontend_live fe"
  by (auto simp: frontend_ready_def frontend_live_def)

lemma ready_handles:
  "list_all frontend_ready fes \<Longrightarrow> map Some (map (the \<circ> ef_handle) fes) = map ef_handle fes"
  by (induction fes) (auto simp: frontend_ready_def)

lemma dev_handles_cons: "en_devices W' = d # en_devices W \<Longrightarrow>
    dev_handles W' = add_mset (ud_handle (ed_usb d)) (dev_handles W)"
  by (simp add: dev_handles_def)

lemma usbq_close_eq [simp]: "usbq_close (Some usb) w = w @ [Close_Handle (ud_handle usb)]"
  by (simp add: usbq_close_def)

lemma close_step: "engine_step env {#ud_handle usb#} W {#} (W\<lparr>en_wire := en_wire W @ [Close_Handle (ud_handle usb)]\<rparr>)"
  by (rule engine_step_wire) (simp add: held_close)

text \<open>Discovery adds to the handles already found.\<close>

definition finds :: "host \<Rightarrow> int \<Rightarrow> int \<Rightarrow> dvb_frontend_handle list \<Rightarrow> ('b, 'c, 'fe) engine
    \<Rightarrow> int \<times> dvb_frontend_handle list \<times> ('b, 'c, 'fe) engine \<Rightarrow> bool" where
  "finds env mx k hs W r \<longleftrightarrow>
     (case r of (n, hs', W') \<Rightarrow> \<exists>new. hs' = hs @ new \<and> publishes env {#} (mx - k) W (n - k, new, W'))"

lemma finds_none: "engine_inv W \<Longrightarrow> k \<le> mx \<Longrightarrow> finds env mx k hs W (k, hs, W)"
  by (simp add: finds_def publishes_none)

lemma finds_after:
  assumes "publishes env {#} (mx - k) W (n, new, W1)" "finds env mx (k + n) (hs @ new) W1 r"
  shows "finds env mx k hs W r"
proof -
  obtain m hs' W' where r: "r = (m, hs', W')" by (cases r)
  then obtain new' where "hs' = (hs @ new) @ new'" "publishes env {#} (mx - (k + n)) W1 (m - (k + n), new', W')"
    using assms(2) by (auto simp: finds_def)
  then show ?thesis using assms(1) engine_step_trans
    by (auto simp: r finds_def publishes_def ac_simps nat_add_distrib intro!: exI [of _ "new @ new'"])
qed

lemma finds_trans:
  assumes "finds env mx k hs W (n, hs1, W1)" "finds env mx n hs1 W1 r"
  shows "finds env mx k hs W r"
proof -
  obtain new where "hs1 = hs @ new" "publishes env {#} (mx - k) W (n - k, new, W1)"
    using assms(1) by (auto simp: finds_def)
  then show ?thesis using finds_after [of env mx k W "n - k" new W1 hs r] assms(2) by simp
qed

lemma find_board_mem: "find_board_by_vidpid t v = Some b \<Longrightarrow> b \<in> set t"
  by (auto simp: find_board_by_vidpid_def dest: find_board_in_Some split: option.splits)

context usb_engine
begin

lemma open_from_usb_publishes:
  assumes t: "chips_tame E" and b: "board \<in> set (ek_table K)" and W: "engine_inv W" "en_inited W" and mx: "0 \<le> mx"
    and run: "engine_open_from_usb E K board usb mx W = Some r"
  shows "publishes (en_host E) {#ud_handle usb#} mx W r"
proof -
  obtain n hs W' where r: "r = (n, hs, W')" by (cases r)
  have sp: "0 \<le> spare W" using W by (simp add: engine_inv_def)
  have step: "engine_step (en_host E) {#ud_handle usb#} W {#} W'" and od: "opened_device board usb mx W r"
    using open_from_usb_spec [OF t b sp run] by (auto simp: r)
  have sp': "0 \<le> spare W'" using step sp by (simp add: engine_step_def)
  from od consider (none) "n = 0" "hs = []" "en_devices W' = en_devices W" "en_inited W' = en_inited W"
    | (dev) d where "n = b_num_frontends board" "n \<le> mx" "en_inited W' = en_inited W"
      "en_devices W' = d # en_devices W" "length (ed_frontends d) = nat n"
      "list_all frontend_ready (ed_frontends d)" "hs = map (the \<circ> ef_handle) (ed_frontends d)"
    by (auto simp: opened_device_def r)
  then show ?thesis
  proof cases
    case none
    then show ?thesis using step sp' W mx by (simp add: r publishes_def engine_inv_def published_def)
  next
    case dev
    have "ed_frontends d \<noteq> []" using dev(1,5) num_pos [OF b] by auto
    moreover have "list_all frontend_live (ed_frontends d)"
      using dev(6) by (auto simp: list_all_iff ready_live)
    moreover note ready_handles [OF dev(6)]
    ultimately show ?thesis
      using dev step sp' W num_pos [OF b]
      by (simp add: r publishes_def engine_inv_def multiset.map_comp del: map_map)
  qed
qed

lemma claim_publishes:
  assumes t: "chips_tame E" and b: "board \<in> set (ek_table K)" and W: "engine_inv W" "en_inited W" and mx: "0 \<le> mx"
    and run: "claim_and_open E K board usb mx W = Some r"
  shows "publishes (en_host E) {#ud_handle usb#} mx W r"
proof -
  obtain x w1 where d: "usbq_disconnect_kernel_driver (en_host E) (Some usb) (en_wire W) = (x, w1)" by fastforce
  obtain rc w2 where c: "usbq_claim_interface (en_host E) (Some usb) 0 w1 = (rc, w2)" by fastforce
  have "quiet (en_wire W) w2" using quiet_claim [OF c] quiet_disconnect [OF d] by simp
  then have step: "engine_step (en_host E) M W M (W\<lparr>en_wire := w2\<rparr>)" for M
    by (intro engine_step_wire held_quiet)
  show ?thesis
  proof (cases "rc < 0")
    case True
    have r: "r = (0, [], W\<lparr>en_wire := w2 @ [Close_Handle (ud_handle usb)]\<rparr>)"
      using run True d c by (simp add: claim_and_open_def)
    have "engine_step (en_host E) {#ud_handle usb#} W {#} (W\<lparr>en_wire := w2 @ [Close_Handle (ud_handle usb)]\<rparr>)"
      using engine_step_trans [OF step close_step] by simp
    then show ?thesis unfolding r using W mx by (intro publishes_none) simp_all
  next
    case False
    then have "engine_open_from_usb E K board usb mx (W\<lparr>en_wire := w2\<rparr>) = Some r"
      using run d c by (simp add: claim_and_open_def)
    from open_from_usb_publishes [OF t b _ _ mx this] W
    show ?thesis by (intro publishes_after [OF step]) simp_all
  qed
qed

lemma open_device_publishes:
  assumes t: "chips_tame E" and b: "board \<in> set (ek_table K)" and W: "engine_inv W" "en_inited W" and mx: "0 \<le> mx"
    and run: "engine_open_device E K board v mx W = Some r"
  shows "publishes (en_host E) {#} mx W r"
proof -
  obtain d g w where o: "usbq_open (en_host E) (Some v) (en_lib W) (en_wire W) = (d, g, w)"
    by (cases "usbq_open (en_host E) (Some v) (en_lib W) (en_wire W)")
  let ?W = "W\<lparr>en_lib := g, en_wire := w\<rparr>"
  note k = held_usbq_open [OF o]
  have step: "engine_step (en_host E) {#} W (dev_handle d) ?W"
    using k [of "dev_handles W"] by (intro engine_step_lib) (simp_all add: ac_simps)
  show ?thesis
  proof (cases d)
    case None
    then have "r = (0, [], ?W)" using run o by (simp add: engine_open_device_def)
    then show ?thesis using step None W mx k by (auto intro!: publishes_none simp: dev_handle_def)
  next
    case (Some usb)
    then have "claim_and_open E K board usb mx ?W = Some r" using run o by (simp add: engine_open_device_def)
    from claim_publishes [OF t b _ _ mx this] W k
    show ?thesis using Some by (intro publishes_after [OF step]) (simp_all add: dev_handle_def)
  qed
qed

lemma open_publishes:
  assumes t: "chips_tame E" and W: "engine_inv W"
    and run: "engine_open E K v has mx W = Some r"
  shows "publishes (en_host E) {#} (max 0 mx) W r"
proof -
  obtain ok W1 where i: "ensure_init E W = (ok, W1)" by fastforce
  note I = ensure_init_spec [OF W i]
  have mx: "0 \<le> max 0 mx" by simp
  show ?thesis
  proof (cases "v = None \<or> \<not> has \<or> mx \<le> 0 \<or> \<not> ok \<or> find_board_by_vidpid (ek_table K) v = None")
    case True
    then have "r = (0, [], W) \<or> r = (0, [], W1)"
      using run i by (auto simp: engine_open_def split: option.splits if_splits)
    then show ?thesis using I W mx by (auto intro!: publishes_none)
  next
    case False
    then obtain s b where b: "v = Some s" "find_board_by_vidpid (ek_table K) (Some s) = Some b" by auto
    then have "engine_open_device E K b s mx W1 = Some r"
      using run i False by (simp add: engine_open_def)
    from open_device_publishes [OF t find_board_mem [OF b(2)] _ _ _ this] I False
    show ?thesis by (intro publishes_after [of _ _ W "{#}" W1]) (simp_all add: max_def)
  qed
qed

lemma open_by_addr_publishes:
  assumes t: "chips_tame E" and W: "engine_inv W"
    and run: "engine_open_by_addr E K bus addr has mx W = Some r"
  shows "publishes (en_host E) {#} (max 0 mx) W r"
proof -
  obtain ok W1 where i: "ensure_init E W = (ok, W1)" by fastforce
  note I = ensure_init_spec [OF W i]
  have mx: "0 \<le> max 0 mx" by simp
  obtain d g w where o: "usbq_open_by_addr (en_host E) bus addr (en_lib W1) (en_wire W1) = (d, g, w)"
    by (cases "usbq_open_by_addr (en_host E) bus addr (en_lib W1) (en_wire W1)")
  let ?W = "W1\<lparr>en_lib := g, en_wire := w\<rparr>"
  note k = held_open_by_addr [OF o]
  have "engine_step (en_host E) {#} W1 (dev_handle d) ?W"
    using k [of "dev_handles W1"] by (intro engine_step_lib) (simp_all add: ac_simps)
  then have step: "engine_step (en_host E) {#} W (dev_handle d) ?W" using I engine_step_trans by blast
  show ?thesis
  proof (cases "\<not> has \<or> mx \<le> 0 \<or> \<not> ok")
    case True
    then have "r = (0, [], W) \<or> r = (0, [], W1)"
      using run i by (auto simp: engine_open_by_addr_def split: if_splits)
    then show ?thesis using I W mx by (auto intro!: publishes_none)
  next
    case False
    note run' = run [unfolded engine_open_by_addr_def] 
    show ?thesis
    proof (cases d)
      case None
      then have "r = (0, [], ?W)" using run' False i o by simp
      then show ?thesis using step None I mx k by (auto intro!: publishes_none simp: dev_handle_def)
    next
      case (Some usb)
      have stepU: "engine_step (en_host E) {#} W {#ud_handle usb#} ?W" using step Some by (simp add: dev_handle_def)
      show ?thesis
      proof (cases "find_board_by_vidpid (ek_table K) (Some (format_vidpid (ud_vid usb) (ud_pid usb)))")
        case None
        then have "r = (0, [], ?W\<lparr>en_wire := en_wire ?W @ [Close_Handle (ud_handle usb)]\<rparr>)"
          using run' False i o Some by simp
        then show ?thesis using engine_step_trans [OF stepU close_step] I mx k by (auto intro!: publishes_none)
      next
        case board: (Some b)
        then have "claim_and_open E K b usb mx ?W = Some r" using run' False i o Some by simp
        from claim_publishes [OF t find_board_mem [OF board] _ _ _ this] I k False
        show ?thesis by (intro publishes_after [OF stepU]) (simp_all add: max_def)
      qed
    qed
  qed
qed

lemma discover_ids_finds:
  assumes t: "chips_tame E" and b: "board \<in> set (ek_table K)"
  shows "engine_inv W \<Longrightarrow> en_inited W \<Longrightarrow> k \<le> mx \<Longrightarrow>
    discover_ids E K board mx vs k hs W = Some r \<Longrightarrow> finds (en_host E) mx k hs W r"
proof (induction vs arbitrary: k hs W)
  case (Cons v vs)
  show ?case
  proof (cases "k < mx")
    case True
    then obtain n new W1 where o: "engine_open_device E K board v (mx - k) W = Some (n, new, W1)"
      and rest: "discover_ids E K board mx vs (k + n) (hs @ new) W1 = Some r"
      using Cons.prems(4) by (auto simp: bind_eq_Some_conv simp del: split_paired_Ex)
    have p: "publishes (en_host E) {#} (mx - k) W (n, new, W1)"
      using open_device_publishes [OF t b Cons.prems(1,2) _ o] True by simp
    show ?thesis
      by (rule finds_after [OF p], rule Cons.IH [OF _ _ _ rest])
         (use p Cons.prems in \<open>auto simp: publishes_def\<close>)
  qed (use Cons.prems in \<open>auto intro: finds_none\<close>)
qed (auto intro: finds_none)

lemma discover_boards_finds:
  assumes t: "chips_tame E"
  shows "set bs \<subseteq> set (ek_table K) \<Longrightarrow> engine_inv W \<Longrightarrow> en_inited W \<Longrightarrow> k \<le> mx \<Longrightarrow>
    discover_boards E K mx bs k hs W = Some r \<Longrightarrow> finds (en_host E) mx k hs W r"
proof (induction bs arbitrary: k hs W)
  case (Cons b bs)
  obtain n hs1 W1 where i: "discover_ids E K b mx (b_vidpids b) k hs W = Some (n, hs1, W1)"
    and rest: "discover_boards E K mx bs n hs1 W1 = Some r"
    using Cons.prems(5) by (auto simp: bind_eq_Some_conv simp del: split_paired_Ex)
  have f: "finds (en_host E) mx k hs W (n, hs1, W1)"
    by (rule discover_ids_finds [OF t _ Cons.prems(2-4) i]) (use Cons.prems in simp)
  show ?case
    by (rule finds_trans [OF f], rule Cons.IH [OF _ _ _ _ rest])
       (use f Cons.prems in \<open>auto simp: finds_def publishes_def\<close>)
qed (auto intro: finds_none)

lemma discover_publishes:
  assumes t: "chips_tame E" and W: "engine_inv W"
    and run: "engine_discover_all E K has mx W = Some r"
  shows "publishes (en_host E) {#} (max 0 mx) W r"
proof -
  obtain ok W1 where i: "ensure_init E W = (ok, W1)" by fastforce
  note I = ensure_init_spec [OF W i]
  have mx: "0 \<le> max 0 mx" by simp
  show ?thesis
  proof (cases "\<not> has \<or> mx \<le> 0 \<or> \<not> ok")
    case True
    then have "r = (0, [], W) \<or> r = (0, [], W1)"
      using run i by (auto simp: engine_discover_all_def split: if_splits)
    then show ?thesis using I W mx by (auto intro!: publishes_none)
  next
    case False
    then have "discover_boards E K mx (ek_table K) 0 [] W1 = Some r"
      using run i by (simp add: engine_discover_all_def)
    from discover_boards_finds [OF t _ _ _ _ this] have "finds (en_host E) mx 0 [] W1 r"
      using I False by simp
    then have "publishes (en_host E) {#} mx W1 r" by (cases r) (simp add: finds_def)
    then show ?thesis using I False by (intro publishes_after [of _ _ W "{#}" W1]) (simp_all add: max_def)
  qed
qed

lemma close_devices_spec:
  assumes t: "chips_tame E"
  shows "(\<Sum>d \<leftarrow> ds. streams (ed_frontends d)) \<le> evt_refcount g \<Longrightarrow>
    close_devices E (ek_capture K) ds g c w = Some (g', c', w') \<Longrightarrow>
    held (en_host E) w w' (M + mset (map (\<lambda>d. ud_handle (ed_usb d)) ds)) M \<and>
    evt_refcount g' = evt_refcount g - (\<Sum>d \<leftarrow> ds. streams (ed_frontends d))"
proof (induction ds arbitrary: g c w)
  case (Cons d ds)
  obtain fes g1 s1 where td: "teardown_all E (ek_capture K) (ed_frontends d) g ((ed_bridge d, w), c) = Some (fes, g1, s1)"
    and rest: "close_devices E (ek_capture K) ds g1 (snd s1) (give_back E (ed_usb d) (wire_of s1)) = Some (g', c', w')"
    using Cons.prems(2) by (auto simp: bind_eq_Some_conv simp del: split_paired_Ex)
  have nn: "0 \<le> (\<Sum>d \<leftarrow> ds. streams (ed_frontends d))"
    by (rule sum_list_nonneg) (auto intro: streams_nonneg)
  have "streams (ed_frontends d) \<le> evt_refcount g" using Cons.prems(1) nn by simp
  from yieldsD [OF teardown_all_yields [OF t this, of w] td]
  have q: "quiet w (wire_of s1)" "evt_refcount g1 = evt_refcount g - streams (ed_frontends d)"
    by (simp_all add: evt_by_def)
  let ?M = "M + mset (map (\<lambda>d. ud_handle (ed_usb d)) ds)"
  have "held (en_host E) w (give_back E (ed_usb d) (wire_of s1)) (add_mset (ud_handle (ed_usb d)) ?M) ?M"
    using held_trans [OF held_quiet [OF q(1)] held_give_back] .
  moreover have "held (en_host E) (give_back E (ed_usb d) (wire_of s1)) w' ?M M \<and>
      evt_refcount g' = evt_refcount g1 - (\<Sum>d \<leftarrow> ds. streams (ed_frontends d))"
    by (rule Cons.IH [OF _ rest]) (use q(2) Cons.prems(1) in simp)
  ultimately show ?case using held_trans q(2) by fastforce
qed simp

lemma shutdown_spec:
  assumes t: "chips_tame E" and W: "engine_inv W" and run: "engine_shutdown E (ek_capture K) W = Some W'"
  shows "engine_step (en_host E) {#} W {#} W' \<and> engine_inv W' \<and> en_devices W' = [] \<and> \<not> en_inited W'"
proof -
  obtain g c w where cl: "close_devices E (ek_capture K) (en_devices W) (en_lib W) (en_chip W) (en_wire W) = Some (g, c, w)"
    using run by (auto simp: engine_shutdown_def bind_eq_Some_conv)
  obtain g1 w1 where sh: "(if en_inited W then usbq_shutdown g w else (g, w)) = (g1, w1)" by fastforce
  have "dev_streams W \<le> evt_refcount (en_lib W)" using W by (simp add: engine_inv_def spare_def)
  from close_devices_spec [OF t this [unfolded dev_streams_def] cl, of "{#}"]
  have h: "held (en_host E) (en_wire W) w (dev_handles W) {#}" "evt_refcount g = spare W"
    by (simp_all add: dev_handles_def spare_def dev_streams_def)
  have "held (en_host E) w w1 {#} {#}" "evt_refcount g1 = evt_refcount g"
    using sh by (auto intro: held_quiet quiet_shutdown split: if_splits)
  then show ?thesis using run cl sh h W held_trans [OF h(1)]
    by (auto simp: engine_shutdown_def engine_step_def dev_handles_def spare_def dev_streams_def engine_inv_def)
qed

end

subsection \<open>Using a published frontend\<close>

text \<open>What a call on a handle of frontend \<open>i\<close> of device \<open>k\<close> works on.\<close>

definition use_frontend :: "nat \<Rightarrow> nat
    \<Rightarrow> ((('b, 'c) chip_state, 'fe) frontend option \<Rightarrow> ('b, 'c) chip_state
        \<Rightarrow> ((('b, 'c) chip_state, 'fe) frontend option \<times> ('b, 'c) chip_state) option)
    \<Rightarrow> ('b, 'c, 'fe) engine \<Rightarrow> ('b, 'c, 'fe) engine option" where
  "use_frontend k i f W =
     (if k < length (en_devices W) \<and> i < length (ed_frontends (en_devices W ! k)) then
        let d = en_devices W ! k
        in do {
          (so, s) \<leftarrow> f (Some (ed_frontends d ! i)) ((ed_bridge d, en_wire W), en_chip W);
          Some (case so of
                  None \<Rightarrow> W
                | Some fe \<Rightarrow>
                    W\<lparr>en_devices := (en_devices W)[k := d\<lparr>ed_bridge := bridge_of s,
                                                        ed_frontends := (ed_frontends d)[i := fe]\<rparr>],
                      en_chip := snd s, en_wire := wire_of s\<rparr>)
        }
      else Some W)"

lemma same_frontend_live: "same_frontend fe fe' \<Longrightarrow> frontend_live fe \<Longrightarrow> frontend_live fe'"
  by (simp add: same_frontend_def frontend_live_def)

lemma use_frontend_spec:
  assumes f: "\<And>fe s. quiet (en_wire W) (wire_of s) \<Longrightarrow> yields (\<lambda>(so, s'). kept (en_wire W) fe so s') (f (Some fe) s)"
    and W: "engine_inv W" and run: "use_frontend k i f W = Some W'"
  shows "engine_step env {#} W {#} W' \<and> engine_inv W' \<and> published W' = published W \<and> en_inited W' = en_inited W"
proof (cases "k < length (en_devices W) \<and> i < length (ed_frontends (en_devices W ! k))")
  case True
  define d where "d = en_devices W ! k"
  define fe where "fe = ed_frontends d ! i"
  obtain so s where r: "f (Some fe) ((ed_bridge d, en_wire W), en_chip W) = Some (so, s)"
    using run True by (auto simp: use_frontend_def bind_eq_Some_conv d_def fe_def Let_def simp del: split_paired_Ex)
  then obtain fe' where q: "quiet (en_wire W) (wire_of s)" and so: "so = Some fe'" and same: "same_frontend fe fe'"
    using yieldsD [OF f [of "((ed_bridge d, en_wire W), en_chip W)" fe] r] by auto
  define d' where "d' = d\<lparr>ed_bridge := bridge_of s, ed_frontends := (ed_frontends d)[i := fe']\<rparr>"
  have W': "W' = W\<lparr>en_devices := (en_devices W)[k := d'], en_chip := snd s, en_wire := wire_of s\<rparr>"
    using run True r so by (simp add: use_frontend_def d_def d'_def fe_def Let_def)
  have fes: "map ef_handle (ed_frontends d') = map ef_handle (ed_frontends d)"
    "streams (ed_frontends d') = streams (ed_frontends d)"
    using same unfolding streams_def d'_def fe_def
    by (simp_all add: map_update_same same_frontend_def)
  have dev: "map (\<lambda>d. ud_handle (ed_usb d)) (en_devices W') = map (\<lambda>d. ud_handle (ed_usb d)) (en_devices W)"
    "map (\<lambda>d. map ef_handle (ed_frontends d)) (en_devices W') = map (\<lambda>d. map ef_handle (ed_frontends d)) (en_devices W)"
    "map (\<lambda>d. streams (ed_frontends d)) (en_devices W') = map (\<lambda>d. streams (ed_frontends d)) (en_devices W)"
    by (simp_all add: W' map_update_same fes d_def) (simp add: d'_def d_def map_update_same)
  have "d \<in> set (en_devices W)" "fe \<in> set (ed_frontends d)" using True by (simp_all add: d_def fe_def)
  then have "ed_frontends d' \<noteq> [] \<and> list_all frontend_live (ed_frontends d')"
    using W same_frontend_live [OF same]
    by (auto simp: d'_def engine_inv_def list_all_iff dest!: set_update_subset_insert [THEN subsetD])
  then have "list_all (\<lambda>d. ed_frontends d \<noteq> [] \<and> list_all frontend_live (ed_frontends d)) (en_devices W')"
    using W unfolding engine_inv_def W' by (simp add: list_all_update)
  then show ?thesis using W True dev held_quiet [OF q]
    by (auto simp: engine_step_def engine_inv_def published_def dev_handles_def spare_def dev_streams_def)
       (simp_all add: W')
qed (use run W in \<open>auto simp: use_frontend_def\<close>)

subsection \<open>Runs\<close>

text \<open>The calls a program makes on an engine: the public operations, and those on a handle it was given
  (device, frontend).\<close>

datatype engine_op =
    Op_Open "string option" bool int
  | Op_Open_By_Addr u8 u8 bool int
  | Op_Discover bool int
  | Op_Scan bool int
  | Op_Tune nat nat "dvb_tune_params option"
  | Op_Read_Ts nat nat "bytes option" nat u32
  | Op_Get_Status nat nat "dvb_status option"
  | Op_Capture_Stop nat nat
  | Op_Shutdown

definition engine_do :: "(('b, 'c) chip_state, 'fe) engine_env \<Rightarrow> ('b, 'c, 'fe, 'z) engine_kind \<Rightarrow> engine_op
    \<Rightarrow> ('b, 'c, 'fe) engine \<Rightarrow> ('b, 'c, 'fe) engine option" where
  "engine_do E K op W =
     (case op of
        Op_Open v has mx \<Rightarrow> map_option (snd \<circ> snd) (engine_open E K v has mx W)
      | Op_Open_By_Addr bus addr has mx \<Rightarrow> map_option (snd \<circ> snd) (engine_open_by_addr E K bus addr has mx W)
      | Op_Discover has mx \<Rightarrow> map_option (snd \<circ> snd) (engine_discover_all E K has mx W)
      | Op_Scan has mx \<Rightarrow>
          let (_, g, w) = engine_scan_present (en_host E) (ek_name K) (ek_table K) has mx (en_lib W) (en_wire W)
          in Some (W\<lparr>en_lib := g, en_wire := w\<rparr>)
      | Op_Tune k i p \<Rightarrow> use_frontend k i (\<lambda>so s. map_option snd (ek_tune K E so p s)) W
      | Op_Read_Ts k i buf len t \<Rightarrow>
          use_frontend k i (\<lambda>so s. map_option (\<lambda>(rc, buf, so, s). (so, s)) (engine_read_ts E so buf len t s)) W
      | Op_Get_Status k i out \<Rightarrow>
          use_frontend k i (\<lambda>so s. map_option (\<lambda>(rc, out, so, s). (so, s)) (ek_get_status K E so out s)) W
      | Op_Capture_Stop k i \<Rightarrow> use_frontend k i (\<lambda>so s. Some (snd (engine_capture_stop (ek_capture K) so s))) W
      | Op_Shutdown \<Rightarrow> engine_shutdown E (ek_capture K) W)"

fun engine_run :: "(('b, 'c) chip_state, 'fe) engine_env \<Rightarrow> ('b, 'c, 'fe, 'z) engine_kind \<Rightarrow> engine_op list
    \<Rightarrow> ('b, 'c, 'fe) engine \<Rightarrow> ('b, 'c, 'fe) engine option" where
  "engine_run E K [] W = Some W"
| "engine_run E K (op # ops) W = do { W \<leftarrow> engine_do E K op W; engine_run E K ops W }"

lemma engine_run_append: "engine_run E K (ops @ ops') W = Option.bind (engine_run E K ops W) (engine_run E K ops')"
proof (induction ops arbitrary: W)
  case (Cons op ops)
  then show ?case by (cases "engine_do E K op W") simp_all
qed simp

lemma yields_map_option [simp]: "yields P (map_option f m) = yields (\<lambda>x. P (f x)) m"
  by (auto simp: yields_def)

lemma quiet_run_callbacks: "run_callbacks env cs s w = (s', w') \<Longrightarrow> quiet w0 w \<Longrightarrow> quiet w0 w'"
proof (induction cs arbitrary: s w)
  case (Cons c cs)
  obtain s1 w1 where c: "stream_xfer_cb env c s w = (s1, w1)" by force
  show ?case using Cons quiet_cb [OF c] by (auto simp: c)
qed simp

lemma quiet_await_data: "await_data env ws s w = Some (s', w') \<Longrightarrow> quiet w0 w \<Longrightarrow> quiet w0 w'"
proof (induction env ws s w rule: await_data.induct)
  case (2 env cs rc ws s w)
  obtain s1 w1 where c: "run_callbacks env cs s w = (s1, w1)" by force
  show ?case using 2(1) [OF _ c [symmetric] refl] 2(2,3) quiet_run_callbacks [OF c 2(3)]
    by (auto simp: c split: if_splits)
qed (auto split: if_splits)

lemma quiet_stream_read:
  "usbq_stream_read env (Some st) buf cap t now tw w = Some (rc, buf', so, w') \<Longrightarrow> quiet w0 w \<Longrightarrow>
     quiet w0 w' \<and> so \<noteq> None"
  by (auto simp: usbq_stream_read_def Let_def dest: quiet_await_data
      split: option.splits if_splits prod.splits)

lemma read_ts_keeps:
  assumes "quiet w0 (wire_of s)"
  shows "yields (\<lambda>(rc, buf, so, s'). kept w0 fe so s') (engine_read_ts E (Some fe) buf len t s)"
proof (cases "ef_stream fe")
  case (Some st)
  have "yields (\<lambda>(rc, buf, so, w'). quiet w0 w' \<and> so \<noteq> None)
      (usbq_stream_read (en_host E) (Some st) buf len t (en_now E (wire_of s)) (en_waits E (wire_of s)) (wire_of s))"
    using quiet_stream_read assms by (fastforce intro: yieldsI)
  then show ?thesis using Some assms
    by (auto simp: engine_read_ts_def same_frontend_def elim!: yields_mono)
qed (use assms in \<open>auto simp: engine_read_ts_def\<close>)

context usb_engine
begin

lemma capture_stop_keeps:
  "quiet w0 (wire_of s) \<Longrightarrow> kept w0 fe (fst (snd (engine_capture_stop (ek_capture K) (Some fe) s)))
     (snd (snd (engine_capture_stop (ek_capture K) (Some fe) s)))"
  by (auto simp: engine_capture_stop_def same_frontend_def dest: run_capture_quiet split: prod.split)

lemma engine_do_spec:
  assumes t: "chips_tame E" and W: "engine_inv W" and run: "engine_do E K op W = Some W'"
  shows "engine_step (en_host E) {#} W {#} W' \<and> engine_inv W'"
proof -
  have pub: "engine_step (en_host E) {#} W {#} W' \<and> engine_inv W'"
    if "publishes (en_host E) {#} mx W r" "W' = snd (snd r)" for mx r
    using that by (auto simp: publishes_def split: prod.splits)
  have use: "engine_step (en_host E) {#} W {#} W' \<and> engine_inv W'"
    if "use_frontend k i f W = Some W'"
      "\<And>fe s. quiet (en_wire W) (wire_of s) \<Longrightarrow> yields (\<lambda>(so, s'). kept (en_wire W) fe so s') (f (Some fe) s)"
    for k i f
    using use_frontend_spec [OF that(2) W that(1)] by simp
  show ?thesis
  proof (cases op)
    case (Op_Open v has mx)
    then obtain r where "engine_open E K v has mx W = Some r" "W' = snd (snd r)" using run by (auto simp: engine_do_def)
    then show ?thesis using pub open_publishes [OF t W] by blast
  next
    case (Op_Open_By_Addr bus addr has mx)
    then obtain r where "engine_open_by_addr E K bus addr has mx W = Some r" "W' = snd (snd r)"
      using run by (auto simp: engine_do_def)
    then show ?thesis using pub open_by_addr_publishes [OF t W] by blast
  next
    case (Op_Discover has mx)
    then obtain r where "engine_discover_all E K has mx W = Some r" "W' = snd (snd r)"
      using run by (auto simp: engine_do_def)
    then show ?thesis using pub discover_publishes [OF t W] by blast
  next
    case (Op_Scan has mx)
    obtain out g w where s: "engine_scan_present (en_host E) (ek_name K) (ek_table K) has mx (en_lib W) (en_wire W) = (out, g, w)"
      by (cases "engine_scan_present (en_host E) (ek_name K) (ek_table K) has mx (en_lib W) (en_wire W)")
    have W': "W' = W\<lparr>en_lib := g, en_wire := w\<rparr>" using run Op_Scan s by (simp add: engine_do_def)
    show ?thesis unfolding W' using quiet_scan_present [OF s] W
      by (auto intro!: engine_step_lib held_quiet)
  next
    case (Op_Tune k i p)
    show ?thesis
      by (rule use [of k i "\<lambda>so s. map_option snd (ek_tune K E so p s)"])
         (use run Op_Tune tune_keeps [OF t] in \<open>auto simp: engine_do_def case_prod_unfold\<close>)
  next
    case (Op_Read_Ts k i buf len to)
    show ?thesis
      by (rule use [of k i "\<lambda>so s. map_option (\<lambda>(rc, buf, so, s). (so, s)) (engine_read_ts E so buf len to s)"])
         (use run Op_Read_Ts read_ts_keeps in \<open>auto simp: engine_do_def case_prod_unfold\<close>)
  next
    case (Op_Get_Status k i out)
    show ?thesis
      by (rule use [of k i "\<lambda>so s. map_option (\<lambda>(rc, out, so, s). (so, s)) (ek_get_status K E so out s)"])
         (use run Op_Get_Status status_keeps [OF t] in \<open>auto simp: engine_do_def case_prod_unfold\<close>)
  next
    case (Op_Capture_Stop k i)
    show ?thesis
      by (rule use [of k i "\<lambda>so s. Some (snd (engine_capture_stop (ek_capture K) so s))"])
         (use run Op_Capture_Stop in \<open>simp_all add: engine_do_def case_prod_unfold capture_stop_keeps\<close>)
  next
    case Op_Shutdown
    then show ?thesis using run shutdown_spec [OF t W] by (simp add: engine_do_def)
  qed
qed

lemma engine_run_spec:
  assumes t: "chips_tame E"
  shows "engine_inv W \<Longrightarrow> engine_run E K ops W = Some W' \<Longrightarrow> engine_step (en_host E) {#} W {#} W' \<and> engine_inv W'"
proof (induction ops arbitrary: W)
  case (Cons op ops)
  obtain W1 where one: "engine_do E K op W = Some W1" and rest: "engine_run E K ops W1 = Some W'"
    using Cons.prems(2) by (auto simp: bind_eq_Some_conv)
  note d = engine_do_spec [OF t Cons.prems(1) one]
  show ?case using Cons.IH [OF _ rest] d engine_step_trans by blast
qed simp

end

end
