(* ===== verification/Engine_Bench.thy ===== *)
theory Engine_Bench
  imports Engine_Run
begin

text \<open>
  One concrete world in which the dib0700 engine opens its board, tunes and shuts down: a host with that
  one device, which answers every request favourably but refuses to cancel transfers (so no wait is needed), and two chip
  drivers that bind and do nothing. It shows that the hypotheses of the engines' theorems can hold.
\<close>

definition bench_reply :: "usb_req \<Rightarrow> usb_resp" where
  "bench_reply q =
     \<lparr>r_rc = (case q of Alloc \<Rightarrow> 1 | Control _ _ _ _ _ _ _ _ \<Rightarrow> 16 | Cancel_Transfer _ \<Rightarrow> -5 | _ \<Rightarrow> 0),
      r_data = [],
      r_devs = [\<lparr>di_vid = 0x045e, di_pid = 0x02d5, di_bus = 1, di_addr = 2, di_desc_rc = 0\<rparr>],
      r_handle = (case q of Open_Vid_Pid v p \<Rightarrow> if v = 0x045e \<and> p = 0x02d5 then 7 else 0 | _ \<Rightarrow> 7),
      r_fds = (3, 4)\<rparr>"

definition bench :: host where
  "bench w = bench_reply (last w)"

lemma bench_last [simp]: "bench (w @ [q]) = bench_reply q"
  by (simp add: bench_def)

lemma ask_bench [simp]: "ask bench q w = (bench_reply q, w @ [q])"
  by (simp add: ask_def)

definition bench_chips :: "((dib0700_dev, nat) chip_state, nat) chips" where
  "bench_chips =
     \<lparr>ch_drivers = [\<lparr>drv_id = 1, drv_name = Some ''mn88472'', drv_probe = Some (\<lambda>c s. Some (0, c, s)),
                     drv_remove = None, drv_ids = None\<rparr>,
                    \<lparr>drv_id = 2, drv_name = Some ''tda18250'', drv_probe = Some (\<lambda>c s. Some (0, c, s)),
                     drv_remove = None, drv_ids = None\<rparr>],
      ch_alloc = (\<lambda>s. True), ch_fe_back = (\<lambda>s. Some 0), ch_muxed_adap = (\<lambda>s. None)\<rparr>"

definition bench_burst :: bytes where
  "bench_burst = concat (replicate 2 (0x47 # 0x1f # 0xff # replicate 185 0))"

lemma length_bench_burst [simp]: "length bench_burst = 376"
  by (simp add: bench_burst_def numeral_2_eq_2)

definition bench_env :: "((dib0700_dev, nat) chip_state, nat) engine_env" where
  "bench_env =
     \<lparr>en_host = bench, en_chips = bench_chips,
      en_ops = (\<lambda>f. \<lparr>fo_init = None, fo_sleep = None, fo_tuner_init = None, fo_tuner_sleep = None,
                      fo_set_frontend = Some (\<lambda>c s. Some (0, c, s)),
                      fo_read_status = Some (\<lambda>c s. Some (0, 0x1f, c, s))\<rparr>),
      en_cache = (\<lambda>f. zero_cache), en_evs = (\<lambda>w. []), en_now = (\<lambda>w. (0, 0)),
      en_waits = (\<lambda>w t. [([\<lparr>co_slot = 0, co_status = Xfer_Completed, co_data = bench_burst\<rparr>], 0)])\<rparr>"

lemma bench_tame: "chips_tame bench_env"
  by (auto simp: chips_tame_def bench_env_def bench_chips_def drivers_keep_def tame_op_def tame_read_def)

definition bench_usb :: usbq_dev where
  "bench_usb = \<lparr>ud_handle = 7, ud_vid = 0x045e, ud_pid = 0x02d5, ud_bus = 1, ud_addr = 2, ud_auto_detach = True\<rparr>"

definition bench_dev :: dib0700_dev where
  "bench_dev = \<lparr>db_usb = bench_usb, db_fw_version = 0, db_use_new_i2c = True, db_channel_state = 0,
     db_buf = replicate 256 0\<rparr>"

lemma bench_parse: "parse_vidpid (Some ''045e:02d5'') = Some (0x045e, 0x02d5)"
  using parse_format_vidpid [of "0x045e" "0x02d5"]
  by (simp add: format_vidpid_def hex4_def hex_char_def Let_def char_of_def bit_0)

abbreviation "bench_board \<equiv> hd (dib0700_board_table :: (((dib0700_dev, nat) chip_state), nat) dib0700_board list)"

lemma bench_bring_up:
  "\<exists>d w'. dib0700_bring_up bench fs dir bench_board usb w = (Some d, w')"
  by (simp add: dib0700_bring_up_def dib0700_open_def load_bridge_fw_def dib0700_is_cold_def usbq_control_def
    bench_reply_def Let_def dib0700_get_firmware_version_def dib0700_board_table_def xbox_one_bringup_def dib0700_set_gpio_def
    dib0700_ctrl_wr_def set_buf_def)

text \<open>A stream that waits for no cancellation and whose ring takes the burst.\<close>

definition calm :: "stream \<Rightarrow> bool" where
  "calm st \<longleftrightarrow> pending_cancel st = 0 \<and> ring_wf st \<and> 376 \<le> ring_cap st"

lemma calm_frame [simp]: "calm (st\<lparr>urbs := us\<rparr>) = calm st" "calm (st\<lparr>stopping := b\<rparr>) = calm st"
  by (simp_all add: calm_def ring_wf_def)

lemma calm_pending: "calm st \<Longrightarrow> pending_cancel st = 0"
  by (simp add: calm_def)

lemma calm_flush: "calm st \<Longrightarrow> calm (ring_flush st)"
  using ring_flush_wf [of st] by (simp add: calm_def ring_flush_def)

lemma calm_new: "cfg_ring_capacity cfg = 0 \<Longrightarrow> calm (new_stream cfg ring0 us)"
  by (simp add: calm_def new_stream_def ring_wf_def USBQ_STREAM_DEFAULT_RING_BYTES_def Let_def)

text \<open>A host whose answers carry the bench's return codes, and a transfer when one is allocated.\<close>

definition obliging :: "host \<Rightarrow> bool" where
  "obliging env \<longleftrightarrow>
     (\<forall>w q. r_rc (env (w @ [q])) = r_rc (bench_reply q)) \<and> (\<forall>w. r_handle (env (w @ [Alloc_Transfer])) \<noteq> 0)"

lemma obliging_bench: "obliging bench"
  by (simp add: obliging_def bench_reply_def)

lemma obliging_rc: "obliging env \<Longrightarrow> r_rc (env (w @ [q])) = r_rc (bench_reply q)"
  by (simp add: obliging_def)

lemma obliging_transfer: "obliging env \<Longrightarrow> 0 < r_handle (env (w @ [Alloc, Alloc_Transfer]))"
  unfolding obliging_def by (metis append.assoc append_Cons append_Nil gr0I)

lemma obliging_alloc_urbs:
  assumes "obliging env"
  shows "\<exists>us w'. alloc_urbs env n w = (True, us, w')"
proof (induction n arbitrary: w)
  case (Suc n)
  obtain us w' where "alloc_urbs env n (w @ [Alloc, Alloc_Transfer]) = (True, us, w')" using Suc by blast
  then show ?case
    using obliging_rc [OF assms, of w Alloc] obliging_transfer [OF assms, of w] by (simp add: ask_def bench_reply_def)
qed simp

lemma obliging_submit:
  assumes "obliging env"
  shows "\<exists>w'. submit_urbs env us i w = (None, w')"
  using obliging_rc [OF assms] by (induction us arbitrary: i w) (simp_all add: ask_def bench_reply_def)

lemma obliging_cancel:
  assumes "obliging env"
  shows "\<exists>us' w'. cancel_urbs env us w = (us', 0, w')"
proof (induction us arbitrary: w)
  case (Cons u us)
  obtain us1 w1 where "cancel_urbs env us w = (us1, 0, w1)" using Cons by blast
  moreover obtain us2 w2 where "cancel_urbs env us (w @ [Cancel_Transfer (us_xfer u)]) = (us2, 0, w2)" using Cons by blast
  ultimately show ?case using obliging_rc [OF assms] by (simp add: ask_def bench_reply_def)
qed simp

lemma obliging_cancel_first:
  assumes "obliging env"
  shows "\<exists>us w'. cancel_first env k st w = (st\<lparr>urbs := us\<rparr>, w')"
proof -
  obtain us w' where "cancel_urbs env (take k (urbs st)) w = (us, 0, w')" using obliging_cancel [OF assms] by blast
  then have "cancel_first env k st w = (st\<lparr>urbs := us @ drop k (urbs st)\<rparr>, w')"
    by (simp add: cancel_first_def)
  then show ?thesis by blast
qed

lemma obliging_acquire:
  "obliging env \<Longrightarrow> \<exists>w'. usbq_evt_acquire env g w = (0, fst (snd (usbq_evt_acquire bench g [])), w')"
  using obliging_rc [of env w Thread_Create] by (simp add: usbq_evt_acquire_def ask_def bench_reply_def bench_def Let_def)

lemma obliging_stream_open:
  assumes "obliging env" "cfg_endpoint cfg AND 0x80 \<noteq> 0" "cfg_ring_capacity cfg = 0"
  shows "\<exists>st w'. usbq_stream_open env (Some usb) (Some cfg) evs g w
      = Some (Some st, fst (snd (usbq_evt_acquire bench g [])), w') \<and> calm st \<and> \<not> stopping st"
proof -
  let ?n = "unat (if cfg_pool_depth cfg \<noteq> 0 then cfg_pool_depth cfg else USBQ_STREAM_DEFAULT_POOL_DEPTH)"
  have al: "r_rc (env (w @ [Alloc])) = 1" "r_rc (env (w @ [Alloc, Alloc])) = 1" "r_rc (env (w @ [Alloc, Alloc, Alloc])) = 1"
    using obliging_rc [OF assms(1), of w Alloc] obliging_rc [OF assms(1), of "w @ [Alloc]" Alloc]
      obliging_rc [OF assms(1), of "w @ [Alloc, Alloc]" Alloc] by (simp_all add: bench_reply_def)
  define ring0 where "ring0 = r_data (env (w @ [Alloc, Alloc]))"
  obtain us w1 where a: "alloc_urbs env ?n (w @ [Alloc, Alloc, Alloc]) = (True, us, w1)"
    using obliging_alloc_urbs [OF assms(1)] by blast
  obtain w2 where e: "usbq_evt_acquire env g w1 = (0, fst (snd (usbq_evt_acquire bench g [])), w2)"
    using obliging_acquire [OF assms(1)] by blast
  define st where "st = new_stream cfg ring0 us"
  obtain w3 where s: "submit_urbs env (urbs st) 0 w2 = (None, w3)" using obliging_submit [OF assms(1)] by blast
  have "usbq_stream_open env (Some usb) (Some cfg) evs g w
      = Some (Some st, fst (snd (usbq_evt_acquire bench g [])), w3)"
    using a e s assms(2) al by (simp add: usbq_stream_open_def ask_def stream_launch_def st_def ring0_def Let_def)
  moreover have "calm st" using calm_new [OF assms(3)] by (simp add: st_def)
  moreover have "\<not> stopping st" by (simp add: st_def new_stream_def Let_def)
  ultimately show ?thesis by blast
qed

lemma obliging_stream_close:
  assumes "obliging env" "calm st"
  shows "\<exists>w'. usbq_stream_close env (Some st) [] g w = Some (fst (usbq_evt_release g []), w')"
proof -
  obtain us w1 where c: "cancel_first env (pool_depth st) (st\<lparr>stopping := True\<rparr>) w = (st\<lparr>stopping := True, urbs := us\<rparr>, w1)"
    using obliging_cancel_first [OF assms(1), of "pool_depth st" "st\<lparr>stopping := True\<rparr>" w] by auto
  have "fst (usbq_evt_release g v) = fst (usbq_evt_release g [])" for v
    by (simp add: usbq_evt_release_def Let_def split: prod.split)
  then show ?thesis using c calm_pending [OF assms(2)] by (simp add: usbq_stream_close_def) (metis prod.collapse)
qed

lemmas bench_submit = obliging_submit [OF obliging_bench]
lemmas bench_cancel_first = obliging_cancel_first [OF obliging_bench]
lemmas bench_stream_open = obliging_stream_open [OF obliging_bench]
lemmas bench_stream_close = obliging_stream_close [OF obliging_bench]

lemma bench_stream_restart:
  assumes "calm st" "\<not> stopping st"
  shows "\<exists>st' w'. usbq_stream_restart bench (Some st) [] w = Some (0, Some st', w') \<and> calm st' \<and> \<not> stopping st'"
proof -
  obtain us w1 where c: "cancel_first bench (pool_depth st) st w = (st\<lparr>urbs := us\<rparr>, w1)"
    using bench_cancel_first [of "pool_depth st" st w] by auto
  define st' where "st' = st\<lparr>urbs := map (\<lambda>u. u\<lparr>us_state := 0\<rparr>) us\<rparr>"
  obtain w3 where s: "submit_urbs bench (urbs st') 0 w1 = (None, w3)" using bench_submit by blast
  have "usbq_stream_restart bench (Some st) [] w = Some (0, Some st', w3)"
    using c calm_pending [OF assms(1)] assms(2) s by (simp add: usbq_stream_restart_def st'_def)
  moreover have "calm st'" "\<not> stopping st'" using assms by (simp_all add: st'_def)
  ultimately show ?thesis by blast
qed

lemma bench_attach: "\<exists>d t. xbox_one_attach bench_chips (Some adap) 0 s = Some (0, \<lparr>at_demod = Some d, at_fe = Some 0, at_tuner = Some t\<rparr>, s)"
    by (simp add: xbox_one_attach_def bind_chip_def i2c_new_client_device_def alloc_client_def strscpy_def
        bench_chips_def same_name_def I2C_NAME_SIZE_def i2c_client_has_driver_def
        i2c_unregister_device_def Let_def)

lemma bench_frontend_open:
  "\<exists>fe st s'. engine_frontend_open bench_env bench_board (dib0700_stream_cfg bench_board 0) usb dev adap 0 g s
     = Some (0, fe, fst (snd (usbq_evt_acquire bench g [])), s') \<and> ef_stream fe = Some st \<and>
       calm st \<and> \<not> stopping st \<and> \<not> ef_capture_on fe \<and> ef_fe fe = Some 0 \<and> snd s' = snd s \<and>
       ef_handle fe = Some (publish bench_board usb dev 0)"
proof -
  have b: "b_attach bench_board = xbox_one_attach" by (simp add: dib0700_board_table_def)
  have c: "cfg_endpoint (dib0700_stream_cfg bench_board 0 fd) AND 0x80 \<noteq> 0" for fd
    by (simp add: dib0700_stream_cfg_def per_frontend_def dib0700_board_table_def)
  have cap: "cfg_ring_capacity (dib0700_stream_cfg bench_board 0 fd) = 0" for fd by (simp add: dib0700_stream_cfg_def)
  obtain w where w: "w = wire_of s @ [Pipe] @ [Set_Nonblock 3, Set_Nonblock 4]" by blast
  obtain d t where a: "xbox_one_attach bench_chips (Some adap) 0 (set_wire w s)
      = Some (0, \<lparr>at_demod = Some d, at_fe = Some 0, at_tuner = Some t\<rparr>, set_wire w s)"
    using bench_attach [of adap "set_wire w s"] by blast
  obtain st w' where o: "usbq_stream_open bench (Some usb) (Some (dib0700_stream_cfg bench_board 0 4)) [] g w
      = Some (Some st, fst (snd (usbq_evt_acquire bench g [])), w')" "calm st" "\<not> stopping st"
    using bench_stream_open [OF c cap] by blast
  show ?thesis
    using a o
    by (simp add: engine_frontend_open_def b bench_env_def ask_def bench_reply_def new_frontend_def run_op_def w Let_def)
qed

definition idle_engine :: "('b, nat, 'fe) engine" where
  "idle_engine = \<lparr>en_devices = [], en_inited = False, en_lib = usbq_lib_start, en_chip = 0, en_wire = []\<rparr>"

lemma idle_inv: "engine_inv idle_engine"
  by (simp add: engine_inv_def idle_engine_def spare_def dev_streams_def usbq_lib_start_def)

lemma bench_find: "find_board_by_vidpid dib0700_board_table (Some ''045e:02d5'') = Some bench_board"
  by (simp add: find_board_by_vidpid_def dib0700_board_table_def)

abbreviation "bench_kind fs \<equiv> dib0700_kind bench fs None"

lemma bench_init: "\<exists>g' w'. usbq_init bench g w = (0, g', w')"
  by (simp add: usbq_init_def bench_reply_def Let_def)

abbreviation "bench_handle \<equiv> publish bench_board bench_usb (Dib0700, 0) 0"

lemma bench_open_device:
  assumes "0 < mx" "en_devices W = []" "en_chip W = 0"
  shows "\<exists>fe st b w g. engine_open_device bench_env (bench_kind fs) bench_board ''045e:02d5'' mx W
     = Some (1, [bench_handle], W\<lparr>en_devices := [\<lparr>ed_usb = bench_usb, ed_bridge = b, ed_frontends = [fe]\<rparr>],
             en_lib := g, en_chip := 0, en_wire := w\<rparr>) \<and>
     ef_stream fe = Some st \<and> calm st \<and> \<not> stopping st \<and> \<not> ef_capture_on fe \<and> ef_fe fe = Some 0"
proof -
  obtain g0 w0 where i: "usbq_init bench (en_lib W) (en_wire W) = (0, g0, w0)" using bench_init by blast
  obtain w1 where o: "usbq_open bench (Some ''045e:02d5'') (en_lib W) (en_wire W) = (Some bench_usb, g0, w1)"
    using i by (simp add: usbq_open_def bench_parse usbq_dev_wrap_def bench_reply_def Let_def first_dev_def bench_usb_def)
  obtain w2 where d: "snd (usbq_disconnect_kernel_driver bench (Some bench_usb) w1) = w2" by blast
  obtain w3 where c: "usbq_claim_interface bench (Some bench_usb) 0 w2 = (0, w3)"
    by (simp add: usbq_claim_interface_def bench_reply_def)
  obtain b w4 where up: "dib0700_bring_up bench fs None bench_board bench_usb (w3 @ [Alloc]) = (Some b, w4)"
    using bench_bring_up by blast
  have a: "\<exists>x. dib0700_get_i2c_adapter bench (Some b) = Some x" by (simp add: dib0700_get_i2c_adapter_def)
  then obtain adap where a: "dib0700_get_i2c_adapter bench (Some b) = Some adap" by blast
  obtain fe st s where f: "engine_frontend_open bench_env bench_board (dib0700_stream_cfg bench_board 0) bench_usb
      (Dib0700, 0) (lift_master adap) 0 g0 ((b, w4), 0) = Some (0, fe, fst (snd (usbq_evt_acquire bench g0 [])), s)"
     "ef_stream fe = Some st" "calm st" "\<not> stopping st" "\<not> ef_capture_on fe" "ef_fe fe = Some 0" "snd s = 0"
     "ef_handle fe = Some (publish bench_board bench_usb (Dib0700, 0) 0)"
    using bench_frontend_open [of bench_usb "(Dib0700, 0)" "lift_master adap" g0 "((b, w4), 0)"] by auto
  have n: "b_num_frontends bench_board = 1" by (simp add: dib0700_board_table_def)
  have h: "en_host bench_env = bench" by (simp add: bench_env_def)
  have "engine_open_device bench_env (bench_kind fs) bench_board ''045e:02d5'' mx W
     = Some (1, [bench_handle], W\<lparr>en_devices := [\<lparr>ed_usb = bench_usb, ed_bridge = bridge_of s, ed_frontends = [fe]\<rparr>],
             en_lib := fst (snd (usbq_evt_acquire bench g0 [])), en_chip := 0, en_wire := wire_of s\<rparr>)"
    using o d c up a f(1,7,8) n assms
    by (simp add: kinds engine_open_device_def claim_and_open_def case_prod_unfold engine_open_from_usb_def
        Let_def h bench_reply_def)
  then show ?thesis using f(2-6) by blast
qed

lemma bench_engine_open:
  "\<exists>fe st b w g. engine_open bench_env (bench_kind fs) (Some ''045e:02d5'') True 1 idle_engine
     = Some (1, [bench_handle], \<lparr>en_devices = [\<lparr>ed_usb = bench_usb, ed_bridge = b, ed_frontends = [fe]\<rparr>],
             en_inited = True, en_lib = g, en_chip = 0, en_wire = w\<rparr>) \<and>
     ef_stream fe = Some st \<and> calm st \<and> \<not> stopping st \<and> \<not> ef_capture_on fe \<and> ef_fe fe = Some 0"
proof -
  obtain g w where i: "usbq_init bench usbq_lib_start [] = (0, g, w)" using bench_init by blast
  let ?W = "idle_engine\<lparr>en_inited := True, en_lib := g, en_wire := w\<rparr>"
  have idle: "0 < (1 :: int)" "en_devices ?W = []" "en_chip ?W = 0" by (simp_all add: idle_engine_def)
  obtain fe st b w1 g1 where o: "engine_open_device bench_env (bench_kind fs) bench_board ''045e:02d5'' 1 ?W
     = Some (1, [bench_handle], ?W\<lparr>en_devices := [\<lparr>ed_usb = bench_usb, ed_bridge = b, ed_frontends = [fe]\<rparr>],
             en_lib := g1, en_chip := 0, en_wire := w1\<rparr>)"
     "ef_stream fe = Some st" "calm st" "\<not> stopping st" "\<not> ef_capture_on fe" "ef_fe fe = Some 0"
    using bench_open_device [of 1 ?W fs] idle by blast
  have "ensure_init bench_env idle_engine = (True, ?W)"
    using i by (simp add: ensure_init_def idle_engine_def bench_env_def)
  then show ?thesis
    using o bench_find by (simp add: engine_open_def kinds) (simp add: idle_engine_def)
qed

lemma bench_capture:
  "\<exists>s'. run_capture (dib0700_capture bench) i on s = (0, s') \<and> snd s' = snd s"
  by (auto simp: run_capture_def dib0700_capture_def dib0700_streaming_ctrl_def set_usb_xfer_len_def dib0700_ctrl_wr_def
     usbq_control_def bench_reply_def set_buf_def Let_def split: prod.split if_splits)

lemma bench_tune:
  assumes "ef_stream fe = Some st" "calm st" "\<not> stopping st" "\<not> ef_capture_on fe" "ef_fe fe = Some 0"
  shows "\<exists>fe' st' s'. dib_v_tune bench_env (Some fe) (Some p) s = Some (0, Some fe', s') \<and>
    ef_stream fe' = Some st' \<and> calm st' \<and> \<not> stopping st' \<and> ring_used st' = 0 \<and> ef_fe fe' = Some 0"
proof -
  obtain st1 w1 where r: "usbq_stream_restart bench (Some st) [] (wire_of s) = Some (0, Some st1, w1)" "calm st1" "\<not> stopping st1"
    using bench_stream_restart [OF assms(2,3)] by blast
  obtain s1 where c: "run_capture (dib0700_capture bench) (ef_index fe) True (set_wire w1 s) = (0, s1)"
    using bench_capture [of "ef_index fe" True "set_wire w1 s"] by auto
  have t: "tune_chip bench_env (Some fe) (Some p) s
      = Some (0, Some (fe\<lparr>ef_tune_count := ef_tune_count fe + 1, ef_cache := tune_cache p (ef_cache fe)\<rparr>), s)"
    using assms by (simp add: tune_chip_def bench_env_def Let_def)
  have f: "calm (ring_flush st1)" "\<not> stopping (ring_flush st1)" "ring_used (ring_flush st1) = 0"
    using calm_flush [OF r(2)] r(3) by (simp_all add: ring_flush_def)
  show ?thesis using assms r(1) c t f
    by (simp add: dib_v_tune_def bench_env_def Let_def usbq_stream_flush_def)
qed

lemma bench_get_status:
  assumes "ef_fe fe = Some 0"
  shows "\<exists>st c. engine_get_status bench_env (Some fe) (Some out) s = Some (0, Some st, Some (fe\<lparr>ef_cache := c\<rparr>), s) \<and>
    st_has_lock st"
  using assms by (simp add: engine_get_status_def bench_env_def decode_status_def) (rule exI [of _ "ef_cache fe"], simp)

text \<open>The wait of a read on an empty ring ends with the burst.\<close>

lemma bench_callback:
  assumes "calm st" "\<not> stopping st" "ring_used st = 0"
  shows "\<exists>st' w'. run_callbacks bench [\<lparr>co_slot = 0, co_status = Xfer_Completed, co_data = bench_burst\<rparr>] st w = (st', w') \<and>
    calm st' \<and> ring_list st' = bench_burst"
proof -
  let ?c = "\<lparr>co_slot = 0, co_status = Xfer_Completed, co_data = bench_burst\<rparr>"
  let ?st = "cb_push st ?c"
  have wf: "ring_wf st" "376 \<le> ring_cap st" using assms(1) by (simp_all add: calm_def)
  have "ring_list st = []" using assms(3) by (simp add: ring_list_def)
  then have l: "ring_list ?st = bench_burst"
    using ring_push_list [OF wf(1), of 376 bench_burst] wf(2) by (simp add: cb_push_def)
  have "ring_wf ?st" "ring_cap ?st = ring_cap st"
    using ring_push_wf [OF wf(1), of 376 bench_burst] by (simp_all add: cb_push_def)
  then have "calm ?st" using assms(1) by (simp add: calm_def)
  moreover have "cb_wants_data st ?c" using assms(2) by (simp add: cb_wants_data_def)
  ultimately show ?thesis using l
    by (simp add: stream_xfer_cb_def bench_reply_def Let_def)
qed

lemma bench_read:
  assumes "ef_stream fe = Some st" "calm st" "\<not> stopping st" "ring_used st = 0" "376 \<le> length buf" "0 < t"
  shows "\<exists>buf' st' w'. engine_read_ts bench_env (Some fe) (Some buf) (length buf) t s
     = Some (376, Some buf', Some (fe\<lparr>ef_stream := Some st'\<rparr>), set_wire w' s) \<and>
    take 376 buf' = bench_burst \<and> calm st'"
proof -
  obtain st1 w1 where r: "run_callbacks bench [\<lparr>co_slot = 0, co_status = Xfer_Completed, co_data = bench_burst\<rparr>] st (wire_of s)
      = (st1, w1)" "calm st1" "ring_list st1 = bench_burst"
    using bench_callback [OF assms(2-4)] by blast
  have u: "ring_used st1 = 376" using arg_cong [OF r(3), of length] by simp
  let ?q = "ring_dequeue st1 (length buf)"
  have wf: "ring_wf st1" using r(2) by (simp add: calm_def)
  have out: "fst ?q = bench_burst" using ring_dequeue_out [OF wf] r(3) assms(5) by simp
  have "calm (snd ?q)" using ring_dequeue_wf [OF wf] r(2) by (auto simp: calm_def ring_dequeue_def Let_def)
  moreover have "engine_read_ts bench_env (Some fe) (Some buf) (length buf) t s
     = Some (376, Some (memcpy_at buf 0 (fst ?q) 376), Some (fe\<lparr>ef_stream := Some (snd ?q)\<rparr>), set_wire w1 s)"
    using assms r(1) u
    by (auto simp: engine_read_ts_def bench_env_def usbq_stream_read_def c_int_def Let_def case_prod_unfold)
  moreover have "take 376 (memcpy_at buf 0 (fst ?q) 376) = bench_burst"
    using out by (simp add: memcpy_at_start)
  ultimately show ?thesis by blast
qed

lemma bench_teardown:
  assumes "ef_stream fe = Some st" "calm st" "ef_fe fe = Some 0"
  shows "\<exists>x. engine_frontend_teardown bench_env cap fe g s = Some x"
proof -
  obtain y where c: "usbq_stream_close bench (Some st) [] g v = Some (fst (usbq_evt_release g []), y v)" for v
    using bench_stream_close [OF assms(2), of g] by metis
  show ?thesis using assms c
    by (simp add: engine_frontend_teardown_def bench_env_def Let_def run_sleep_def)
qed

lemma bench_run:
  "\<exists>W. engine_run bench_env (bench_kind fs)
     ([Op_Open (Some ''045e:02d5'') True 1, Op_Tune 0 0 (Some p)] @ [Op_Shutdown]) idle_engine = Some W"
proof -
  obtain fe st b w g where one: "engine_open bench_env (bench_kind fs) (Some ''045e:02d5'') True 1 idle_engine
     = Some (1, [bench_handle], \<lparr>en_devices = [\<lparr>ed_usb = bench_usb, ed_bridge = b, ed_frontends = [fe]\<rparr>],
             en_inited = True, en_lib = g, en_chip = 0, en_wire = w\<rparr>)"
     "ef_stream fe = Some st" "calm st" "\<not> stopping st" "\<not> ef_capture_on fe" "ef_fe fe = Some 0"
    using bench_engine_open [of fs] by blast
  obtain fe' st' s where two: "dib_v_tune bench_env (Some fe) (Some p) ((b, w), 0) = Some (0, Some fe', s)"
    "ef_stream fe' = Some st'" "calm st'" "ef_fe fe' = Some 0"
    using bench_tune [OF one(2-), of p "((b, w), 0)"] by blast
  obtain x where three: "engine_frontend_teardown bench_env (dib0700_capture bench) fe' g ((bridge_of s, wire_of s), snd s) = Some x"
    using bench_teardown [OF two(2-4)] by blast
  show ?thesis
    using one(1) two(1) three
    by (simp add: engine_do_def kinds use_frontend_def engine_shutdown_def case_prod_unfold Let_def)
qed

end
