(* ===== verification/Engine_Theorems.thy ===== *)
theory Engine_Theorems
  imports Engine_Bench
begin

text \<open>
  The three engines as interpretations of the contract \<open>usb_engine\<close>, and what that gives: no engine
  leaks a device handle or a reference on the event thread, and what an open call hands out.
\<close>

subsection \<open>The three engines keep the contract\<close>

text \<open>The shape the tunes share: the chip's \<open>set_frontend\<close>, then work on the stream and the bridge.\<close>

lemma tame_eq:
  "chips_tame E \<Longrightarrow> fo_set_frontend (en_ops E f) = Some g \<Longrightarrow> tame_op (Some g)"
  "chips_tame E \<Longrightarrow> fo_read_status (en_ops E f) = Some h \<Longrightarrow> tame_read (Some h)"
  using chips_tame_ops(5,6) by metis+

lemma tune_chip_keeps:
  assumes t: "chips_tame E" and q: "quiet w0 (wire_of s)"
    and P: "\<And>rc fe' s'. quiet w0 (wire_of s') \<Longrightarrow> same_frontend fe fe' \<Longrightarrow> P (rc, Some fe', s')"
  shows "yields P (tune_chip E (Some fe) p s)"
  using q
  by (auto simp: tune_chip_def Let_def same_frontend_def split: option.split
      intro!: P tame_op_yields [of _ w0] dest: tame_eq [OF t])

lemma get_status_keeps:
  assumes t: "chips_tame E" and q: "quiet w0 (wire_of s)"
    and P: "\<And>rc out' fe' s'. quiet w0 (wire_of s') \<Longrightarrow> same_frontend fe fe' \<Longrightarrow> P (rc, out', Some fe', s')"
  shows "yields P (engine_get_status E (Some fe) out s)"
  using q
  by (auto simp: engine_get_status_def Let_def same_frontend_def split: option.split
      intro!: P tame_read_yields [of _ w0] dest: tame_eq [OF t])

lemma flush_none [simp]: "usbq_stream_flush so = None \<longleftrightarrow> so = None"
  "usbq_stream_flush (Some st) = Some (ring_flush st)" "usbq_stream_flush None = None"
  by (cases so) (simp_all add: usbq_stream_flush_def)

lemma quiet_captures:
  "em28xx_capture env i on b w = (rc, b', w') \<Longrightarrow> quiet w0 w \<Longrightarrow> quiet w0 w'"
  "dib0700_capture env i on d w = (rc, d', w') \<Longrightarrow> quiet w0 w \<Longrightarrow> quiet w0 w'"
  "dvbsky_capture env i on v w = (rc, v', w') \<Longrightarrow> quiet w0 w \<Longrightarrow> quiet w0 w'"
  by (auto simp: em28xx_capture_def dib0700_capture_def dvbsky_capture_def dest: quiet_ops split: prod.splits)

lemma quiet_run_captures:
  "run_capture (em28xx_capture env) i on ((b, w), c) = (rc, (b', w'), c') \<Longrightarrow> quiet w0 w \<Longrightarrow> quiet w0 w'"
  "run_capture (dib0700_capture env) i on ((d, w), c) = (rc, (d', w'), c') \<Longrightarrow> quiet w0 w \<Longrightarrow> quiet w0 w'"
  "run_capture (dvbsky_capture env) i on ((v, w), c) = (rc, (v', w'), c') \<Longrightarrow> quiet w0 w \<Longrightarrow> quiet w0 w'"
  by (auto simp: run_capture_def dest: quiet_captures split: prod.splits)

lemma em28xx_tune_keeps:
  assumes "chips_tame E" "quiet w0 (wire_of s)"
  shows "yields (\<lambda>(rc, so, s'). kept w0 fe so s') (em28xx_v_tune E (Some fe) p s)"
  by (auto simp: em28xx_v_tune_def Let_def same_frontend_def
      intro!: tune_chip_keeps [OF assms] dest: quiet_run_captures(1)
      split: prod.splits if_split_asm)

lemma dvbsky_tune_keeps:
  assumes "chips_tame E" "quiet w0 (wire_of s)"
  shows "yields (\<lambda>(rc, so, s'). kept w0 fe so s') (dvbsky_v_tune E (Some fe) p s)"
  by (auto simp: dvbsky_v_tune_def Let_def same_frontend_def
      intro!: tune_chip_keeps [OF assms] dest: quiet_run_captures(3)
      split: prod.splits if_split_asm)

lemma restart_some: "usbq_stream_restart env (Some st) evs w = Some (rc, so, w') \<Longrightarrow> so \<noteq> None"
  by (auto simp: usbq_stream_restart_def Let_def split: option.splits prod.splits if_splits)

lemma quiet_dib0700_switch:
  "quiet w0 (wire_of s) \<Longrightarrow> quiet w0 (wire_of (snd (run_capture (dib0700_capture env) i on s)))"
  by (cases "run_capture (dib0700_capture env) i on s"; cases s) (auto dest: quiet_run_captures(2))

lemma restart_yields:
  assumes "quiet w0 w" and P: "\<And>rc st' w'. quiet w0 w' \<Longrightarrow> P (rc, Some st', w')"
  shows "yields P (usbq_stream_restart env (Some st) evs w)"
proof (rule yieldsI)
  fix x assume x: "usbq_stream_restart env (Some st) evs w = Some x"
  obtain rc so w' where [simp]: "x = (rc, so, w')" by (cases x)
  show "P x" using quiet_stream_restart [of env "Some st" evs w rc so w' w0] restart_some [of env st evs w rc so w']
    x assms by auto
qed

lemma dib_tune_keeps:
  assumes "chips_tame E" "quiet w0 (wire_of s)"
  shows "yields (\<lambda>(rc, so, s'). kept w0 fe so s') (dib_v_tune E (Some fe) p s)"
  unfolding dib_v_tune_def yields_simps
proof (rule tune_chip_keeps [OF assms], goal_cases)
  case (1 rc fe' s1)
  show ?case
    using 1
    by (cases "ef_stream fe'")
       (auto simp: Let_def case_prod_unfold same_frontend_def quiet_dib0700_switch simp del: split_paired_All
         intro!: restart_yields [of w0])
qed

lemma quiet_dvbsky_resync:
  "quiet w0 (wire_of s) \<Longrightarrow> quiet w0 (wire_of (snd (run_capture (dvbsky_capture env) i on s)))"
  by (cases "run_capture (dvbsky_capture env) i on s"; cases s) (auto dest: quiet_run_captures(3))

lemma dvbsky_status_keeps:
  assumes "chips_tame E" "quiet w0 (wire_of s)"
  shows "yields (\<lambda>(rc, out, so, s'). kept w0 fe so s') (dvbsky_v_get_status E (Some fe) out s)"
  unfolding dvbsky_v_get_status_def yields_simps
  by (rule get_status_keeps [OF assms])
     (auto simp: Let_def same_frontend_def quiet_dvbsky_resync simp del: split_paired_All split: option.split)

lemma em28xx_entry:
  "board \<in> set em28xx_board_table \<Longrightarrow>
     0 < b_num_frontends board \<and> b_attach board \<in> {wintv_dualhd_dvb_attach, wintv_dualhd_atsc_attach}"
  by (auto simp: board_tables)

lemma dib0700_entry:
  "board \<in> set dib0700_board_table \<Longrightarrow> 0 < b_num_frontends board \<and> b_attach board \<in> {xbox_one_attach}"
  by (auto simp: board_tables)

lemma dvbsky_entry:
  "board \<in> set dvbsky_board_table \<Longrightarrow>
     0 < b_num_frontends board \<and> b_attach board \<in> {t230_attach, t230c_attach, t230c2_attach}"
  by (auto simp: board_tables)

lemma quiet_results:
  "quiet w0 w \<Longrightarrow> quiet w0 (snd (em28xx_open env usb w))"
  "quiet w0 w \<Longrightarrow> quiet w0 (snd (snd (em28xx_i2c_set_speed env e sp w)))"
  "quiet w0 w \<Longrightarrow> quiet w0 (snd (em28xx_set_xclk env e x w))"
  "quiet w0 w \<Longrightarrow> quiet w0 (snd (em28xx_gpio_set env e mode sq w))"
  "quiet w0 w \<Longrightarrow> quiet w0 (snd (em28xx_enable_dual_ts_bulk env e w))"
  "quiet w0 w \<Longrightarrow> quiet w0 (snd (dib0700_open env usb w))"
  "quiet w0 w \<Longrightarrow> quiet w0 (snd (dib0700_is_cold env d w))"
  "quiet w0 w \<Longrightarrow> quiet w0 (snd (dib0700_download_firmware env fs d path w))"
  "quiet w0 w \<Longrightarrow> quiet w0 (snd (snd (snd (dib0700_get_firmware_version env d v0 w))))"
  "quiet w0 w \<Longrightarrow> quiet w0 (snd (dvbsky_open env usb w))"
           apply (cases "em28xx_open env usb w", auto dest: quiet_ops)
          apply (cases "em28xx_i2c_set_speed env e sp w", auto dest: quiet_ops)
         apply (cases "em28xx_set_xclk env e x w", auto dest: quiet_ops)
        apply (cases "em28xx_gpio_set env e mode sq w", auto dest: quiet_ops)
       apply (cases "em28xx_enable_dual_ts_bulk env e w", auto dest: quiet_ops)
      apply (cases "dib0700_open env usb w", auto dest: quiet_ops)
     apply (cases "dib0700_is_cold env d w", auto dest: quiet_ops)
    apply (cases "dib0700_download_firmware env fs d path w", auto dest: quiet_ops)
   apply (cases "dib0700_get_firmware_version env d v0 w", auto dest: quiet_ops)
  apply (cases "dvbsky_open env usb w", auto dest: quiet_ops)
  done

lemma quiet_fallback: "quiet w0 w \<Longrightarrow> quiet w0 (snd (fw_fallback env name ds w))"
  by (induction env name ds w rule: fw_fallback.induct) (auto simp: Let_def ask_def)

lemma quiet_load_fw: "quiet w0 w \<Longrightarrow> quiet w0 (snd (load_bridge_fw env fs dir name bo w))"
  by (auto simp: load_bridge_fw_def bridge_fw_path_def Let_def case_prod_unfold quiet_results quiet_fallback
      split: option.splits list.splits)

lemma quiet_bring_ups:
  assumes "quiet w0 w"
  shows "quiet w0 (snd (em28xx_bring_up env eb usb w))"
    "db \<in> set dib0700_board_table \<Longrightarrow> quiet w0 (snd (dib0700_bring_up env fs dir db usb w))"
    "sb \<in> set dvbsky_board_table \<Longrightarrow> quiet w0 (snd (dvbsky_bring_up env sb usb w))"
proof -
  show "quiet w0 (snd (em28xx_bring_up env eb usb w))"
    using assms by (simp add: em28xx_bring_up_def Let_def case_prod_unfold quiet_results)
  have x: "quiet w0 v \<Longrightarrow> quiet w0 (snd (snd (xbox_one_bringup env d v)))"
    "quiet w0 v \<Longrightarrow> quiet w0 (snd (snd (t230_family_bringup env t v)))" for d v t
    unfolding xbox_one_bringup_def t230_family_bringup_def
    using quiet_dib0700_script quiet_dvbsky_script by (metis prod.collapse)+
  show "quiet w0 (snd (dib0700_bring_up env fs dir db usb w))" if "db \<in> set dib0700_board_table"
    using assms that
    by (auto simp: dib0700_bring_up_def dib0700_board_table_def Let_def case_prod_unfold quiet_results
        quiet_load_fw x split: option.split)
  show "quiet w0 (snd (dvbsky_bring_up env sb usb w))" if "sb \<in> set dvbsky_board_table"
  proof -
    have "b_dvbsky_bringup sb = Some t230_family_bringup" using that by (auto simp: board_tables)
    then show ?thesis using assms
      by (auto simp: dvbsky_bring_up_def Let_def case_prod_unfold quiet_results x split: option.split)
  qed
qed

interpretation em28xx: usb_engine "em28xx_kind env" for env
proof
  show "yields (\<lambda>(rc, at, s'). Q s') (b_attach board chips adap i s)"
    if "board \<in> set (ek_table (em28xx_kind env))" "drivers_keep chips Q" "Q s" for board chips Q s adap i
    by (rule attach_functions_keep [OF that(2,3)]) (use em28xx_entry [of board] that(1) in \<open>auto simp: kinds\<close>)
  show "quiet w0 w'" if "ek_bring_up (em28xx_kind env) board usb w = (bo, w')" "quiet w0 w" for board usb w bo w' w0
    using that quiet_bring_ups(1) [OF that(2), of env board usb] by (simp add: kinds)
qed (auto simp: kinds em28xx_entry em28xx_tune_keeps get_status_keeps dest: quiet_captures)

interpretation dib0700: usb_engine "dib0700_kind env fs dir" for env fs dir
proof
  show "yields (\<lambda>(rc, at, s'). Q s') (b_attach board chips adap i s)"
    if "board \<in> set (ek_table (dib0700_kind env fs dir))" "drivers_keep chips Q" "Q s" for board chips Q s adap i
    by (rule attach_functions_keep [OF that(2,3)]) (use dib0700_entry [of board] that(1) in \<open>auto simp: kinds\<close>)
  show "quiet w0 w'" if "board \<in> set (ek_table (dib0700_kind env fs dir))"
    "ek_bring_up (dib0700_kind env fs dir) board usb w = (bo, w')" "quiet w0 w" for board usb w bo w' w0
    using that quiet_bring_ups(2) [OF that(3), of board env fs dir usb] by (simp add: kinds)
qed (auto simp: kinds dib0700_entry dib_tune_keeps get_status_keeps dest: quiet_captures)

interpretation dvbsky: usb_engine "dvbsky_kind env" for env
proof
  show "yields (\<lambda>(rc, at, s'). Q s') (b_attach board chips adap i s)"
    if "board \<in> set (ek_table (dvbsky_kind env))" "drivers_keep chips Q" "Q s" for board chips Q s adap i
    by (rule attach_functions_keep [OF that(2,3)]) (use dvbsky_entry [of board] that(1) in \<open>auto simp: kinds\<close>)
  show "quiet w0 w'" if "board \<in> set (ek_table (dvbsky_kind env))"
    "ek_bring_up (dvbsky_kind env) board usb w = (bo, w')" "quiet w0 w" for board usb w bo w' w0
    using that quiet_bring_ups(3) [OF that(3), of board env usb] by (simp add: kinds)
qed (auto simp: kinds dvbsky_entry dvbsky_tune_keeps dvbsky_status_keeps dest: quiet_captures)

subsection \<open>Nothing is leaked\<close>

text \<open>From \<open>W\<close> to \<open>W'\<close>: every device handle held at the start, and every one opened since, has been
  closed; the references on the event thread are back to those of the other engines.\<close>

definition all_released :: "host \<Rightarrow> ('b, 'c, 'fe) engine \<Rightarrow> ('b, 'c, 'fe) engine \<Rightarrow> bool" where
  "all_released env W W' \<longleftrightarrow>
     held env (en_wire W) (en_wire W') (dev_handles W) {#} \<and> evt_refcount (en_lib W') = spare W \<and>
     en_devices W' = [] \<and> \<not> en_inited W'"

context usb_engine
begin

lemma run_releases:
  assumes t: "chips_tame E" and W: "engine_inv W" and run: "engine_run E K (ops @ [Op_Shutdown]) W = Some W'"
  shows "all_released (en_host E) W W'"
proof -
  obtain W1 where one: "engine_run E K ops W = Some W1" and two: "engine_shutdown E (ek_capture K) W1 = Some W'"
    using run by (auto simp: engine_run_append bind_eq_Some_conv engine_do_def)
  note r = engine_run_spec [OF t W one]
  have "engine_inv W1" using r by simp
  note sh = shutdown_spec [OF t this two]
  have "engine_step (en_host E) {#} W {#} W'" using engine_step_trans r sh by blast
  then show ?thesis using sh by (simp add: all_released_def engine_step_def dev_handles_def spare_def dev_streams_def)
qed

lemma any_open_publishes:
  assumes "chips_tame E" "engine_inv W"
    and "Some r \<in> {engine_open E K v has mx W, engine_open_by_addr E K bus addr has mx W,
                  engine_discover_all E K has mx W}"
  shows "publishes (en_host E) {#} (max 0 mx) W r"
  using assms(3) open_publishes [OF assms(1,2)] open_by_addr_publishes [OF assms(1,2)]
    discover_publishes [OF assms(1,2)]
  by (metis insertE singletonD)

end

text \<open>C3: No engine leaks a USB handle or a reference on the event thread. Take any sequence of calls on an
  engine (opening by id or address, discovery, presence scans, tunes, reads, status polls and capture
  stops on any published frontend, shutdowns), whatever the host answers and whichever of the calls
  fail half-way, and shut the engine down at the end: every device handle that \<open>usbq_open\<close> or
  \<open>usbq_open_by_addr\<close> returned along the way, and every one held before, has been closed exactly
  once, and the event thread's reference count is what the other engines hold. The chip drivers are
  assumed to open and close no USB device themselves.\<close>
theorem engines_release_everything:
  assumes "chips_tame E" "engine_inv W"
    "engine_run E (em28xx_kind (en_host E)) (ops @ [Op_Shutdown]) W = Some W'"
    and "chips_tame D" "engine_inv X"
    "engine_run D (dib0700_kind (en_host D) fs dir) (dops @ [Op_Shutdown]) X = Some X'"
    and "chips_tame S" "engine_inv Y"
    "engine_run S (dvbsky_kind (en_host S)) (sops @ [Op_Shutdown]) Y = Some Y'"
  shows "all_released (en_host E) W W' \<and> all_released (en_host D) X X' \<and> all_released (en_host S) Y Y'"
  using em28xx.run_releases [OF assms(1-3)] dib0700.run_releases [OF assms(4-6)] dvbsky.run_releases [OF assms(7-9)]
  by simp

definition plain_env :: "(('b, nat) chip_state, nat) engine_env" where
  "plain_env =
     \<lparr>en_host = bench, en_chips = \<lparr>ch_drivers = [], ch_alloc = (\<lambda>s. True), ch_fe_back = (\<lambda>s. None),
        ch_muxed_adap = (\<lambda>s. None)\<rparr>,
      en_ops = (\<lambda>f. \<lparr>fo_init = None, fo_sleep = None, fo_tuner_init = None, fo_tuner_sleep = None,
                      fo_set_frontend = None, fo_read_status = None\<rparr>),
      en_cache = (\<lambda>f. zero_cache), en_evs = (\<lambda>w. []), en_now = (\<lambda>w. (0, 0)), en_waits = (\<lambda>w t. [])\<rparr>"

lemma plain_tame: "chips_tame plain_env"
  by (simp add: chips_tame_def plain_env_def drivers_keep_def tame_op_def tame_read_def)

lemma plain_shutdown: "engine_run plain_env K ([] @ [Op_Shutdown]) idle_engine = Some idle_engine"
  by (simp add: engine_do_def engine_shutdown_def idle_engine_def)

definition dvbt2_tune :: dvb_tune_params where
  "dvbt2_tune = \<lparr>tp_delsys = SYS_DVBT2, tp_freq_hz = 506000000, tp_bandwidth_hz = 8000000,
                 tp_symbol_rate = 0, tp_stream_id = 0\<rparr>"

lemma engines_release_everything_witness:
  "\<exists>X'. engine_run bench_env (bench_kind (\<lambda>path. No_File))
        ([Op_Open (Some ''045e:02d5'') True 1, Op_Tune 0 0 (Some dvbt2_tune)] @ [Op_Shutdown]) idle_engine = Some X' \<and>
     all_released bench idle_engine X'"
proof -
  have h: "en_host bench_env = bench" by (simp add: bench_env_def)
  obtain X' where X': "engine_run bench_env (bench_kind (\<lambda>path. No_File))
      ([Op_Open (Some ''045e:02d5'') True 1, Op_Tune 0 0 (Some dvbt2_tune)] @ [Op_Shutdown]) idle_engine = Some X'"
    using bench_run by blast
  show ?thesis
    using engines_release_everything [OF plain_tame idle_inv plain_shutdown bench_tame idle_inv X' [folded h]
        plain_tame idle_inv plain_shutdown] X' h by auto
qed

subsection \<open>What an open call hands out\<close>

text \<open>C8: What opening hands out. Whichever of \<open>open\<close>, \<open>open_by_addr\<close> and \<open>discover_all\<close> is called on an
  engine, and however it ends: the count returned is between 0 and the caller's array size, exactly
  that many handles have been stored, those of the frontends of the devices it added, in the order they
  were opened, each of a frontend with its chip driver and an open stream, and apart from its devices
  the engine holds no USB handle.\<close>
theorem engine_opens_publish:
  assumes "chips_tame E" "engine_inv W"
    "Some r \<in> {dvb_em28xx_open E v has mx W, dvb_em28xx_open_by_addr E bus addr has mx W,
               dvb_em28xx_discover_all E has mx W}"
    and "chips_tame D" "engine_inv X"
    "Some q \<in> {dvb_dib0700_open D fs dir v has mx X, dvb_dib0700_open_by_addr D fs dir bus addr has mx X,
               dvb_dib0700_discover_all D fs dir has mx X}"
    and "chips_tame S" "engine_inv Y"
    "Some p \<in> {dvb_dvbsky_open S v has mx Y, dvb_dvbsky_open_by_addr S bus addr has mx Y,
               dvb_dvbsky_discover_all S has mx Y}"
  shows "publishes (en_host E) {#} (max 0 mx) W r \<and> publishes (en_host D) {#} (max 0 mx) X q \<and>
    publishes (en_host S) {#} (max 0 mx) Y p"
proof -
  note defs = dvb_em28xx_open_def dvb_em28xx_open_by_addr_def dvb_em28xx_discover_all_def
    dvb_dib0700_open_def dvb_dib0700_open_by_addr_def dvb_dib0700_discover_all_def
    dvb_dvbsky_open_def dvb_dvbsky_open_by_addr_def dvb_dvbsky_discover_all_def
  show ?thesis
    using em28xx.any_open_publishes [OF assms(1-3) [unfolded defs]]
      dib0700.any_open_publishes [OF assms(4-6) [unfolded defs]]
      dvbsky.any_open_publishes [OF assms(7-9) [unfolded defs]] by simp
qed

lemma not_elsewhere:
  "find_board_in ''045e:02d5'' em28xx_board_table = None" "find_board_in ''045e:02d5'' dvbsky_board_table = None"
  by (simp_all add: board_tables)

lemma engine_opens_publish_witness:
  "\<exists>q. dvb_dib0700_open bench_env (\<lambda>path. No_File) None (Some ''045e:02d5'') True 1 idle_engine = Some q \<and>
     fst q = 1 \<and> publishes bench {#} 1 idle_engine q"
proof -
  have h: "en_host bench_env = bench" by (simp add: bench_env_def)
  obtain q where q: "engine_open bench_env (bench_kind (\<lambda>path. No_File)) (Some ''045e:02d5'') True 1 idle_engine = Some q"
    "fst q = 1"
    using bench_engine_open [of "\<lambda>path. No_File"] by auto
  have run: "Some q \<in> {dvb_dib0700_open bench_env (\<lambda>path. No_File) None (Some ''045e:02d5'') True 1 idle_engine,
      dvb_dib0700_open_by_addr bench_env (\<lambda>path. No_File) None 0 0 True 1 idle_engine,
      dvb_dib0700_discover_all bench_env (\<lambda>path. No_File) None True 1 idle_engine}"
    using q h by (simp add: dvb_dib0700_open_def)
  have none: "dvb_em28xx_open plain_env (Some ''045e:02d5'') True 1 idle_engine
        = Some (0, [], snd (ensure_init plain_env idle_engine))"
      "dvb_dvbsky_open plain_env (Some ''045e:02d5'') True 1 idle_engine
        = Some (0, [], snd (ensure_init plain_env idle_engine))"
    by (simp_all add: dvb_em28xx_open_def dvb_dvbsky_open_def engine_open_def case_prod_unfold kinds
        find_board_by_vidpid_def Let_def not_elsewhere)
  show ?thesis
    using engine_opens_publish [OF plain_tame idle_inv, of "(0, [], snd (ensure_init plain_env idle_engine))" "Some ''045e:02d5''" True 1 0 0,
       OF _ bench_tame idle_inv run plain_tame idle_inv, of "(0, [], snd (ensure_init plain_env idle_engine))"] none q h
    by (auto simp: dvb_dib0700_open_def)
qed

subsection \<open>Tunes\<close>

definition tuned :: "('s, 'fe) frontend \<Rightarrow> int \<Rightarrow> ('s, 'fe) frontend option \<Rightarrow> bool" where
  "tuned fe rc so \<longleftrightarrow>
     (case so of None \<Rightarrow> False
      | Some fe' \<Rightarrow>
          if rc = 0 then
            ef_capture_on fe' \<and> ef_tune_count fe' = ef_tune_count fe + 1 \<and>
            (case ef_stream fe' of None \<Rightarrow> True | Some st \<Rightarrow> ring_used st = 0)
          else rc < 0 \<and> ef_capture_on fe' = ef_capture_on fe)"

lemma tune_chip_tuned:
  assumes fail: "\<And>rc fe' s'. rc < 0 \<Longrightarrow> ef_capture_on fe' = ef_capture_on fe \<Longrightarrow> P (rc, Some fe', s')"
    and ok: "\<And>rc fe' s'. \<not> rc < 0 \<Longrightarrow> ef_capture_on fe' = ef_capture_on fe \<Longrightarrow>
               ef_tune_count fe' = ef_tune_count fe + 1 \<Longrightarrow> P (rc, Some fe', s')"
  shows "yields P (tune_chip E (Some fe) p s)"
proof (rule yieldsI)
  fix x assume x: "tune_chip E (Some fe) p s = Some x"
  obtain rc so s' where [simp]: "x = (rc, so, s')" by (cases x)
  have "\<exists>fe'. so = Some fe' \<and> ef_capture_on fe' = ef_capture_on fe \<and>
      (\<not> rc < 0 \<longrightarrow> ef_tune_count fe' = ef_tune_count fe + 1)"
    using x by (auto simp: tune_chip_def Let_def bind_eq_Some_conv split: option.splits)
  then show "P x" using fail ok by (cases "rc < 0") auto
qed

lemma flush_empty: "case usbq_stream_flush so of None \<Rightarrow> True | Some st \<Rightarrow> ring_used st = 0"
  by (cases so) (simp_all add: ring_flush_def)

text \<open>C12: A tune that returns 0 has left the frontend streaming from an empty ring: capture is on, whatever the
  ring held of the previous channel is gone, and the tune counter has advanced by one. A tune that
  fails, in the chip or in the capture switch, returns a negative code and leaves the capture state as
  it was. This holds for the tune of each engine, with or without a running stream.\<close>
theorem tune_starts_fresh:
  "yields (\<lambda>(rc, so, s'). tuned fe rc so) (em28xx_v_tune E (Some fe) p s) \<and>
   yields (\<lambda>(rc, so, s'). tuned fd rc so) (dib_v_tune D (Some fd) p t) \<and>
   yields (\<lambda>(rc, so, s'). tuned fk rc so) (dvbsky_v_tune K (Some fk) p u)"
proof (intro conjI)
  show "yields (\<lambda>(rc, so, s'). tuned fe rc so) (em28xx_v_tune E (Some fe) p s)"
    unfolding em28xx_v_tune_def yields_simps
    by (rule tune_chip_tuned) (auto simp: tuned_def Let_def flush_empty split: prod.split)
  show "yields (\<lambda>(rc, so, s'). tuned fd rc so) (dib_v_tune D (Some fd) p t)"
    unfolding dib_v_tune_def yields_simps
    by (rule tune_chip_tuned)
       (auto simp: tuned_def Let_def flush_empty case_prod_unfold intro!: yieldsI split: option.split)
  show "yields (\<lambda>(rc, so, s'). tuned fk rc so) (dvbsky_v_tune K (Some fk) p u)"
    unfolding dvbsky_v_tune_def yields_simps
    by (rule tune_chip_tuned) (auto simp: tuned_def Let_def flush_empty split: prod.split)
qed

subsection \<open>Presence scans\<close>

definition row_of :: "string \<Rightarrow> ('s, 'fe, 'z) board_scheme list \<Rightarrow> dvb_present_board \<Rightarrow> bool" where
  "row_of bridge table row \<longleftrightarrow>
     pb_bridge row = bridge \<and>
     list_ex (\<lambda>b. pb_name row = b_name b \<and> pb_vidpid row \<in> set (b_vidpids b) \<and>
                  pb_num_frontends row = b_num_frontends b) table"

lemma present_row_of:
  "b \<in> set table \<Longrightarrow> v \<in> set (b_vidpids b) \<Longrightarrow> row_of bridge table (present_row bridge b v d)"
  by (auto simp: row_of_def present_row_def list_ex_iff)

lemma enumerate_init: "usbq_enumerate env v mx g w = (n, ds, g', w') \<Longrightarrow> g_init_refcount g \<le> g_init_refcount g'"
  by (auto simp: usbq_enumerate_def Let_def ask_def dest!: usbq_init_count split: if_splits prod.splits)

lemma scan_ids_rows:
  assumes b: "b \<in> set table"
  shows "scan_ids env bridge b mx vs out g w = (out', g', w') \<Longrightarrow> set vs \<subseteq> set (b_vidpids b) \<Longrightarrow>
    int (length out) \<le> mx \<Longrightarrow> list_all (row_of bridge table) out \<Longrightarrow>
    int (length out') \<le> mx \<and> list_all (row_of bridge table) out' \<and> g_init_refcount g \<le> g_init_refcount g'"
proof (induction vs arbitrary: out g w)
  case (Cons v vs)
  obtain n ds g1 w1 where e: "usbq_enumerate env (Some v) 16 g w = (n, ds, g1, w1)"
    by (cases "usbq_enumerate env (Some v) 16 g w")
  show ?case
  proof (cases "int (length out) < mx")
    case True
    let ?out = "out @ take (nat mx - length out) (map (present_row bridge b v) (take (nat n) ds))"
    have rows: "list_all (row_of bridge table) ?out"
      using Cons.prems(2,4) b
      by (auto simp: list_all_iff present_row_of dest!: in_set_takeD)
    have len: "int (length ?out) \<le> mx" using True by auto
    have rest: "scan_ids env bridge b mx vs ?out g1 w1 = (out', g', w')"
      using Cons.prems(1) True e by (simp add: Let_def)
    show ?thesis using Cons.IH [OF rest _ len rows] Cons.prems(2) enumerate_init [OF e] by simp
  qed (use Cons.prems in simp)
qed simp

lemma scan_boards_rows:
  "scan_boards env bridge mx bs out g w = (out', g', w') \<Longrightarrow> set bs \<subseteq> set table \<Longrightarrow>
    int (length out) \<le> mx \<Longrightarrow> list_all (row_of bridge table) out \<Longrightarrow>
    int (length out') \<le> mx \<and> list_all (row_of bridge table) out' \<and> g_init_refcount g \<le> g_init_refcount g'"
proof (induction bs arbitrary: out g w)
  case (Cons b bs)
  obtain o1 g1 w1 where e: "scan_ids env bridge b mx (b_vidpids b) out g w = (o1, g1, w1)"
    by (cases "scan_ids env bridge b mx (b_vidpids b) out g w")
  have "b \<in> set table" using Cons.prems(2) by simp
  note s = scan_ids_rows [OF this e subset_refl Cons.prems(3,4)]
  show ?case using Cons.IH [of o1 g1 w1] Cons.prems s by (auto simp: e split: if_splits)
qed simp

text \<open>A presence scan returns at most as many rows as the caller has room for, each row naming a board of
  the engine's table under one of its ids; it opens no device. It takes a reference on the library
  that nothing gives back: whenever the library initialises, the init count is higher after the scan
  than before.\<close>
theorem scan_present_rows:
  "case engine_scan_present env bridge table has mx g w of
     (out, g', w') \<Rightarrow>
       int (length out) \<le> max 0 mx \<and> list_all (row_of bridge table) out \<and> quiet w w' \<and>
       (if has \<and> 0 < mx \<and> fst (usbq_init env g w) = 0 then g_init_refcount g < g_init_refcount g'
        else g_init_refcount g' = g_init_refcount g)"
proof -
  obtain out g' w' where r: "engine_scan_present env bridge table has mx g w = (out, g', w')"
    by (cases "engine_scan_present env bridge table has mx g w")
  obtain rc g1 w1 where i: "usbq_init env g w = (rc, g1, w1)" by (cases "usbq_init env g w")
  show ?thesis
    using r i usbq_init_count [OF i] quiet_scan_present [OF r]
      scan_boards_rows [of env bridge mx table "[]" g1 w1 out g' w' table]
    by (auto simp: engine_scan_present_def Let_def max_def split: if_splits)
qed

end
