(* ===== verification/Engine_Slots.thy ===== *)
theory Engine_Slots
  imports Engine_Theorems
begin

text \<open>
  Where an engine keeps its frontends: a device has an array of fixed size, filled in the order the
  frontends open, and a handle carries the address of its entry. The contract \<open>usb_slots\<close> adds to
  \<open>usb_engine\<close> what this needs of the board table, the array's size and the stream settings, and is
  interpreted on the three engines.
\<close>

subsection \<open>Entries\<close>

definition slot_of :: "('s, 'fe) frontend \<Rightarrow> int \<times> (bridge_kind \<times> frontend_addr) option" where
  "slot_of fe = (ef_index fe, map_option (\<lambda>h. (fh_ops h, fh_engine_state h)) (ef_handle fe))"

definition slots_filled :: "dev_name \<Rightarrow> ('s, 'fe) frontend list \<Rightarrow> bool" where
  "slots_filled dev fes \<longleftrightarrow>
     map slot_of fes = map (\<lambda>i. (int i, Some (fst dev, snd dev, i))) [0..<length fes]"

fun placed :: "bridge_kind \<Rightarrow> nat \<Rightarrow> ('b, 'c, 'fe) engine_dev list \<Rightarrow> bool" where
  "placed ops room [] = True"
| "placed ops room (d # ds) =
     (length (ed_frontends d) \<le> room \<and> distinct (map ef_endpoint (ed_frontends d)) \<and>
      slots_filled (ops, length ds) (ed_frontends d) \<and> placed ops room ds)"

lemma slots_filled_add:
  "slots_filled dev fes \<Longrightarrow> slot_of fe = (int (length fes), Some (fst dev, snd dev, length fes)) \<Longrightarrow>
     slots_filled dev (fes @ [fe])"
  by (simp add: slots_filled_def)

lemma slots_filled_nth:
  assumes "slots_filled dev fes" "i < length fes"
  shows "ef_index (fes ! i) = int i \<and>
    (\<exists>h. ef_handle (fes ! i) = Some h \<and> fh_ops h = fst dev \<and> fh_engine_state h = (snd dev, i))"
proof -
  have "map slot_of fes ! i = map (\<lambda>i. (int i, Some (fst dev, snd dev, i))) [0..<length fes] ! i"
    using assms(1) by (simp add: slots_filled_def)
  then show ?thesis using assms(2) by (auto simp: slot_of_def)
qed

lemma same_frontend_slot: "same_frontend fe fe' \<Longrightarrow> slot_of fe' = slot_of fe \<and> ef_endpoint fe' = ef_endpoint fe"
  by (simp add: same_frontend_def slot_of_def)

text \<open>What holds of a device list entry by entry.\<close>

lemma placed_nth:
  "placed ops room ds \<Longrightarrow> k < length ds \<Longrightarrow>
     length (ed_frontends (ds ! k)) \<le> room \<and> distinct (map ef_endpoint (ed_frontends (ds ! k))) \<and>
     slots_filled (ops, length ds - Suc k) (ed_frontends (ds ! k))"
proof (induction ds arbitrary: k)
  case (Cons d ds)
  then show ?case by (cases k) simp_all
qed simp

lemma placed_update:
  assumes "map slot_of (ed_frontends d') = map slot_of (ed_frontends (ds ! k))"
    and "map ef_endpoint (ed_frontends d') = map ef_endpoint (ed_frontends (ds ! k))"
  shows "placed ops room ds \<Longrightarrow> placed ops room (ds[k := d'])"
  using assms
proof (induction ds arbitrary: k)
  case (Cons d ds)
  have len: "length (ed_frontends d') = length (ed_frontends ((d # ds) ! k))"
    using arg_cong [OF Cons.prems(2), of length] by simp
  show ?case using Cons len by (cases k) (simp_all add: slots_filled_def)
qed simp

text \<open>Every device has room for its frontends and reads each of them from an endpoint of its own; the
  frontend in entry \<open>i\<close> knows its index, and its handle, of the engine's own vtable, leads to it.\<close>

definition in_place :: "bridge_kind \<Rightarrow> nat \<Rightarrow> ('b, 'c, 'fe) engine \<Rightarrow> bool" where
  "in_place ops room W \<longleftrightarrow>
     (\<forall>k < length (en_devices W). let fes = ed_frontends (en_devices W ! k) in
        length fes \<le> room \<and> distinct (map ef_endpoint fes) \<and>
        (\<forall>i < length fes. ef_index (fes ! i) = int i \<and>
           (\<exists>h. ef_handle (fes ! i) = Some h \<and> fh_ops h = ops \<and>
                dev_frontend W (fh_engine_state h) = Some (k, i))))"

lemma placed_in_place:
  assumes "placed ops room (en_devices W)"
  shows "in_place ops room W"
  unfolding in_place_def Let_def
proof (intro allI impI conjI)
  fix k assume k: "k < length (en_devices W)"
  note n = placed_nth [OF assms k]
  show "length (ed_frontends (en_devices W ! k)) \<le> room" "distinct (map ef_endpoint (ed_frontends (en_devices W ! k)))"
    using n by simp_all
  fix i assume i: "i < length (ed_frontends (en_devices W ! k))"
  note s = slots_filled_nth [OF conjunct2 [OF conjunct2 [OF n]] i]
  show "ef_index (ed_frontends (en_devices W ! k) ! i) = int i" using s by simp
  show "\<exists>h. ef_handle (ed_frontends (en_devices W ! k) ! i) = Some h \<and> fh_ops h = ops \<and>
      dev_frontend W (fh_engine_state h) = Some (k, i)"
    using s k i by (auto simp: dev_frontend_def Let_def)
qed

subsection \<open>Opening\<close>

lemma yields_any: "(\<And>x. P x) \<Longrightarrow> yields P m"
  by (simp add: yields_def)

lemma frontend_open_slot:
  assumes "engine_frontend_open E board scfg usb dev adap fn g s = Some (rc, fe, g', s')"
  shows "ef_endpoint fe = cfg_endpoint (scfg 0) \<and> (\<not> rc < 0 \<longrightarrow> slot_of fe = (fn, Some (fst dev, snd dev, nat fn)))"
proof -
  have "yields (\<lambda>(rc, fe, g', s'). ef_endpoint fe = cfg_endpoint (scfg 0) \<and>
      (\<not> rc < 0 \<longrightarrow> slot_of fe = (fn, Some (fst dev, snd dev, nat fn))))
    (engine_frontend_open E board scfg usb dev adap fn g s)"
    by (auto simp: engine_frontend_open_def ask_def Let_def new_frontend_def slot_of_def publish_def
        intro!: yields_any [where m = "b_attach board c a i t" for c a i t] yields_any [where m = "run_op f c t" for f c t]
          yields_any [where m = "usbq_stream_open e d cfg evs h w" for e d cfg evs h w] split: option.split)
  from yieldsD [OF this assms] show ?thesis by simp
qed

lemma open_frontends_slots:
  "open_frontends E cap board scfg usb dev adap n fes g s = Some (ok, fes', g', s') \<Longrightarrow> ok \<Longrightarrow>
     slots_filled dev fes \<Longrightarrow> map ef_endpoint fes = map (\<lambda>i. cfg_endpoint (scfg (int i) 0)) [0..<length fes] \<Longrightarrow>
     slots_filled dev fes' \<and> length fes' = length fes + n \<and>
     map ef_endpoint fes' = map (\<lambda>i. cfg_endpoint (scfg (int i) 0)) [0..<length fes']"
proof (induction n arbitrary: fes g s)
  case (Suc n)
  obtain rc fe g1 s1 where o: "engine_frontend_open E board (scfg (int (length fes))) usb dev adap (int (length fes)) g s
      = Some (rc, fe, g1, s1)"
    using Suc.prems(1) by (auto simp: bind_eq_Some_conv Let_def)
  have rc: "\<not> rc < 0" using Suc.prems(1,2) o by (auto simp: bind_eq_Some_conv Let_def)
  have rest: "open_frontends E cap board scfg usb dev adap n (fes @ [fe]) g1 s1 = Some (ok, fes', g', s')"
    using Suc.prems(1) o rc by (simp add: Let_def)
  note slot = frontend_open_slot [OF o]
  show ?case
    using Suc.IH [OF rest Suc.prems(2) slots_filled_add [OF Suc.prems(3)]] slot rc Suc.prems(4) by simp
qed simp

subsection \<open>The contract\<close>

locale usb_slots = usb_engine K for K :: "('b, 'c, 'fe, 'z) engine_kind" +
  fixes room :: nat
  assumes fits: "board \<in> set (ek_table K) \<Longrightarrow> nat (b_num_frontends board) \<le> room"
    and endpoints: "board \<in> set (ek_table K) \<Longrightarrow>
          distinct (map (\<lambda>i. cfg_endpoint (ek_stream_cfg K board (int i) 0)) [0..<nat (b_num_frontends board)])"
begin

abbreviation placed_devices :: "('b, 'c, 'fe) engine \<Rightarrow> bool" where
  "placed_devices W \<equiv> placed (ek_ops K) room (en_devices W)"

lemma open_from_usb_placed:
  assumes b: "board \<in> set (ek_table K)" and W: "placed_devices W"
    and run: "engine_open_from_usb E K board usb mx W = Some (n, hs, W')"
  shows "placed_devices W'"
  using b run
proof (cases rule: open_from_usb_cases)
  case (refused w)
  then show ?thesis using W by simp
next
  case (frontends bri xfer w ok fes g s)
  show ?thesis
  proof (cases ok)
    case True
    note slots = open_frontends_slots [OF frontends(3) True]
    have "slots_filled (ek_ops K, length (en_devices W)) fes \<and> length fes = nat (b_num_frontends board) \<and>
        map ef_endpoint fes = map (\<lambda>i. cfg_endpoint (ek_stream_cfg K board (int i) 0)) [0..<length fes]"
      using slots by (simp add: slots_filled_def)
    then show ?thesis using frontends(4) True W fits [OF b] endpoints [OF b] by auto
  next
    case False
    then show ?thesis using frontends(4) W by (auto simp: bind_eq_Some_conv simp del: split_paired_Ex)
  qed
qed

lemma claim_placed:
  "board \<in> set (ek_table K) \<Longrightarrow> placed_devices W \<Longrightarrow> claim_and_open E K board usb mx W = Some (n, hs, W') \<Longrightarrow>
     placed_devices W'"
  by (auto simp: claim_and_open_def Let_def dest: open_from_usb_placed [rotated 2] split: prod.splits if_splits)

lemma open_device_placed:
  "board \<in> set (ek_table K) \<Longrightarrow> placed_devices W \<Longrightarrow> engine_open_device E K board v mx W = Some (n, hs, W') \<Longrightarrow>
     placed_devices W'"
  by (auto simp: engine_open_device_def Let_def dest: claim_placed [rotated 2] split: prod.splits option.splits)

lemma ensure_init_devices: "ensure_init E W = (ok, W') \<Longrightarrow> en_devices W' = en_devices W"
  by (auto simp: ensure_init_def Let_def split: prod.splits if_splits)

lemma discover_ids_placed:
  "board \<in> set (ek_table K) \<Longrightarrow> placed_devices W \<Longrightarrow>
     discover_ids E K board mx vs k hs W = Some (n, hs', W') \<Longrightarrow> placed_devices W'"
proof (induction vs arbitrary: k hs W)
  case (Cons v vs)
  show ?case
  proof (cases "k < mx")
    case True
    then obtain n1 new W1 where o: "engine_open_device E K board v (mx - k) W = Some (n1, new, W1)"
      and rest: "discover_ids E K board mx vs (k + n1) (hs @ new) W1 = Some (n, hs', W')"
      using Cons.prems(3) by (auto simp: bind_eq_Some_conv simp del: split_paired_Ex)
    show ?thesis using Cons.IH [OF Cons.prems(1) open_device_placed [OF Cons.prems(1,2) o] rest] .
  qed (use Cons.prems in simp)
qed simp

lemma discover_boards_placed:
  "set bs \<subseteq> set (ek_table K) \<Longrightarrow> placed_devices W \<Longrightarrow>
     discover_boards E K mx bs k hs W = Some (n, hs', W') \<Longrightarrow> placed_devices W'"
proof (induction bs arbitrary: k hs W)
  case (Cons b bs)
  obtain n1 hs1 W1 where i: "discover_ids E K b mx (b_vidpids b) k hs W = Some (n1, hs1, W1)"
    and rest: "discover_boards E K mx bs n1 hs1 W1 = Some (n, hs', W')"
    using Cons.prems(3) by (auto simp: bind_eq_Some_conv simp del: split_paired_Ex)
  show ?case using Cons.IH [OF _ discover_ids_placed [OF _ Cons.prems(2) i] rest] Cons.prems(1) by simp
qed simp

lemma open_placed:
  "placed_devices W \<Longrightarrow> engine_open E K v has mx W = Some (n, hs, W') \<Longrightarrow> placed_devices W'"
  by (cases "ensure_init E W")
     (auto simp: engine_open_def Let_def ensure_init_devices dest: open_device_placed [OF find_board_mem, rotated 2]
       split: option.splits if_splits)

lemma open_by_addr_placed:
  assumes "placed_devices W" "engine_open_by_addr E K bus addr has mx W = Some (n, hs, W')"
  shows "placed_devices W'"
proof -
  obtain ok W1 where i: "ensure_init E W = (ok, W1)" by fastforce
  obtain d g w where o: "usbq_open_by_addr (en_host E) bus addr (en_lib W1) (en_wire W1) = (d, g, w)"
    by (cases "usbq_open_by_addr (en_host E) bus addr (en_lib W1) (en_wire W1)")
  show ?thesis using assms i o ensure_init_devices [OF i]
    by (auto simp: engine_open_by_addr_def Let_def dest: claim_placed [OF find_board_mem, rotated 2]
        split: option.splits if_splits)
qed

lemma discover_placed:
  "placed_devices W \<Longrightarrow> engine_discover_all E K has mx W = Some (n, hs, W') \<Longrightarrow> placed_devices W'"
  by (cases "ensure_init E W")
     (auto simp: engine_discover_all_def Let_def ensure_init_devices dest: discover_boards_placed [OF subset_refl, rotated]
       split: if_splits)

lemma use_frontend_placed:
  assumes f: "\<And>fe s. yields (\<lambda>(so, s'). \<exists>fe'. so = Some fe' \<and> same_frontend fe fe') (f (Some fe) s)"
    and W: "placed_devices W" and run: "use_frontend k i f W = Some W'"
  shows "placed_devices W'"
proof (cases "k < length (en_devices W) \<and> i < length (ed_frontends (en_devices W ! k))")
  case True
  define d where "d = en_devices W ! k"
  define fe where "fe = ed_frontends d ! i"
  obtain so s where r: "f (Some fe) ((ed_bridge d, en_wire W), en_chip W) = Some (so, s)"
    using run True by (auto simp: use_frontend_def bind_eq_Some_conv d_def fe_def Let_def simp del: split_paired_Ex)
  then obtain fe' where so: "so = Some fe'" and same: "same_frontend fe fe'"
    using yieldsD [OF f [of fe "((ed_bridge d, en_wire W), en_chip W)"] r] by auto
  define d' where "d' = d\<lparr>ed_bridge := bridge_of s, ed_frontends := (ed_frontends d)[i := fe']\<rparr>"
  have W': "en_devices W' = (en_devices W)[k := d']"
    using run True r so by (auto simp: use_frontend_def d_def d'_def fe_def Let_def)
  have "map slot_of (ed_frontends d') = map slot_of (ed_frontends (en_devices W ! k))"
    "map ef_endpoint (ed_frontends d') = map ef_endpoint (ed_frontends (en_devices W ! k))"
    using same_frontend_slot [OF same] by (simp_all add: d'_def d_def fe_def map_update_same)
  then show ?thesis using placed_update [of d' "en_devices W" k] W by (simp add: W')
qed (use run W in \<open>auto simp: use_frontend_def\<close>)

lemma kept_same: "yields (\<lambda>(so, s'). kept w0 fe so s') m \<Longrightarrow> yields (\<lambda>(so, s'). \<exists>fe'. so = Some fe' \<and> same_frontend fe fe') m"
  by (auto elim!: yields_mono)

lemma engine_do_placed:
  assumes t: "chips_tame E" and W: "placed_devices W" and run: "engine_do E K op W = Some W'"
  shows "placed_devices W'"
proof -
  have use: "placed_devices W'" if "use_frontend k i f W = Some W'"
      "\<And>fe s. yields (\<lambda>(so, s'). kept (wire_of s) fe so s') (f (Some fe) s)" for k i f
    by (rule use_frontend_placed [OF kept_same [OF that(2)] W that(1)])
  show ?thesis
  proof (cases op)
    case (Op_Open v has mx)
    then show ?thesis using run open_placed [OF W] by (auto simp: engine_do_def)
  next
    case (Op_Open_By_Addr bus addr has mx)
    then show ?thesis using run open_by_addr_placed [OF W] by (auto simp: engine_do_def)
  next
    case (Op_Discover has mx)
    then show ?thesis using run discover_placed [OF W] by (auto simp: engine_do_def)
  next
    case (Op_Scan has mx)
    then show ?thesis using run W by (auto simp: engine_do_def split: prod.splits)
  next
    case (Op_Tune k i p)
    show ?thesis
      by (rule use [of k i "\<lambda>so s. map_option snd (ek_tune K E so p s)"])
         (use run Op_Tune tune_keeps [OF t quiet_refl] in \<open>auto simp: engine_do_def case_prod_unfold\<close>)
  next
    case (Op_Read_Ts k i buf len to)
    show ?thesis
      by (rule use [of k i "\<lambda>so s. map_option (\<lambda>(rc, buf, so, s). (so, s)) (engine_read_ts E so buf len to s)"])
         (use run Op_Read_Ts read_ts_keeps [OF quiet_refl] in \<open>auto simp: engine_do_def case_prod_unfold\<close>)
  next
    case (Op_Get_Status k i out)
    show ?thesis
      by (rule use [of k i "\<lambda>so s. map_option (\<lambda>(rc, out, so, s). (so, s)) (ek_get_status K E so out s)"])
         (use run Op_Get_Status status_keeps [OF t quiet_refl] in \<open>auto simp: engine_do_def case_prod_unfold\<close>)
  next
    case (Op_Capture_Stop k i)
    show ?thesis
      by (rule use [of k i "\<lambda>so s. Some (snd (engine_capture_stop (ek_capture K) so s))"])
         (use run Op_Capture_Stop capture_stop_keeps [OF quiet_refl] in \<open>simp_all add: engine_do_def case_prod_unfold\<close>)
  next
    case Op_Shutdown
    then show ?thesis using run
      by (auto simp: engine_do_def engine_shutdown_def bind_eq_Some_conv Let_def case_prod_unfold)
  qed
qed

lemma engine_run_placed:
  assumes t: "chips_tame E"
  shows "placed_devices W \<Longrightarrow> engine_run E K ops W = Some W' \<Longrightarrow> placed_devices W'"
proof (induction ops arbitrary: W)
  case (Cons op ops)
  then show ?case using engine_do_placed [OF t] by (auto simp: bind_eq_Some_conv)
qed simp

lemma run_in_place:
  "chips_tame E \<Longrightarrow> en_devices W = [] \<Longrightarrow> engine_run E K ops W = Some W' \<Longrightarrow> in_place (ek_ops K) room W'"
  using engine_run_placed [of E W ops W'] by (intro placed_in_place) simp

end

subsection \<open>The three engines\<close>

lemma em28xx_row:
  "b \<in> set em28xx_board_table \<Longrightarrow> nat (b_num_frontends b) \<le> EM28XX_FRONTENDS \<and>
     distinct (map (\<lambda>i. cfg_endpoint (em28xx_stream_cfg b (int i) 0)) [0..<nat (b_num_frontends b)])"
  by (auto simp: board_tables EM28XX_FRONTENDS_def em28xx_stream_cfg_def per_frontend_def upt_conv_Cons)

lemma dib0700_row:
  "b \<in> set dib0700_board_table \<Longrightarrow> nat (b_num_frontends b) \<le> DIB0700_FRONTENDS \<and>
     distinct (map (\<lambda>i. cfg_endpoint (dib0700_stream_cfg b (int i) 0)) [0..<nat (b_num_frontends b)])"
  by (auto simp: board_tables DIB0700_FRONTENDS_def)

lemma dvbsky_row:
  "b \<in> set dvbsky_board_table \<Longrightarrow> nat (b_num_frontends b) \<le> DVBSKY_FRONTENDS \<and>
     distinct (map (\<lambda>i. cfg_endpoint (dvbsky_stream_cfg b (int i) 0)) [0..<nat (b_num_frontends b)])"
  by (auto simp: board_tables DVBSKY_FRONTENDS_def)

interpretation em28xx_slots: usb_slots "em28xx_kind env" EM28XX_FRONTENDS for env
  by unfold_locales (use em28xx_row in \<open>auto simp: kinds\<close>)

interpretation dib0700_slots: usb_slots "dib0700_kind env fs dir" DIB0700_FRONTENDS for env fs dir
  by unfold_locales (use dib0700_row in \<open>auto simp: kinds\<close>)

interpretation dvbsky_slots: usb_slots "dvbsky_kind env" DVBSKY_FRONTENDS for env
  by unfold_locales (use dvbsky_row in \<open>auto simp: kinds\<close>)

text \<open>C33: Frontends stay where their handles point, inside their device's array. Take any sequence of calls on
  an engine that starts with no device (opens by id or address, discovery, scans, tunes, reads, status
  polls, capture stops, shutdowns), whatever the host answers. Afterwards every device the engine has
  holds at most as many frontends as its \<open>frontends\<close> array has entries (\<open>EM28XX_FRONTENDS\<close>,
  \<open>DIB0700_FRONTENDS\<close>, \<open>DVBSKY_FRONTENDS\<close>; only the em28xx engine checks this when it opens a board,
  the other two rely on their tables), no two frontends of a device read from the same endpoint, and
  the frontend in entry \<open>i\<close> has index \<open>i\<close> and a handle of that engine's vtable whose \<open>engine_state\<close> is
  the address of exactly this entry of exactly this device, however many were opened after it.\<close>
theorem frontends_stay_in_place:
  assumes "chips_tame E" "en_devices W = []" "engine_run E (em28xx_kind (en_host E)) ops W = Some W'"
    and "chips_tame D" "en_devices X = []" "engine_run D (dib0700_kind (en_host D) fs dir) dops X = Some X'"
    and "chips_tame S" "en_devices Y = []" "engine_run S (dvbsky_kind (en_host S)) sops Y = Some Y'"
  shows "in_place Em28xx EM28XX_FRONTENDS W' \<and> in_place Dib0700 DIB0700_FRONTENDS X' \<and>
    in_place Dvbsky DVBSKY_FRONTENDS Y'"
  using em28xx_slots.run_in_place [OF assms(1-3)] dib0700_slots.run_in_place [OF assms(4-6)]
    dvbsky_slots.run_in_place [OF assms(7-9)] by (simp add: kinds)

lemma frontends_stay_in_place_witness:
  "\<exists>X'. engine_run bench_env (bench_kind (\<lambda>path. No_File)) [Op_Open (Some ''045e:02d5'') True 1] idle_engine = Some X' \<and>
     length (en_devices X') = 1 \<and> in_place Dib0700 2 X'"
proof -
  have h: "en_host bench_env = bench" by (simp add: bench_env_def)
  have idle: "en_devices idle_engine = []" by (simp add: idle_engine_def)
  obtain X' where X': "engine_run bench_env (bench_kind (\<lambda>path. No_File)) [Op_Open (Some ''045e:02d5'') True 1] idle_engine
      = Some X'" "length (en_devices X') = 1"
    using bench_engine_open [of "\<lambda>path. No_File"] by (auto simp: engine_do_def)
  show ?thesis
    using frontends_stay_in_place [OF plain_tame idle plain_shutdown bench_tame idle X'(1) [folded h]
        plain_tame idle plain_shutdown] X' h by (auto simp: DIB0700_FRONTENDS_def)
qed

end
