(* ===== verification/Engine_Failure.thy ===== *)
theory Engine_Failure
  imports Engine_Bench
begin

text \<open>
  A dual-tuner board whose second frontend fails to open: one concrete world for the em28xx engine, in
  which the chip drivers record what is done to their chips. The host answers as the one of
  \<open>Engine_Bench\<close>, but has a WinTV-dualHD on it.
\<close>

subsection \<open>The world\<close>

definition dual :: host where
  "dual w = (bench w)\<lparr>r_data := [113],
     r_devs := [\<lparr>di_vid = 0x2040, di_pid = 0x0265, di_bus = 1, di_addr = 2, di_desc_rc = 0\<rparr>], r_handle := 7\<rparr>"

text \<open>What is done to a chip: its driver binds or unbinds at an address, a demodulator is put to sleep.\<close>

datatype chip_event = Bound u16 | Unbound u16 | Slept nat

type_synonym dual_state = "(em28xx_dev, chip_event list) chip_state"

definition log_event :: "chip_event \<Rightarrow> dual_state \<Rightarrow> dual_state" where
  "log_event e s = (fst s, snd s @ [e])"

definition logging_driver :: "nat \<Rightarrow> string \<Rightarrow> (dual_state, nat chip_config) i2c_driver" where
  "logging_driver k name =
     \<lparr>drv_id = k, drv_name = Some name, drv_probe = Some (\<lambda>c s. Some (0, c, log_event (Bound (cl_addr c)) s)),
      drv_remove = Some (\<lambda>c s. log_event (Unbound (cl_addr c)) s), drv_ids = None\<rparr>"

text \<open>The frontend a demodulator's probe leaves is 0 for the first and 1 for the second.\<close>

definition dual_chips :: "(dual_state, nat) chips" where
  "dual_chips =
     \<lparr>ch_drivers = [logging_driver 1 ''si2168'', logging_driver 2 ''si2157''], ch_alloc = (\<lambda>s. True),
      ch_fe_back = (\<lambda>s. Some (length (snd s) div 2)),
      ch_muxed_adap = (\<lambda>s. Some (\<lambda>msgs s. Some (int (length msgs), msgs, s)))\<rparr>"

text \<open>The second demodulator does not initialise.\<close>

definition dual_env :: "(dual_state, nat) engine_env" where
  "dual_env =
     \<lparr>en_host = dual, en_chips = dual_chips,
      en_ops = (\<lambda>f. \<lparr>fo_init = Some (\<lambda>c s. Some (if f = 0 then 0 else - EIO, c, s)),
                      fo_sleep = Some (\<lambda>c s. Some (0, c, log_event (Slept f) s)),
                      fo_tuner_init = None, fo_tuner_sleep = None, fo_set_frontend = None, fo_read_status = None\<rparr>),
      en_cache = (\<lambda>f. zero_cache), en_evs = (\<lambda>w. []), en_now = (\<lambda>w. (0, 0)), en_waits = (\<lambda>w t. [])\<rparr>"

definition dual_idle :: "(em28xx_dev, chip_event list, nat) engine" where
  "dual_idle = \<lparr>en_devices = [], en_inited = False, en_lib = usbq_lib_start, en_chip = [], en_wire = []\<rparr>"

abbreviation dual_board :: "(dual_state, nat) em28xx_board" where
  "dual_board \<equiv> hd em28xx_board_table"

abbreviation dual_usb :: usbq_dev where
  "dual_usb \<equiv> \<lparr>ud_handle = 7, ud_vid = 0x2040, ud_pid = 0x0265, ud_bus = 1, ud_addr = 2, ud_auto_detach = True\<rparr>"

lemma dual_last [simp]: "dual (w @ [q]) = (bench_reply q)\<lparr>r_data := [113],
     r_devs := [\<lparr>di_vid = 0x2040, di_pid = 0x0265, di_bus = 1, di_addr = 2, di_desc_rc = 0\<rparr>], r_handle := 7\<rparr>"
  by (simp add: dual_def)

lemma ask_dual [simp]: "ask dual q w = ((bench_reply q)\<lparr>r_data := [113],
     r_devs := [\<lparr>di_vid = 0x2040, di_pid = 0x0265, di_bus = 1, di_addr = 2, di_desc_rc = 0\<rparr>], r_handle := 7\<rparr>, w @ [q])"
  by (simp add: ask_def)

lemma obliging_dual: "obliging dual"
  by (simp add: obliging_def)

subsection \<open>Bringing the bridge up\<close>

lemma dual_write: "\<exists>w'. em28xx_write_reg dual (Some d) rg v w = (0, w')"
  by (simp add: em28xx_write_reg_def em28xx_write_regs_def em28xx_write_regs_req_def EM28XX_URB_MAX_CTRL_SIZE_def
      usbq_control_def bench_reply_def Let_def)

lemma dual_read: "\<exists>w'. em28xx_read_reg dual (Some d) rg w = (113, w')"
  by (simp add: em28xx_read_reg_def em28xx_read_reg_len_def em28xx_read_reg_req_len_def EM28XX_URB_MAX_CTRL_SIZE_def
      usbq_control_def bench_reply_def fill_buffer_def bit_0 Let_def)

lemma dual_write_bits: "\<exists>w'. em28xx_write_reg_bits dual (Some d) rg v m w = (0, w')"
proof -
  obtain w1 where "em28xx_read_reg dual (Some d) rg w = (113, w1)" using dual_read by blast
  then show ?thesis
    using dual_write [of d rg "(113 AND NOT m) OR (v AND m)" w1]
    by (simp add: em28xx_write_reg_bits_def em28xx_write_reg_def)
qed

lemma dual_walk: "\<exists>w'. em28xx_gpio_walk dual (Some d) sq w = (0, w')"
proof (induction sq arbitrary: w)
  case (Cons q sq)
  obtain w1 where "em28xx_write_reg_bits dual (Some d) (word_of_int (rs_reg q)) (word_of_int (rs_val q))
      (word_of_int (rs_mask q)) w = (0, w1)"
    using dual_write_bits by blast
  then show ?case using Cons by simp
qed simp

lemma dual_bring_up: "\<exists>d w'. em28xx_bring_up dual dual_board usb w = (Some d, w')"
proof -
  define d where "d = \<lparr>em_usb = usb, em_chip_id = 113, em_i2c_speed = 0, em_cur_i2c_bus = -1\<rparr>"
  obtain w1 where o: "em28xx_open dual (Some usb) w = (Some d, w1)"
    using dual_read [of "\<lparr>em_usb = usb, em_chip_id = 0, em_i2c_speed = 0, em_cur_i2c_bus = -1\<rparr>" "0x0a" "w @ [Alloc]"]
    by (auto simp: em28xx_open_def bench_reply_def d_def)
  obtain d1 w2 where sp: "em28xx_i2c_set_speed dual (Some d) (b_i2c_speed dual_board) w1 = (0, Some d1, w2)"
    "em_chip_id d1 = 113"
    using dual_write [of d "0x06" "b_i2c_speed dual_board" w1] by (auto simp: em28xx_i2c_set_speed_def d_def)
  obtain w3 where x: "em28xx_set_xclk dual (Some d1) (b_xclk dual_board) w2 = (0, w3)"
    using dual_write [of d1 "0x0f" "b_xclk dual_board" w2] by (auto simp: em28xx_set_xclk_def)
  obtain w4 where a: "em28xx_write_reg dual (Some d1) 0x48 0x00 w3 = (0, w4)" using dual_write by blast
  obtain w5 where b: "em28xx_write_reg dual (Some d1) 0x12 0x37 w4 = (0, w5)" using dual_write by blast
  obtain w6 where g: "em28xx_gpio_set dual (Some d1) EM28XX_MODE_DIGITAL (Some (b_gpio_seq dual_board)) w3 = (0, w6)"
    using a b dual_walk [of d1 "b_gpio_seq dual_board" "msleep 10 w5"] by (auto simp: em28xx_gpio_set_def)
  obtain w7 where c: "em28xx_write_reg dual (Some d1) 0x0b 0x96 w6 = (0, w7)" using dual_write by blast
  obtain w8 where e: "em28xx_write_reg dual (Some d1) 0x0b 0x80 (msleep 100 w7) = (0, w8)" using dual_write by blast
  have "em28xx_enable_dual_ts_bulk dual (Some d1) w6 = (0, msleep 100 w8)"
    using c e sp(2) by (simp add: em28xx_enable_dual_ts_bulk_def em28xx_chip_id_def em2874_family_def)
  moreover have "b_num_frontends dual_board = 2" by (simp add: em28xx_board_table_def)
  ultimately show ?thesis
    using o sp x g by (simp add: em28xx_bring_up_def em28xx_chip_id_def d_def)
qed

subsection \<open>Opening the frontends\<close>

lemma dual_stream_cfg:
  assumes "fn \<in> {0, 1}"
  shows "cfg_endpoint (em28xx_stream_cfg dual_board fn fd) AND 0x80 \<noteq> 0"
    "cfg_ring_capacity (em28xx_stream_cfg dual_board fn fd) = 0"
  using assms by (auto simp: em28xx_stream_cfg_def per_frontend_def em28xx_board_table_def)

text \<open>A client that one of the two drivers is bound to.\<close>

definition bound_to :: "u16 \<Rightarrow> (dual_state, nat) client option \<Rightarrow> bool" where
  "bound_to addr c \<longleftrightarrow> (\<exists>x. c = Some x \<and> cl_addr x = addr \<and> cl_driver x \<in> {Some 1, Some 2})"

lemma dual_unregister:
  "bound_to addr c \<Longrightarrow> i2c_unregister_device (ch_drivers dual_chips) (map_option Inr c) s = log_event (Unbound addr) s"
  by (auto simp: bound_to_def i2c_unregister_device_def dual_chips_def logging_driver_def)

lemma dual_bind:
  assumes "name \<in> {''si2168'', ''si2157''}"
  shows "\<exists>c. bind_chip dual_chips (Some adap) name addr cfg s = Some (Some c, log_event (Bound addr) s) \<and> bound_to addr (Some c)"
  using assms
  by (auto simp: bind_chip_def i2c_new_client_device_def alloc_client_def strscpy_def dual_chips_def logging_driver_def
      same_name_def I2C_NAME_SIZE_def i2c_client_has_driver_def bound_to_def)

lemma dual_attach:
  assumes "fn \<in> {0, 1}"
  shows "\<exists>d t. wintv_dualhd_dvb_attach dual_chips (Some adap) fn s
      = Some (0, \<lparr>at_demod = d, at_fe = Some (Suc (length (snd s)) div 2), at_tuner = t\<rparr>,
          log_event (Bound (if fn = 0 then 0x60 else 0x63)) (log_event (Bound (if fn = 0 then 0x64 else 0x67)) s)) \<and>
    bound_to (if fn = 0 then 0x64 else 0x67) d \<and> bound_to (if fn = 0 then 0x60 else 0x63) t"
proof -
  let ?da = "if fn = 0 then 0x64 else 0x67 :: u16" and ?ta = "if fn = 0 then 0x60 else 0x63 :: u16"
  let ?s = "log_event (Bound ?da) s" and ?mux = "\<lambda>msgs s. Some (int (length msgs), msgs, s :: dual_state)"
  let ?cfg = "Si2168 \<lparr>si_ts_mode = SI2168_TS_SERIAL, si_ts_clk_manual = False, si_ts_clock_inv = False,
               si_ts_clock_gapped = False, si_spectral_inversion = True\<rparr>"
  obtain d where d: "bind_chip dual_chips (Some adap) ''si2168'' ?da ?cfg s = Some (Some d, ?s)" "bound_to ?da (Some d)"
    using dual_bind [of "''si2168''" adap ?da ?cfg s] by auto
  have fb: "ch_fe_back dual_chips ?s = Some (Suc (length (snd s)) div 2)" "ch_muxed_adap dual_chips ?s = Some ?mux"
    by (simp_all add: dual_chips_def log_event_def)
  let ?tcfg = "Si2157 \<lparr>sit_fe = Suc (length (snd s)) div 2, sit_inversion = False, sit_dont_load_firmware = True, sit_if_port = 1\<rparr>"
  obtain t where t: "bind_chip dual_chips (Some ?mux) ''si2157'' ?ta ?tcfg ?s = Some (Some t, log_event (Bound ?ta) ?s)"
    "bound_to ?ta (Some t)"
    using dual_bind [of "''si2157''" ?mux ?ta ?tcfg ?s] by auto
  show ?thesis using assms d t fb by (auto simp: wintv_dualhd_dvb_attach_def dualhd_attach_def Let_def)
qed

text \<open>The first frontend, opened or torn down once: it keeps its chip, its clients and the mark that the
  demodulator was initialised.\<close>

definition first_tuner :: "(dual_state, nat) frontend \<Rightarrow> bool" where
  "first_tuner fe \<longleftrightarrow>
     \<not> ef_capture_on fe \<and> ef_fe fe = Some 0 \<and> ef_demod_init_done fe \<and> \<not> ef_tuner_init_done fe \<and>
     bound_to 0x64 (ef_demod_client fe) \<and> bound_to 0x60 (ef_tuner_client fe) \<and>
     (\<forall>st. ef_stream fe = Some st \<longrightarrow> calm st)"

lemma dual_attach_board: "b_attach dual_board = wintv_dualhd_dvb_attach"
  by (simp add: em28xx_board_table_def)

lemma dual_open_first:
  assumes "snd s = []"
  shows "\<exists>fe g' s'. engine_frontend_open dual_env dual_board (em28xx_stream_cfg dual_board 0) usb dev adap 0 g s
      = Some (0, fe, g', s') \<and> first_tuner fe \<and> snd s' = [Bound 0x64, Bound 0x60]"
proof -
  obtain w where w: "w = wire_of s @ [Pipe] @ [Set_Nonblock 3, Set_Nonblock 4]" by blast
  let ?s = "log_event (Bound 0x60) (log_event (Bound 0x64) (set_wire w s))"
  obtain d t where a: "wintv_dualhd_dvb_attach dual_chips (Some adap) 0 (set_wire w s)
      = Some (0, \<lparr>at_demod = d, at_fe = Some 0, at_tuner = t\<rparr>, ?s)" "bound_to 0x64 d" "bound_to 0x60 t"
    using dual_attach [of 0 adap "set_wire w s"] assms by auto
  have ep: "cfg_endpoint (em28xx_stream_cfg dual_board 0 4) AND 0x80 \<noteq> 0"
    "cfg_ring_capacity (em28xx_stream_cfg dual_board 0 4) = 0"
    by (simp_all add: dual_stream_cfg)
  obtain st w' where o: "usbq_stream_open dual (Some usb) (Some (em28xx_stream_cfg dual_board 0 4)) [] g (wire_of ?s)
      = Some (Some st, fst (snd (usbq_evt_acquire bench g [])), w')" "calm st"
    using obliging_stream_open [OF obliging_dual ep] by blast
  show ?thesis
    using a o assms
    by (simp add: engine_frontend_open_def dual_attach_board dual_env_def bench_reply_def new_frontend_def run_op_def
        w Let_def first_tuner_def log_event_def)
qed

lemma dual_open_second:
  assumes "snd s = [Bound 0x64, Bound 0x60]"
  shows "\<exists>fe s'. engine_frontend_open dual_env dual_board (em28xx_stream_cfg dual_board 1) usb dev adap 1 g s
      = Some (- EIO, fe, g, s') \<and> snd s' = [Bound 0x64, Bound 0x60, Bound 0x67, Bound 0x63]"
proof -
  obtain w where w: "w = wire_of s @ [Pipe] @ [Set_Nonblock 3, Set_Nonblock 4]" by blast
  let ?s = "log_event (Bound 0x63) (log_event (Bound 0x67) (set_wire w s))"
  obtain d t where a: "wintv_dualhd_dvb_attach dual_chips (Some adap) 1 (set_wire w s)
      = Some (0, \<lparr>at_demod = d, at_fe = Some 1, at_tuner = t\<rparr>, ?s)"
    using dual_attach [of 1 adap "set_wire w s"] assms by auto
  show ?thesis
    using a assms
    by (simp add: engine_frontend_open_def dual_attach_board dual_env_def bench_reply_def new_frontend_def run_op_def
        w Let_def log_event_def)
qed

subsection \<open>Tearing down\<close>

lemma dual_close:
  assumes "first_tuner fe"
  shows "\<exists>g' w'. usbq_stream_close dual (ef_stream fe) [] g w = Some (g', w')"
proof (cases "ef_stream fe")
  case None
  then show ?thesis by (simp add: usbq_stream_close_def)
next
  case (Some st)
  then have "calm st" using assms by (simp add: first_tuner_def)
  from obliging_stream_close [OF obliging_dual this, of g w] show ?thesis unfolding Some by blast
qed

lemma dual_teardown:
  assumes "first_tuner fe"
  shows "\<exists>fe' g' s'. engine_frontend_teardown dual_env cap fe g s = Some (fe', g', s') \<and> first_tuner fe' \<and>
    snd s' = snd s @ [Slept 0, Unbound 0x60, Unbound 0x64]"
proof -
  obtain g1 w1 where c: "usbq_stream_close dual (ef_stream fe) [] g (wire_of s) = Some (g1, w1)"
    using dual_close [OF assms] by blast
  have f: "ef_fe fe = Some 0" "ef_demod_init_done fe" "\<not> ef_tuner_init_done fe" "\<not> ef_capture_on fe"
    "bound_to 0x64 (ef_demod_client fe)" "bound_to 0x60 (ef_tuner_client fe)"
    using assms by (simp_all add: first_tuner_def)
  show ?thesis
    using c f
    by (simp add: engine_frontend_teardown_def dual_env_def Let_def run_sleep_def dual_unregister first_tuner_def)
       (simp add: log_event_def)
qed

lemma dual_frontends:
  assumes "snd s = []"
  shows "\<exists>fe g' s'. open_frontends dual_env cap dual_board (em28xx_stream_cfg dual_board) usb dev adap 2 [] g s
      = Some (False, [fe], g', s') \<and> first_tuner fe \<and>
    snd s' = [Bound 0x64, Bound 0x60, Bound 0x67, Bound 0x63, Slept 0, Unbound 0x60, Unbound 0x64]"
proof -
  obtain fe g1 s1 where one: "engine_frontend_open dual_env dual_board (em28xx_stream_cfg dual_board 0) usb dev adap 0 g s
      = Some (0, fe, g1, s1)" "first_tuner fe" "snd s1 = [Bound 0x64, Bound 0x60]"
    using dual_open_first [OF assms] by blast
  obtain fe2 s2 where two: "engine_frontend_open dual_env dual_board (em28xx_stream_cfg dual_board 1) usb dev adap 1 g1 s1
      = Some (- EIO, fe2, g1, s2)" "snd s2 = [Bound 0x64, Bound 0x60, Bound 0x67, Bound 0x63]"
    using dual_open_second [OF one(3)] by blast
  obtain fe3 g3 s3 where td: "engine_frontend_teardown dual_env cap fe g1 s2 = Some (fe3, g3, s3)" "first_tuner fe3"
    "snd s3 = snd s2 @ [Slept 0, Unbound 0x60, Unbound 0x64]"
    using dual_teardown [OF one(2)] by blast
  show ?thesis using one(1) two td by (simp add: numeral_2_eq_2)
qed

lemma dual_open_from_usb:
  assumes "en_devices W = []" "en_chip W = []"
  shows "\<exists>g w. engine_open_from_usb dual_env (em28xx_kind dual) dual_board usb 2 W
    = Some (0, [], W\<lparr>en_lib := g, en_chip := [Bound 0x64, Bound 0x60, Bound 0x67, Bound 0x63, Slept 0, Unbound 0x60, Unbound 0x64,
                    Slept 0, Unbound 0x60, Unbound 0x64], en_wire := w\<rparr>)"
proof -
  obtain d w1 where up: "em28xx_bring_up dual dual_board usb (en_wire W @ [Alloc]) = (Some d, w1)"
    using dual_bring_up by blast
  let ?a = "lift_master (em28xx_kpi_master_xfer dual 1)"
  have none: "snd ((d, w1), []) = []" by simp
  obtain fe g1 s1 where f: "open_frontends dual_env (em28xx_capture dual) dual_board (em28xx_stream_cfg dual_board) usb
      (Em28xx, 0) ?a 2 [] (en_lib W) ((d, w1), []) = Some (False, [fe], g1, s1)" "first_tuner fe"
    "snd s1 = [Bound 0x64, Bound 0x60, Bound 0x67, Bound 0x63, Slept 0, Unbound 0x60, Unbound 0x64]"
    using dual_frontends [OF none] by blast
  obtain fe2 g2 s2 where td: "engine_frontend_teardown dual_env (em28xx_capture dual) fe g1 s1 = Some (fe2, g2, s2)"
    "snd s2 = snd s1 @ [Slept 0, Unbound 0x60, Unbound 0x64]"
    using dual_teardown [OF f(2)] by blast
  have n: "b_num_frontends dual_board = 2" by (simp add: em28xx_board_table_def)
  have h: "en_host dual_env = dual" by (simp add: dual_env_def)
  show ?thesis
    using up f(1,3) td assms n
    by (simp add: engine_open_from_usb_def h em28xx_kind_def EM28XX_FRONTENDS_def bench_reply_def
        em28xx_get_i2c_adapter_def Let_def) blast
qed

lemma dual_init: "\<exists>g' w'. usbq_init dual g w = (0, g', w')"
  by (simp add: usbq_init_def bench_reply_def Let_def)

lemma dual_parse: "parse_vidpid (Some ''2040:0265'') = Some (0x2040, 0x0265)"
  using parse_format_vidpid [of "0x2040" "0x0265"]
  by (simp add: format_vidpid_def hex4_def hex_char_def Let_def char_of_def bit_0)

text \<open>C37: When the second frontend of a dual-tuner board fails to open, the first is torn down twice and the
  failing one not at all. The run is \<open>dvb_em28xx_open\<close> on a plugged-in WinTV-dualHD whose bridge, chips
  and first stream come up, but whose second demodulator does not initialise. The call returns 0 with
  no handle stored, and the chip drivers have seen this, in order: all four chips bound, the frontend
  loop's teardown of the first frontend (its demodulator put to sleep, tuner and demodulator unbound),
  then the same three calls again from the \<open>fail\<close> label, on clients that are already gone. The second
  frontend's chips, at 0x67 and 0x63, stay bound although no device is left.\<close>
theorem second_failure_tears_down_twice:
  "\<exists>W'. dvb_em28xx_open dual_env (Some ''2040:0265'') True 2 dual_idle = Some (0, [], W') \<and> en_devices W' = [] \<and>
     en_chip W' = [Bound 0x64, Bound 0x60, Bound 0x67, Bound 0x63, Slept 0, Unbound 0x60, Unbound 0x64,
                   Slept 0, Unbound 0x60, Unbound 0x64]"
proof -
  have h: "en_host dual_env = dual" by (simp add: dual_env_def)
  obtain g w where i: "usbq_init dual usbq_lib_start [] = (0, g, w)"
    using dual_init by blast
  let ?W = "dual_idle\<lparr>en_inited := True, en_lib := g, en_wire := w\<rparr>"
  have e: "ensure_init dual_env dual_idle = (True, ?W)" using i h by (simp add: ensure_init_def dual_idle_def)
  have b: "find_board_by_vidpid em28xx_board_table (Some ''2040:0265'') = Some dual_board"
    by (simp add: find_board_by_vidpid_def em28xx_board_table_def)
  obtain g1 w1 where i1: "usbq_init dual g w = (0, g1, w1)" using dual_init by blast
  obtain w2 where o: "usbq_open dual (Some ''2040:0265'') g w = (Some dual_usb, g1, w2)"
    using i1 by (simp add: usbq_open_def dual_parse usbq_dev_wrap_def bench_reply_def Let_def first_dev_def)
  obtain w3 where d: "snd (usbq_disconnect_kernel_driver dual (Some dual_usb) w2) = w3" by blast
  obtain w4 where c: "usbq_claim_interface dual (Some dual_usb) 0 w3 = (0, w4)"
    by (simp add: usbq_claim_interface_def bench_reply_def)
  let ?V = "dual_idle\<lparr>en_inited := True, en_lib := g1, en_wire := w4\<rparr>"
  have idle: "en_devices ?V = []" "en_chip ?V = []" by (simp_all add: dual_idle_def)
  obtain g5 w5 where r: "engine_open_from_usb dual_env (em28xx_kind dual) dual_board dual_usb 2 ?V
    = Some (0, [], ?V\<lparr>en_lib := g5, en_chip := [Bound 0x64, Bound 0x60, Bound 0x67, Bound 0x63, Slept 0, Unbound 0x60, Unbound 0x64,
                    Slept 0, Unbound 0x60, Unbound 0x64], en_wire := w5\<rparr>)"
    using dual_open_from_usb [OF idle] by blast
  show ?thesis
    using e b o d c r h
    by (simp add: dvb_em28xx_open_def engine_open_def engine_open_device_def claim_and_open_def case_prod_unfold
        em28xx_kind_def Let_def) (simp add: dual_idle_def)
qed

end
