(* ===== verification/Firmware.thy ===== *)
theory Firmware
  imports Engines
begin

text \<open>
  The firmware loader the chip drivers call, \<open>linuxdvbkpi/src/firmware.c\<close>: the configured root, loading
  one file, and the search of \<open>request_firmware\<close>. Files are a parameter: what \<open>stat\<close>, \<open>fopen\<close> and \<open>fread\<close>
  find under a path. Allocations are asked of the host; the state counts the blocks and the \<open>FILE\<close>s the
  loader holds. \<open>$FIRMWARE_DIR\<close> is an argument.
\<close>

datatype fw_file =
    Absent                  \<comment> \<open>\<open>stat\<close> fails\<close>
  | Not_Regular
  | Unreadable              \<comment> \<open>\<open>fopen\<close> fails\<close>
  | Regular nat bytes       \<comment> \<open>the size \<open>stat\<close> reports, and what there is to read\<close>

type_synonym fw_files = "string \<Rightarrow> fw_file"

record firmware =
  fw_size :: nat
  fw_data :: "bytes option"

record fw_state =
  fs_root :: string     \<comment> \<open>\<open>g_root\<close>\<close>
  fs_blocks :: int
  fs_open :: int
  fs_wire :: wire

definition set_firmware_root :: "string option \<Rightarrow> fw_state \<Rightarrow> fw_state" where
  "set_firmware_root path s = s\<lparr>fs_root := (case path of None \<Rightarrow> [] | Some p \<Rightarrow> take 1023 p)\<rparr>"

text \<open>\<open>malloc\<close> or \<open>calloc\<close> of one block, and \<open>free\<close>.\<close>

definition fw_alloc :: "host \<Rightarrow> fw_state \<Rightarrow> bool \<times> fw_state" where
  "fw_alloc env s =
     (let (r, w) = ask env Alloc (fs_wire s)
      in if r_rc r = 0 then (False, s\<lparr>fs_wire := w\<rparr>)
         else (True, s\<lparr>fs_wire := w, fs_blocks := fs_blocks s + 1\<rparr>))"

definition fw_free :: "fw_state \<Rightarrow> fw_state" where
  "fw_free s = s\<lparr>fs_blocks := fs_blocks s - 1\<rparr>"

definition try_load :: "host \<Rightarrow> fw_files \<Rightarrow> string option \<Rightarrow> string option \<Rightarrow> firmware option \<Rightarrow> fw_state
    \<Rightarrow> int \<times> firmware option \<times> fw_state" where
  "try_load env files dir name out s =
     (case (dir, name) of
        (Some d, Some n) \<Rightarrow>
          (case files (take 2047 (d @ ''/'' @ n)) of
             Absent \<Rightarrow> (- ENOENT, out, s)
           | Not_Regular \<Rightarrow> (- ENOENT, out, s)
           | Unreadable \<Rightarrow> (- ENOENT, out, s)
           | Regular sz contents \<Rightarrow>
               let s = s\<lparr>fs_open := fs_open s + 1\<rparr>;
                   (ok, s) = fw_alloc env s
               in if \<not> ok then (- ENOMEM, out, s\<lparr>fs_open := fs_open s - 1\<rparr>)
                  else
                    let got = take sz contents; s = s\<lparr>fs_open := fs_open s - 1\<rparr>
                    in if length got \<noteq> sz then (- EIO, out, fw_free s)
                       else
                         let (ok, s) = fw_alloc env s
                         in if \<not> ok then (- ENOMEM, out, fw_free s)
                            else (0, Some \<lparr>fw_size = sz, fw_data = Some got\<rparr>, s))
      | _ \<Rightarrow> (- EINVAL, out, s))"

fun try_fallbacks :: "host \<Rightarrow> fw_files \<Rightarrow> string list \<Rightarrow> string \<Rightarrow> firmware option \<Rightarrow> fw_state
    \<Rightarrow> int \<times> firmware option \<times> fw_state" where
  "try_fallbacks env files [] name out s = (- ENOENT, out, s)"
| "try_fallbacks env files (d # ds) name out s =
     (let (rc, out, s) = try_load env files (Some d) (Some name) out s
      in if rc = 0 then (0, out, s) else try_fallbacks env files ds name out s)"

text \<open>\<open>has_out\<close>: whether the caller's pointer is not NULL. A root or a variable that is empty is skipped. The
  second component is what the call stores through that pointer; a refused argument stores nothing.\<close>

definition request_firmware :: "host \<Rightarrow> fw_files \<Rightarrow> string option \<Rightarrow> bool \<Rightarrow> string option \<Rightarrow> fw_state
    \<Rightarrow> int \<times> firmware option \<times> fw_state" where
  "request_firmware env files fw_dir has_out name s =
     (case name of
        None \<Rightarrow> (- EINVAL, None, s)
      | Some n \<Rightarrow>
          if \<not> has_out then (- EINVAL, None, s)
          else
            let root = take 1023 (fs_root s);
                (rc, out, s) = (if root \<noteq> [] then try_load env files (Some root) (Some n) None s
                                else (- ENOENT, None, s))
            in if rc = 0 then (0, out, s)
               else
                 let (rc, out, s) = (case fw_dir of
                                       Some (c # cs) \<Rightarrow> try_load env files (Some (c # cs)) (Some n) out s
                                     | _ \<Rightarrow> (- ENOENT, out, s))
                 in if rc = 0 then (0, out, s) else try_fallbacks env files fw_dirs n out s)"

definition release_firmware :: "firmware option \<Rightarrow> fw_state \<Rightarrow> fw_state" where
  "release_firmware fw s =
     (case fw of
        None \<Rightarrow> s
      | Some f \<Rightarrow> fw_free (if fw_data f \<noteq> None then fw_free s else s))"

subsection \<open>The search path\<close>

text \<open>Where a name is looked for, in order.\<close>

definition search_path :: "string \<Rightarrow> string option \<Rightarrow> string list" where
  "search_path root fw_dir =
     filter (\<lambda>d. d \<noteq> []) [take 1023 root, case fw_dir of None \<Rightarrow> [] | Some d \<Rightarrow> d] @ fw_dirs"

text \<open>The outcome, once memory is there: the first directory of the path with the whole file.\<close>

definition loadable :: "fw_files \<Rightarrow> string \<Rightarrow> string \<Rightarrow> bytes option" where
  "loadable files n d =
     (case files (take 2047 (d @ ''/'' @ n)) of
        Regular sz contents \<Rightarrow> if sz \<le> length contents then Some (take sz contents) else None
      | _ \<Rightarrow> None)"

fun first_loadable :: "fw_files \<Rightarrow> string \<Rightarrow> string list \<Rightarrow> bytes option" where
  "first_loadable files n [] = None"
| "first_loadable files n (d # ds) =
     (case loadable files n d of None \<Rightarrow> first_loadable files n ds | Some x \<Rightarrow> Some x)"

lemma request_firmware_path:
  "request_firmware env files fw_dir True (Some n) s
     = try_fallbacks env files (search_path (fs_root s) fw_dir) n None s"
  by (auto simp: request_firmware_def search_path_def Let_def split: option.split list.split prod.split)

text \<open>What holding a firmware means for the loader's state.\<close>

definition fw_held :: "fw_state \<Rightarrow> int \<times> firmware option \<times> fw_state \<Rightarrow> bool" where
  "fw_held s r \<longleftrightarrow>
     (case r of (rc, fw, s') \<Rightarrow>
        fs_open s' = fs_open s \<and> fs_root s' = fs_root s \<and>
        (if rc = 0 then (case fw of None \<Rightarrow> False | Some f \<Rightarrow>
             fs_blocks s' = fs_blocks s + 2 \<and> (case fw_data f of None \<Rightarrow> False | Some b \<Rightarrow> length b = fw_size f))
         else rc < 0 \<and> fw = None \<and> fs_blocks s' = fs_blocks s))"

lemma try_load_held: "fw_held s (try_load env files d n None s)"
  by (auto simp: fw_held_def try_load_def fw_alloc_def fw_free_def Let_def ask_def
      split: option.split fw_file.split)

lemma fw_held_after:
  "fw_held s (rc, fw, s1) \<Longrightarrow> rc \<noteq> 0 \<Longrightarrow> fw_held s1 r \<Longrightarrow> fw_held s r"
  by (auto simp: fw_held_def split: if_splits option.splits)

lemma try_fallbacks_held: "fw_held s (try_fallbacks env files ds n None s)"
proof (induction ds arbitrary: s)
  case (Cons d ds)
  obtain rc fw s1 where t: "try_load env files (Some d) (Some n) None s = (rc, fw, s1)"
    by (cases "try_load env files (Some d) (Some n) None s")
  have h: "fw_held s (rc, fw, s1)" using try_load_held [of s env files "Some d" "Some n"] t by simp
  show ?case
  proof (cases "rc = 0")
    case False
    then have "fw = None" using h by (simp add: fw_held_def)
    then show ?thesis using False t fw_held_after [OF h False Cons.IH] by simp
  qed (use t h in simp)
qed (simp add: fw_held_def)

text \<open>C39: Loading and releasing a firmware leaves nothing behind. Whatever the files, the search path and the
  allocator do, \<open>request_firmware\<close> returns with every file it opened closed; if it fails it holds no
  memory and hands out nothing, if it succeeds the blob has exactly the size it states, and
  \<open>release_firmware\<close> frees both of its blocks.\<close>
theorem firmware_leaves_nothing:
  "case request_firmware env files fw_dir has_out name s of
     (rc, fw, s') \<Rightarrow>
       fw_held s (rc, fw, s') \<and>
       fs_open (release_firmware fw s') = fs_open s \<and> fs_blocks (release_firmware fw s') = fs_blocks s"
proof -
  obtain rc fw s' where r: "request_firmware env files fw_dir has_out name s = (rc, fw, s')"
    by (cases "request_firmware env files fw_dir has_out name s")
  have "fw_held s (rc, fw, s')"
  proof (cases "has_out \<and> name \<noteq> None")
    case True
    then obtain n where "name = Some n" by blast
    then show ?thesis
      using True r try_fallbacks_held [of s env files "search_path (fs_root s) fw_dir" n]
      by (simp add: request_firmware_path)
  next
    case False
    then show ?thesis using r by (auto simp: request_firmware_def fw_held_def split: option.splits)
  qed
  moreover from this have "fs_open (release_firmware fw s') = fs_open s \<and> fs_blocks (release_firmware fw s') = fs_blocks s"
    by (cases "rc = 0"; cases fw) (auto simp: fw_held_def release_firmware_def fw_free_def split: option.splits)
  ultimately show ?thesis using r by simp
qed

text \<open>There is memory for every request.\<close>

definition memory_for_all :: "host \<Rightarrow> bool" where
  "memory_for_all env \<longleftrightarrow> (\<forall>w. r_rc (env (w @ [Alloc])) \<noteq> 0)"

lemma fw_alloc_ok: "memory_for_all env \<Longrightarrow>
    fw_alloc env s = (True, s\<lparr>fs_wire := fs_wire s @ [Alloc], fs_blocks := fs_blocks s + 1\<rparr>)"
  by (simp add: memory_for_all_def fw_alloc_def ask_def Let_def)

lemma try_load_loadable:
  assumes "memory_for_all env" and t: "try_load env files (Some d) (Some n) out s = (rc, fw, s')"
  shows "case loadable files n d of
       Some b \<Rightarrow> rc = 0 \<and> fw = Some \<lparr>fw_size = length b, fw_data = Some b\<rparr>
     | None \<Rightarrow> rc \<noteq> 0 \<and> fw = out"
  using assms
  by (cases "files (take 2047 (d @ ''/'' @ n))")
     (auto simp: try_load_def loadable_def fw_alloc_ok Let_def min_def split: if_splits)

lemma try_fallbacks_first:
  assumes a: "memory_for_all env"
  shows "try_fallbacks env files ds n None s = (rc, fw, s') \<Longrightarrow>
    (case first_loadable files n ds of
       None \<Rightarrow> rc = - ENOENT \<and> fw = None
     | Some b \<Rightarrow> rc = 0 \<and> fw = Some \<lparr>fw_size = length b, fw_data = Some b\<rparr>)"
proof (induction ds arbitrary: s)
  case (Cons d ds)
  obtain rc1 fw1 s1 where t: "try_load env files (Some d) (Some n) None s = (rc1, fw1, s1)"
    by (cases "try_load env files (Some d) (Some n) None s")
  show ?case using Cons.IH [of s1] Cons.prems t try_load_loadable [OF a t]
    by (cases "loadable files n d") auto
qed simp

text \<open>C38: What \<open>request_firmware\<close> finds, as long as memory is available: it loads the first complete file
  along the configured root, \<open>$FIRMWARE_DIR\<close> and the three system directories, in this order and
  skipping what is unset or empty, and hands out exactly its bytes. A file that is there but cannot be
  opened or gives fewer bytes than its size is passed over like a missing one. When no directory has a
  complete file it hands out nothing and answers \<open>-ENOENT\<close>, also where the only files found could not
  be read; \<open>linux/firmware.h\<close> documents \<open>-EIO\<close> for a read error, which the call never returns.\<close>
theorem firmware_search:
  assumes "memory_for_all env"
    and "request_firmware env files fw_dir True (Some n) s = (rc, fw, s')"
  shows "case first_loadable files n (search_path (fs_root s) fw_dir) of
       None \<Rightarrow> rc = - ENOENT \<and> fw = None
     | Some b \<Rightarrow> rc = 0 \<and> fw = Some \<lparr>fw_size = length b, fw_data = Some b\<rparr>"
  using try_fallbacks_first [OF assms(1)] assms(2) by (simp add: request_firmware_path)

text \<open>The root holds two truncated files, the environment names nothing, a system directory has the first of
  them whole.\<close>

definition some_files :: fw_files where
  "some_files path =
     (if path = ''/opt/fw/x.fw'' \<or> path = ''/opt/fw/y.fw'' then Regular 3 [1, 2]
      else if path = ''/usr/lib/firmware/x.fw'' then Regular 2 [7, 8] else Absent)"

definition fresh_fw_state :: fw_state where
  "fresh_fw_state = \<lparr>fs_root = [], fs_blocks = 0, fs_open = 0, fs_wire = []\<rparr>"

definition plenty :: host where
  "plenty w = \<lparr>r_rc = 1, r_data = [], r_devs = [], r_handle = 1, r_fds = (0, 0)\<rparr>"

lemma some_files_first:
  "first_loadable some_files ''x.fw'' (search_path (fs_root (set_firmware_root (Some ''/opt/fw'') s)) None) = Some [7, 8]"
  "first_loadable some_files ''y.fw'' (search_path (fs_root (set_firmware_root (Some ''/opt/fw'') s)) None) = None"
  by (simp_all add: search_path_def fw_dirs_def loadable_def some_files_def set_firmware_root_def)

lemma firmware_search_witness:
  "\<exists>s1 s2.
     request_firmware plenty some_files None True (Some ''x.fw'') (set_firmware_root (Some ''/opt/fw'') fresh_fw_state)
       = (0, Some \<lparr>fw_size = 2, fw_data = Some [7, 8]\<rparr>, s1) \<and>
     request_firmware plenty some_files None True (Some ''y.fw'') (set_firmware_root (Some ''/opt/fw'') fresh_fw_state)
       = (- ENOENT, None, s2)"
proof -
  let ?s = "set_firmware_root (Some ''/opt/fw'') fresh_fw_state"
  obtain rc fw s1 where x: "request_firmware plenty some_files None True (Some ''x.fw'') ?s = (rc, fw, s1)"
    by (cases "request_firmware plenty some_files None True (Some ''x.fw'') ?s")
  obtain rd fv s2 where y: "request_firmware plenty some_files None True (Some ''y.fw'') ?s = (rd, fv, s2)"
    by (cases "request_firmware plenty some_files None True (Some ''y.fw'') ?s")
  have m: "memory_for_all plenty" by (simp add: plenty_def memory_for_all_def)
  show ?thesis
    using firmware_search [OF m x] firmware_search [OF m y] some_files_first [of fresh_fw_state] x y by simp
qed

text \<open>The dib0700 engine's own lookup of the bridge firmware is not this search: it ignores the configured
  root, and with \<open>$FIRMWARE_DIR\<close> set it names the file there without looking, and no system directory.\<close>

lemma bridge_fw_path_differs:
  "bridge_fw_path env (Some (c # cs)) name w = (take 1023 ((c # cs) @ ''/'' @ name), w)"
  "set (search_path root (Some (c # cs))) \<supseteq> set fw_dirs"
  by (simp_all add: bridge_fw_path_def search_path_def)

end
