(* ===== verification/Dvb_Devices.thy ===== *)
theory Dvb_Devices
  imports Tool_Text Hotplug Engine_Theorems
begin

text \<open>
  The lister (\<open>tools/dvb_devices.c\<close>) over the three engines: the listings of the boards present and
  supported, the hotplug watch, and \<open>main\<close>. What the tool prints on standard output is a string.
  A run of the watch is given by its rounds: how each \<open>poll\<close> returned and the hotplug callbacks that
  ran meanwhile, up to the one after which the signal handler's stop flag is seen.
\<close>

subsection \<open>Listings\<close>

definition MAX_BOARDS :: int where "MAX_BOARDS = 32"

text \<open>The three copy loops, each stopping at \<open>max\<close>.\<close>

definition gather_supported :: "int \<Rightarrow> dvb_supported_board list" where
  "gather_supported mx =
     foldl (\<lambda>out bs. out @ take (nat mx - length out) bs) []
       [dvb_em28xx_supported_boards, dvb_dib0700_supported_boards, dvb_dvbsky_supported_boards]"

definition gather_present :: "host \<Rightarrow> int \<Rightarrow> usbq_lib \<Rightarrow> wire \<Rightarrow> dvb_present_board list \<times> usbq_lib \<times> wire" where
  "gather_present env mx g w =
     (let (em, g, w) = dvb_em28xx_scan_present env True mx g w;
          n = int (length em);
          (dib, g, w) = dvb_dib0700_scan_present env True (mx - n) g w;
          n = n + int (length dib);
          (sky, g, w) = dvb_dvbsky_scan_present env True (mx - n) g w
      in (em @ dib @ sky, g, w))"

definition plural :: "int \<Rightarrow> string" where
  "plural n = dec_int n @ '' frontend'' @ (if n = 1 then [] else ''s'')"

definition detected_row :: "dvb_present_board \<Rightarrow> string" where
  "detected_row p =
     ''  ['' @ pad_right 7 (pb_bridge p) @ ''] '' @ pb_name p @ dash @ ''USB '' @ pb_vidpid p @ '' @ bus ''
       @ dec_string (unat (pb_bus p)) @ '' dev '' @ dec_string (unat (pb_addr p)) @ '', ''
       @ plural (pb_num_frontends p) @ newline"

definition print_detected :: "host \<Rightarrow> usbq_lib \<Rightarrow> wire \<Rightarrow> int \<times> string \<times> usbq_lib \<times> wire" where
  "print_detected env g w =
     (let (present, g, w) = gather_present env MAX_BOARDS g w;
          head = ''Detected devices ('' @ dec_string (length present) @ ''):'' @ newline
      in if present = []
         then (1, head @ ''  (no supported hardware plugged in'' @ dash
                    @ ''run `dvb_devices --supported` to see what this build can drive)'' @ newline, g, w)
         else (0, head @ concat (map detected_row present), g, w))"

definition supported_rows :: "dvb_supported_board \<Rightarrow> string" where
  "supported_rows b =
     ''  ['' @ pad_right 7 (sb_bridge b) @ ''] '' @ sb_name b @ dash @ plural (sb_num_frontends b) @ newline
       @ concat (map (\<lambda>v. ''      USB '' @ v @ newline) (sb_vidpids b))"

definition print_supported :: "int \<times> string" where
  "print_supported =
     (let supported = gather_supported MAX_BOARDS
      in (0, ''Supported devices in this build ('' @ dec_string (length supported) @ ''):'' @ newline
               @ concat (map supported_rows supported)))"

subsection \<open>The hotplug watch\<close>

text \<open>Board name and bridge.\<close>

definition event_lookup :: "dvb_hotplug_event \<Rightarrow> string \<times> string" where
  "event_lookup ev =
     (case find (\<lambda>b. list_ex (\<lambda>v. v = format_vidpid (hev_vid ev) (hev_pid ev)) (sb_vidpids b))
             (gather_supported MAX_BOARDS) of
        Some b \<Rightarrow> (sb_name b, sb_bridge b)
      | None \<Rightarrow> (''(unknown)'', ''?''))"

definition print_hotplug_event :: "dvb_hotplug_event \<Rightarrow> string" where
  "print_hotplug_event ev =
     (let (board_name, bridge) = event_lookup ev
      in ''  '' @ [if hev_kind ev = DVB_HOTPLUG_ARRIVED then CHR ''+'' else CHR ''-''] @ '' ['' @ pad_right 7 bridge
           @ ''] '' @ board_name @ dash @ ''USB '' @ format_vidpid (hev_vid ev) (hev_pid ev) @ '' @ bus ''
           @ dec_string (unat (hev_bus ev)) @ '' dev '' @ dec_string (unat (hev_devaddr ev)) @ newline)"

text \<open>The inner loop of the watch: pop and print until the queue has nothing.\<close>

function watch_drain :: "hp_state \<Rightarrow> string \<Rightarrow> string \<times> hp_state" where
  "watch_drain hp out =
     (case dvb_hotplug_pop True hp of
        (rc, ev, hp') \<Rightarrow>
          if rc = 1
          then watch_drain hp' (out @ (case ev of None \<Rightarrow> [] | Some ev \<Rightarrow> print_hotplug_event ev))
          else (out, hp'))"
  by pat_completeness auto

termination watch_drain
  apply (relation "measure (\<lambda>(hp, out). hp_q_used hp)")
  apply simp_all
  apply (auto simp: dvb_hotplug_pop_def split: if_splits)
  done

declare watch_drain.simps [simp del]

record watch_round =
  wr_poll :: int   \<comment> \<open>negative: the negated \<open>errno\<close>\<close>
  wr_events :: "(devinfo \<times> bool) list"

definition EINTR :: int where "EINTR = 4"

text \<open>The loop, with what it has printed; the second string is what it says on standard error.\<close>

fun watch_loop :: "(int \<Rightarrow> string) \<Rightarrow> watch_round list \<Rightarrow> hp_state \<Rightarrow> wire \<Rightarrow> string
    \<Rightarrow> string \<times> string \<times> hp_state \<times> wire" where
  "watch_loop strerror [] hp w out = (out, [], hp, w)"
| "watch_loop strerror (r # rs) hp w out =
     (let (hp, w) = hotplug_deliver (wr_events r) hp w
      in if wr_poll r < 0
         then if wr_poll r = - EINTR then watch_loop strerror rs hp w out
              else (out, perror strerror ''poll'' (- wr_poll r), hp, w)
         else let (out, hp) = watch_drain hp out in watch_loop strerror rs hp w out)"

definition watch_mode :: "host \<Rightarrow> (int \<Rightarrow> string) \<Rightarrow> watch_round list \<Rightarrow> hp_state \<Rightarrow> usbq_lib \<Rightarrow> wire
    \<Rightarrow> int \<times> string \<times> string \<times> hp_state \<times> usbq_lib \<times> wire" where
  "watch_mode env strerror rounds hp g w =
     (let (_, out, g, w) = print_detected env g w;
          out = out @ ''Watching for hotplug events (Ctrl-C to exit):'' @ newline;
          (r, w) = ask env Pipe w
      in if r_rc r < 0 then (1, out, perror strerror ''pipe'' (- r_rc r), hp, g, w)
         else
           let (rfd, wfd) = r_fds r;
               w = w @ [Set_Nonblock rfd, Set_Nonblock wfd];
               (rc, hp, g, w) = dvb_hotplug_init env wfd hp g w
           in if rc < 0 then (1, out, hotplug_failure_text rc, hp, g, w @ [Close_Fd rfd, Close_Fd wfd])
              else
                let (out, err, hp, w) = watch_loop strerror rounds hp w out;
                    (hp, g, w) = dvb_hotplug_shutdown hp g w
                in (0, out @ newline @ ''Stopping watch.'' @ newline, err, hp, g, w @ [Close_Fd rfd, Close_Fd wfd]))"

text \<open>\<open>main\<close>: the arguments after the program's name.\<close>

definition dvb_devices_main :: "host \<Rightarrow> (int \<Rightarrow> string) \<Rightarrow> string \<Rightarrow> string list \<Rightarrow> watch_round list \<Rightarrow> hp_state
    \<Rightarrow> usbq_lib \<Rightarrow> wire \<Rightarrow> int \<times> string \<times> string \<times> hp_state \<times> usbq_lib \<times> wire" where
  "dvb_devices_main env strerror argv0 args rounds hp g w =
     (if args = [] then let (rc, out, g, w) = print_detected env g w in (rc, out, [], hp, g, w)
      else if args = [''--supported''] then let (rc, out) = print_supported in (rc, out, [], hp, g, w)
      else if args = [''--watch''] then watch_mode env strerror rounds hp g w
      else (2, [], devices_usage argv0, hp, g, w))"

subsection \<open>Names of events\<close>

definition bridge_name :: "dvb_hotplug_bridge \<Rightarrow> string" where
  "bridge_name tag =
     (case tag of
        DVB_HOTPLUG_BRIDGE_UNKNOWN \<Rightarrow> ''?''
      | DVB_HOTPLUG_BRIDGE_EM28XX \<Rightarrow> ''em28xx''
      | DVB_HOTPLUG_BRIDGE_DIB0700 \<Rightarrow> ''dib0700''
      | DVB_HOTPLUG_BRIDGE_DVBSKY \<Rightarrow> ''dvbsky'')"

text \<open>The name of the board the tagged engine opens for an id.\<close>

definition engine_board_name :: "dvb_hotplug_bridge \<Rightarrow> string \<Rightarrow> string option" where
  "engine_board_name tag v =
     (case tag of
        DVB_HOTPLUG_BRIDGE_UNKNOWN \<Rightarrow> None
      | DVB_HOTPLUG_BRIDGE_EM28XX \<Rightarrow>
          map_option b_name (find_board_by_vidpid (em28xx_board_table :: (unit, unit) em28xx_board list) (Some v))
      | DVB_HOTPLUG_BRIDGE_DIB0700 \<Rightarrow>
          map_option b_name (find_board_by_vidpid (dib0700_board_table :: (unit, unit) dib0700_board list) (Some v))
      | DVB_HOTPLUG_BRIDGE_DVBSKY \<Rightarrow>
          map_option b_name (find_board_by_vidpid (dvbsky_board_table :: (unit, unit) dvbsky_board list) (Some v)))"

abbreviation lists_vidpid :: "string \<Rightarrow> dvb_supported_board \<Rightarrow> bool" where
  "lists_vidpid v b \<equiv> list_ex (\<lambda>i. i = v) (sb_vidpids b)"

lemma find_supported:
  "find (lists_vidpid v) (map (supported_row bridge) t) = map_option (supported_row bridge) (find_board_in v t)"
  by (induction t) (simp_all add: supported_row_def)

lemma find_append: "find P (xs @ ys) = (case find P xs of None \<Rightarrow> find P ys | Some x \<Rightarrow> Some x)"
  by (induction xs) simp_all

lemma short_tables:
  "length (em28xx_board_table :: (unit, unit) em28xx_board list) \<le> 16"
  "length (dib0700_board_table :: (unit, unit) dib0700_board list) \<le> 16"
  "length (dvbsky_board_table :: (unit, unit) dvbsky_board list) \<le> 16"
  by (simp_all add: board_tables)

lemma supported_tables:
  "dvb_em28xx_supported_boards = map (supported_row ''em28xx'') (em28xx_board_table :: (unit, unit) em28xx_board list)"
  "dvb_dib0700_supported_boards = map (supported_row ''dib0700'') (dib0700_board_table :: (unit, unit) dib0700_board list)"
  "dvb_dvbsky_supported_boards = map (supported_row ''dvbsky'') (dvbsky_board_table :: (unit, unit) dvbsky_board list)"
  using short_tables
  by (simp_all add: dvb_em28xx_supported_boards_def dvb_dib0700_supported_boards_def dvb_dvbsky_supported_boards_def)

lemma gather_supported_all:
  "gather_supported MAX_BOARDS = dvb_em28xx_supported_boards @ dvb_dib0700_supported_boards @ dvb_dvbsky_supported_boards"
  by (simp add: gather_supported_def MAX_BOARDS_def supported_tables) (simp add: board_tables)

lemma find_board_iff:
  "find_board_in (format_vidpid v p) (em28xx_board_table :: ('s, 'fe) em28xx_board list) \<noteq> None \<longleftrightarrow> (v, p) \<in> set em28xx_ids"
  "find_board_in (format_vidpid v p) (dib0700_board_table :: ('s, 'fe) dib0700_board list) \<noteq> None \<longleftrightarrow> (v, p) \<in> set dib0700_ids"
  "find_board_in (format_vidpid v p) (dvbsky_board_table :: ('s, 'fe) dvbsky_board list) \<noteq> None \<longleftrightarrow> (v, p) \<in> set dvbsky_ids"
  using find_board_by_ids [OF em28xx_vidpids] find_board_by_ids [OF dib0700_vidpids] find_board_by_ids [OF dvbsky_vidpids]
  by (simp_all add: find_board_by_vidpid_def)

text \<open>C18: The watch names every event by the engine that drives the device. An id to which the hotplug filter gives
  a bridge is found by the tool's own search through the three lists of supported boards: it leads to the same bridge,
  and the name printed is that of the board this bridge's engine opens for the id. An id the filter gives no bridge is
  printed as unknown.\<close>
theorem event_lookup_agrees:
  "let tag = bridge_for_vidpid (hev_vid ev) (hev_pid ev)
   in if tag = DVB_HOTPLUG_BRIDGE_UNKNOWN then event_lookup ev = (''(unknown)'', ''?'')
      else \<exists>name. engine_board_name tag (format_vidpid (hev_vid ev) (hev_pid ev)) = Some name \<and>
                  event_lookup ev = (name, bridge_name tag)"
proof -
  let ?v = "format_vidpid (hev_vid ev) (hev_pid ev)"
  note found = find_board_iff [of "hev_vid ev" "hev_pid ev", where 's = unit and 'fe = unit]
  have "event_lookup ev =
     (case find_board_in ?v (em28xx_board_table :: (unit, unit) em28xx_board list) of
        Some b \<Rightarrow> (b_name b, ''em28xx'')
      | None \<Rightarrow>
     (case find_board_in ?v (dib0700_board_table :: (unit, unit) dib0700_board list) of
        Some b \<Rightarrow> (b_name b, ''dib0700'')
      | None \<Rightarrow>
     (case find_board_in ?v (dvbsky_board_table :: (unit, unit) dvbsky_board list) of
        Some b \<Rightarrow> (b_name b, ''dvbsky'')
      | None \<Rightarrow> (''(unknown)'', ''?''))))"
    by (simp add: event_lookup_def gather_supported_all find_append supported_tables find_supported supported_row_def
        split: option.split)
  then show ?thesis
    using found
    by (auto simp: bridge_for_vidpid_ids engine_board_name_def find_board_by_vidpid_def bridge_name_def Let_def
        split: option.split)
qed

subsection \<open>The watch\<close>

lemma watch_drain_stop:
  "hp_q_used hp = 0 \<or> \<not> hp_initialized hp \<Longrightarrow> watch_drain hp out = (out, hp)"
  by (subst watch_drain.simps) (auto simp: dvb_hotplug_pop_def)

lemma watch_drain_step:
  assumes "hp_live hp" "hp_q_used hp \<noteq> 0"
  shows "watch_drain hp out = watch_drain (hp_drop hp) (out @ print_hotplug_event (hd (hp_events hp)))"
proof -
  have "hd (hp_events hp) = hp_queue hp ! hp_q_head hp"
    using assms nth_hp_events [of 0 hp] by (simp add: hd_conv_nth hp_live_def hp_inv_def flip: length_0_conv)
  then show ?thesis
    using assms by (subst watch_drain.simps) (simp add: dvb_hotplug_pop_def hp_live_def hp_drop_def)
qed

lemma hp_drop_live: "hp_live hp \<Longrightarrow> hp_q_used hp \<noteq> 0 \<Longrightarrow> hp_live (hp_drop hp)"
  using hp_drop_inv [of hp] by (simp add: hp_live_def) (simp add: hp_drop_def)

lemma watch_drain_live:
  "hp_live hp \<Longrightarrow> \<exists>hp'. watch_drain hp out = (out @ concat (map print_hotplug_event (hp_events hp)), hp') \<and>
     hp_live hp' \<and> hp_events hp' = [] \<and> hp_acquired_evt hp' = hp_acquired_evt hp \<and> hp_cb_handle hp' = hp_cb_handle hp"
proof (induction "hp_q_used hp" arbitrary: hp out)
  case 0
  then have "hp_events hp = []" by (simp flip: length_0_conv)
  then show ?case using 0 watch_drain_stop [of hp] by simp
next
  case (Suc k)
  have used: "hp_q_used hp \<noteq> 0" and k: "k = hp_q_used (hp_drop hp)" using Suc.hyps(2) by (simp_all add: hp_drop_def)
  have "hp_events hp = hd (hp_events hp) # hp_events (hp_drop hp)"
    using used hp_drop_events [of hp] by (cases "hp_events hp") (simp_all flip: length_0_conv)
  then have out: "concat (map print_hotplug_event (hp_events hp))
      = print_hotplug_event (hd (hp_events hp)) @ concat (map print_hotplug_event (hp_events (hp_drop hp)))"
    by (metis concat.simps(2) list.map(2))
  have "hp_acquired_evt (hp_drop hp) = hp_acquired_evt hp" "hp_cb_handle (hp_drop hp) = hp_cb_handle hp"
    by (simp_all add: hp_drop_def)
  then show ?case
    using Suc.hyps(1) [OF k hp_drop_live [OF Suc.prems used], of "out @ print_hotplug_event (hd (hp_events hp))"]
      watch_drain_step [OF Suc.prems used, of out] out by simp
qed

text \<open>What the watch is to show, from the events pending: those of each round with a successful poll, the
  newest 64 of what has come since the last one; nothing after a failed poll.\<close>

fun watch_shows :: "watch_round list \<Rightarrow> dvb_hotplug_event list \<Rightarrow> dvb_hotplug_event list" where
  "watch_shows [] pending = []"
| "watch_shows (r # rs) pending =
     (let pending = newest HP_QUEUE_CAP (pending @ List.map_filter event_of (wr_events r))
      in if wr_poll r < 0 then (if wr_poll r = - EINTR then watch_shows rs pending else [])
         else pending @ watch_shows rs [])"

lemma deliver_live:
  assumes "hp_live hp" "hotplug_deliver es hp w = (hp1, w1)"
  shows "hp_live hp1 \<and> hp_events hp1 = newest HP_QUEUE_CAP (hp_events hp @ List.map_filter event_of es) \<and>
    hp_acquired_evt hp1 = hp_acquired_evt hp \<and> hp_cb_handle hp1 = hp_cb_handle hp"
  using hotplug_deliver_spec [OF _ assms(2)] assms(1) by (simp add: hp_live_def)

lemma watch_loop_live:
  "hp_live hp \<Longrightarrow> watch_loop se rs hp w out = (out', err, hp', w') \<Longrightarrow>
     out' = out @ concat (map print_hotplug_event (watch_shows rs (hp_events hp))) \<and> hp_live hp' \<and>
     hp_acquired_evt hp' = hp_acquired_evt hp \<and> hp_cb_handle hp' = hp_cb_handle hp"
proof (induction rs arbitrary: hp w out)
  case (Cons r rs)
  obtain hp1 w1 where d: "hotplug_deliver (wr_events r) hp w = (hp1, w1)" by fastforce
  note dl = deliver_live [OF Cons.prems(1) d]
  obtain hp2 where t: "watch_drain hp1 out = (out @ concat (map print_hotplug_event (hp_events hp1)), hp2)"
    "hp_live hp2" "hp_events hp2 = []" "hp_acquired_evt hp2 = hp_acquired_evt hp1" "hp_cb_handle hp2 = hp_cb_handle hp1"
    using watch_drain_live [of hp1 out] dl by blast
  show ?case
  proof (cases "wr_poll r < 0")
    case True
    then show ?thesis using Cons.IH [of hp1 w1 out] Cons.prems(2) d dl by (auto simp: Let_def split: if_splits)
  next
    case False
    then have "watch_loop se rs hp2 w1 (out @ concat (map print_hotplug_event (hp_events hp1))) = (out', err, hp', w')"
      using Cons.prems(2) d t by simp
    from Cons.IH [OF t(2) this] show ?thesis using False dl t by (simp add: Let_def)
  qed
qed simp

text \<open>No more than 64 events ever wait for a drain (\<open>n\<close> wait at first), no poll fails but by an interruption, and the
  run does not end on an interrupted poll with events still queued.\<close>

fun watch_keeps_up :: "watch_round list \<Rightarrow> nat \<Rightarrow> bool" where
  "watch_keeps_up [] n \<longleftrightarrow> n = 0"
| "watch_keeps_up (r # rs) n \<longleftrightarrow>
     (let n = n + length (List.map_filter event_of (wr_events r))
      in n \<le> HP_QUEUE_CAP \<and>
         (if wr_poll r < 0 then wr_poll r = - EINTR \<and> watch_keeps_up rs n else watch_keeps_up rs 0))"

lemma watch_shows_all:
  "watch_keeps_up rs (length pending) \<Longrightarrow>
     watch_shows rs pending = pending @ List.map_filter event_of (concat (map wr_events rs))"
proof (induction rs arbitrary: pending)
  case (Cons r rs)
  let ?p = "pending @ List.map_filter event_of (wr_events r)"
  have "newest HP_QUEUE_CAP ?p = ?p" using Cons.prems by (simp add: Let_def)
  moreover have "watch_keeps_up rs (length (if wr_poll r < 0 then ?p else []))"
    using Cons.prems by (simp add: Let_def split: if_splits)
  then have "watch_shows rs (if wr_poll r < 0 then ?p else [])
      = (if wr_poll r < 0 then ?p else []) @ List.map_filter event_of (concat (map wr_events rs))"
    by (rule Cons.IH)
  ultimately show ?case
    using Cons.prems by (simp add: Let_def List.map_filter_def split: if_splits)
qed (simp add: List.map_filter_simps)

text \<open>C15: What the watch prints. Each round with a successful poll prints one line for each event of a known device that
  waits then, in the order the events came, and empties the queue; an interrupted poll leaves its events to the next
  round; of more than 64 waiting events only the newest 64 are printed; a poll that fails otherwise ends the watch with
  what waits unprinted. While the watch keeps up (never more than 64 waiting, no failing poll, no events left over at the
  end) it prints every event of a known device, those queued before it began and those delivered since, exactly once
  and in order. (The events are those of libusb's callbacks that the filter lets through.)\<close>
theorem watch_prints_every_event:
  assumes "hp_live hp" "watch_loop se rs hp w out = (out', err, hp', w')"
  shows "out' = out @ concat (map print_hotplug_event (watch_shows rs (hp_events hp))) \<and> hp_live hp' \<and>
    (watch_keeps_up rs (hp_q_used hp) \<longrightarrow>
       out' = out @ concat (map print_hotplug_event
                 (hp_events hp @ List.map_filter event_of (concat (map wr_events rs)))))"
  using watch_loop_live [OF assms] watch_shows_all [of rs "hp_events hp"] by simp

lemma watch_prints_every_event_witness:
  "\<exists>out err hp' w'. watch_loop (\<lambda>_. [])
       [\<lparr>wr_poll = 1, wr_events = [(\<lparr>di_vid = 0x045e, di_pid = 0x02d5, di_bus = 1, di_addr = 7, di_desc_rc = 0\<rparr>, True)]\<rparr>]
       (hp_start\<lparr>hp_initialized := True\<rparr>) [] [] = (out, err, hp', w') \<and> hp_live hp' \<and>
     out = print_hotplug_event \<lparr>hev_kind = DVB_HOTPLUG_ARRIVED, hev_bridge = DVB_HOTPLUG_BRIDGE_DIB0700, hev_bus = 1,
              hev_devaddr = 7, hev_vid = 0x045e, hev_pid = 0x02d5\<rparr>"
proof -
  let ?rs = "[\<lparr>wr_poll = 1, wr_events = [(\<lparr>di_vid = 0x045e, di_pid = 0x02d5, di_bus = 1, di_addr = 7, di_desc_rc = 0\<rparr>, True)]\<rparr>]"
  obtain out err hp' w' where run: "watch_loop (\<lambda>_. []) ?rs (hp_start\<lparr>hp_initialized := True\<rparr>) [] [] = (out, err, hp', w')"
    by (metis prod_cases4)
  have "hp_events (hp_start\<lparr>hp_initialized := True\<rparr>) = []" by (simp add: hp_events_def hp_start_def)
  then show ?thesis
    using watch_prints_every_event [OF hp_live_start run] run
    by (simp add: event_of_def bridge_for_vidpid_ids em28xx_ids_def dib0700_ids_def List.map_filter_simps
        newest_def HP_QUEUE_CAP_def)
qed

subsection \<open>What the scans cost\<close>

lemma enumerate_refs:
  "usbq_enumerate env v mx g w = (n, ds, g', w') \<Longrightarrow> refs_inv g \<Longrightarrow> refs_inv g'"
  by (auto simp: usbq_enumerate_def Let_def ask_def dest: usbq_init_refs split: if_splits prod.splits)

lemma scan_ids_refs:
  "scan_ids env bridge b mx vs out g w = (out', g', w') \<Longrightarrow> refs_inv g \<Longrightarrow> refs_inv g'"
proof (induction vs arbitrary: out g w)
  case (Cons v vs)
  obtain n ds g1 w1 where e: "usbq_enumerate env (Some v) 16 g w = (n, ds, g1, w1)"
    by (cases "usbq_enumerate env (Some v) 16 g w")
  show ?case using Cons enumerate_refs [OF e] by (auto simp: e Let_def split: if_splits)
qed simp

lemma scan_boards_refs:
  "scan_boards env bridge mx bs out g w = (out', g', w') \<Longrightarrow> refs_inv g \<Longrightarrow> refs_inv g'"
proof (induction bs arbitrary: out g w)
  case (Cons b bs)
  obtain o1 g1 w1 where e: "scan_ids env bridge b mx (b_vidpids b) out g w = (o1, g1, w1)"
    by (cases "scan_ids env bridge b mx (b_vidpids b) out g w")
  show ?case using Cons scan_ids_refs [OF e] by (auto simp: e split: if_splits)
qed simp

lemma scan_present_refs:
  "engine_scan_present env bridge table has mx g w = (out, g', w') \<Longrightarrow> refs_inv g \<Longrightarrow> refs_inv g'"
  by (auto simp: engine_scan_present_def Let_def dest: usbq_init_refs scan_boards_refs split: if_splits prod.splits)

text \<open>A row of the listing: a board of one of the engines, under that engine's name.\<close>

definition detected_ok :: "dvb_present_board \<Rightarrow> bool" where
  "detected_ok row \<longleftrightarrow>
     row_of ''em28xx'' (em28xx_board_table :: (unit, unit) em28xx_board list) row \<or>
     row_of ''dib0700'' (dib0700_board_table :: (unit, unit) dib0700_board list) row \<or>
     row_of ''dvbsky'' (dvbsky_board_table :: (unit, unit) dvbsky_board list) row"

lemma scan_rows:
  assumes "engine_scan_present env bridge table has mx g w = (out, g', w')"
  shows "int (length out) \<le> max 0 mx \<and> list_all (row_of bridge table) out \<and> quiet w w' \<and>
    evt_refcount g' = evt_refcount g \<and>
    (if has \<and> 0 < mx \<and> fst (usbq_init env g w) = 0 then g_init_refcount g < g_init_refcount g'
     else g_init_refcount g' = g_init_refcount g)"
  using scan_present_rows [where env = env and bridge = bridge and table = table and has = has and mx = mx and g = g and w = w]
    quiet_scan_present [OF assms] by (simp add: assms)

lemma gather_present_steps:
  assumes "gather_present env mx g w = (out, g', w')"
  obtains em g1 w1 dib g2 w2 sky where
    "engine_scan_present env ''em28xx'' (em28xx_board_table :: (unit, unit) em28xx_board list) True mx g w = (em, g1, w1)"
    "engine_scan_present env ''dib0700'' (dib0700_board_table :: (unit, unit) dib0700_board list) True
       (mx - int (length em)) g1 w1 = (dib, g2, w2)"
    "engine_scan_present env ''dvbsky'' (dvbsky_board_table :: (unit, unit) dvbsky_board list) True
       (mx - (int (length em) + int (length dib))) g2 w2 = (sky, g', w')"
    "out = em @ dib @ sky"
  using assms
  by (auto simp: gather_present_def Let_def dvb_em28xx_scan_present_def dvb_dib0700_scan_present_def
      dvb_dvbsky_scan_present_def split: prod.splits)

lemma gather_present_refs:
  assumes "gather_present env mx g w = (out, g', w')" "refs_inv g"
  shows "refs_inv g'"
  using assms by (elim gather_present_steps) (blast intro: scan_present_refs)

text \<open>The library references a scan keeps: one per device list it asks for, in \<open>usbq_enumerate\<close>, and one for the scan
  itself. \<open>unlisted\<close> are the references that no device list explains.\<close>

abbreviation device_lists :: "wire \<Rightarrow> int" where
  "device_lists w \<equiv> int (count_list w Device_List)"

definition unlisted :: "usbq_lib \<Rightarrow> wire \<Rightarrow> int" where
  "unlisted g w = g_init_refcount g - device_lists w"

lemma init_unlisted:
  "usbq_init env g w = (rc, g', w') \<Longrightarrow> unlisted g' w' = unlisted g w + (if rc = 0 then 1 else 0)"
  by (auto simp: usbq_init_def unlisted_def ask_def Let_def split: if_splits)

lemma enumerate_unlisted: "usbq_enumerate env v mx g w = (n, ds, g', w') \<Longrightarrow> unlisted g' w' = unlisted g w"
  by (auto simp: usbq_enumerate_def Let_def ask_def unlisted_def dest!: init_unlisted split: if_splits prod.splits)

lemma scan_ids_unlisted: "scan_ids env bridge b mx vs out g w = (out', g', w') \<Longrightarrow> unlisted g' w' = unlisted g w"
proof (induction vs arbitrary: out g w)
  case (Cons v vs)
  obtain n ds g1 w1 where e: "usbq_enumerate env (Some v) 16 g w = (n, ds, g1, w1)"
    by (cases "usbq_enumerate env (Some v) 16 g w")
  show ?case using Cons enumerate_unlisted [OF e] by (auto simp: e Let_def split: if_splits)
qed simp

lemma scan_boards_unlisted: "scan_boards env bridge mx bs out g w = (out', g', w') \<Longrightarrow> unlisted g' w' = unlisted g w"
proof (induction bs arbitrary: out g w)
  case (Cons b bs)
  obtain o1 g1 w1 where e: "scan_ids env bridge b mx (b_vidpids b) out g w = (o1, g1, w1)"
    by (cases "scan_ids env bridge b mx (b_vidpids b) out g w")
  show ?case using Cons scan_ids_unlisted [OF e] by (auto simp: e split: if_splits)
qed simp

lemma scan_present_unlisted:
  assumes "engine_scan_present env bridge table has mx g w = (out, g', w')"
  shows "unlisted g' w' = unlisted g w + (if has \<and> 0 < mx \<and> fst (usbq_init env g w) = 0 then 1 else 0)"
proof -
  obtain rc g1 w1 where i: "usbq_init env g w = (rc, g1, w1)" by (cases "usbq_init env g w")
  show ?thesis
  proof (cases "has \<and> 0 < mx")
    case False
    then have "g' = g" "w' = w" using assms by (auto simp: engine_scan_present_def split: if_split_asm)
    then show ?thesis using False by auto
  next
    case True
    show ?thesis
    proof (cases "rc = 0")
      case up: True
      then have "scan_boards env bridge mx table [] g1 w1 = (out, g', w')"
        using assms True i by (simp add: engine_scan_present_def)
      from scan_boards_unlisted [OF this] show ?thesis using init_unlisted [OF i] True up i by simp
    next
      case False
      then show ?thesis using assms True i init_unlisted [OF i] by (simp add: engine_scan_present_def)
    qed
  qed
qed

lemma init_again: "0 < g_init_refcount g \<Longrightarrow> fst (usbq_init env g w) = 0"
  by (simp add: usbq_init_def)

text \<open>One presence scan after another: the rows add up, and so do the references.\<close>

lemma gather_present_effect:
  assumes r: "gather_present env mx g w = (out, g', w')"
  shows "int (length out) \<le> max 0 mx \<and> list_all detected_ok out \<and> quiet w w' \<and> evt_refcount g' = evt_refcount g \<and>
    (\<exists>scans. g_init_refcount g' = g_init_refcount g + scans + (device_lists w' - device_lists w) \<and>
       0 \<le> scans \<and> scans \<le> 3 \<and>
       (0 < mx \<and> 0 \<le> g_init_refcount g \<and> fst (usbq_init env g w) = 0 \<longrightarrow>
          1 \<le> scans \<and> (int (length out) < mx \<longrightarrow> scans = 3)))"
proof -
  obtain em g1 w1 dib g2 w2 sky where steps:
    "engine_scan_present env ''em28xx'' (em28xx_board_table :: (unit, unit) em28xx_board list) True mx g w = (em, g1, w1)"
    "engine_scan_present env ''dib0700'' (dib0700_board_table :: (unit, unit) dib0700_board list) True
       (mx - int (length em)) g1 w1 = (dib, g2, w2)"
    "engine_scan_present env ''dvbsky'' (dvbsky_board_table :: (unit, unit) dvbsky_board list) True
       (mx - (int (length em) + int (length dib))) g2 w2 = (sky, g', w')"
    "out = em @ dib @ sky"
    by (rule gather_present_steps [OF r])
  note rows = scan_rows [OF steps(1)] scan_rows [OF steps(2)] scan_rows [OF steps(3)]
  note un = scan_present_unlisted [OF steps(1)] scan_present_unlisted [OF steps(2)] scan_present_unlisted [OF steps(3)]
  have "list_all detected_ok out"
    using rows by (auto simp: steps(4) list_all_iff detected_ok_def)
  moreover have "int (length out) \<le> max 0 mx" using rows by (auto simp: steps(4) max_def split: if_splits)
  moreover have "quiet w w'" using rows quiet_trans by blast
  moreover have "evt_refcount g' = evt_refcount g" using rows by simp
  moreover define scans where "scans = unlisted g' w' - unlisted g w"
  have "0 \<le> scans" "scans \<le> 3" using un by (auto simp: scans_def)
  moreover have "1 \<le> scans \<and> (int (length out) < mx \<longrightarrow> scans = 3)"
    if up: "0 < mx" "0 \<le> g_init_refcount g" "fst (usbq_init env g w) = 0"
  proof -
    have le: "g_init_refcount g1 \<le> g_init_refcount g2" using rows(2) by (auto split: if_splits)
    have g1: "0 < g_init_refcount g1" using rows(1) up by simp
    then have g2: "0 < g_init_refcount g2" using le by simp
    have "scans = 1 + (if 0 < mx - int (length em) then 1 else 0)
        + (if 0 < mx - (int (length em) + int (length dib)) then 1 else 0)"
      using un up init_again [OF g1, of env w1] init_again [OF g2, of env w2] by (simp add: scans_def)
    then show ?thesis by (simp add: steps(4))
  qed
  moreover have "g_init_refcount g' = g_init_refcount g + scans + (device_lists w' - device_lists w)"
    by (simp add: scans_def unlisted_def)
  ultimately show ?thesis by (intro conjI exI [of _ scans]) auto
qed

text \<open>C19: The listing of what is plugged in: at most as many rows as there is room for, over the three engines
  together, each a board of an engine's table under one of its ids and the engine's name. No device
  is opened or closed and the event thread is left alone. It is not free, though, and its cost is exact: the library is
  left with one reference more for each engine scanned and one more for each device list asked for on the way. With a
  library that comes up at least one engine is scanned, and all three unless the rows run out. Nothing ever gives these
  references back.\<close>
theorem gather_present_rows:
  "case gather_present env mx g w of
     (out, g', w') \<Rightarrow>
       int (length out) \<le> max 0 mx \<and> list_all detected_ok out \<and> quiet w w' \<and> evt_refcount g' = evt_refcount g \<and>
       (\<exists>scans. g_init_refcount g' = g_init_refcount g + scans + (device_lists w' - device_lists w) \<and>
          0 \<le> scans \<and> scans \<le> 3 \<and>
          (0 < mx \<and> 0 \<le> g_init_refcount g \<and> fst (usbq_init env g w) = 0 \<longrightarrow>
             1 \<le> scans \<and> (int (length out) < mx \<longrightarrow> scans = 3)))"
  using gather_present_effect [where env = env and mx = mx and g = g and w = w] by (auto split: prod.splits)

lemma gather_present_rows_witness:
  "case gather_present hotplug_host 16 usbq_lib_start [] of
     (out, g', w') \<Rightarrow> int (length out) \<le> 16 \<and> list_all detected_ok out \<and> 1 \<le> g_init_refcount g'"
proof -
  obtain out g' w' where r: "gather_present hotplug_host 16 usbq_lib_start [] = (out, g', w')"
    by (cases "gather_present hotplug_host 16 usbq_lib_start []")
  have "0 \<le> g_init_refcount usbq_lib_start" "fst (usbq_init hotplug_host usbq_lib_start []) = 0"
    by (simp_all add: usbq_lib_start_def usbq_init_def ask_def hotplug_host_def)
  moreover have "g_init_refcount usbq_lib_start = 0" by (simp add: usbq_lib_start_def)
  ultimately show ?thesis
    using gather_present_rows [where env = hotplug_host and mx = 16 and g = usbq_lib_start and w = "[]"] by (auto simp: r)
qed

subsection \<open>What a watch gives back\<close>

lemma quiet_deliver: "hotplug_deliver es hp w = (hp', w') \<Longrightarrow> quiet w w'"
proof (induction es arbitrary: hp w)
  case (Cons e es)
  obtain hp1 w1 where c: "hotplug_cb (fst e) (snd e) hp w = (hp1, w1)" by fastforce
  then have "quiet w w1" by (auto simp: hotplug_cb_eq wake_writes_def split: option.splits)
  then show ?case using Cons c quiet_trans by auto
qed simp

lemma quiet_deliver_from: "hotplug_deliver es hp w = (hp', w') \<Longrightarrow> quiet w0 w \<Longrightarrow> quiet w0 w'"
  using quiet_deliver quiet_trans by blast

lemma quiet_hotplug_init: "dvb_hotplug_init env fd hp g w = (rc, hp', g', w') \<Longrightarrow> quiet w w'"
  by (auto simp: dvb_hotplug_init_def ask_def Let_def
      dest!: quiet_init [of _ _ _ _ _ _ w] quiet_evt(1) [of _ _ _ _ _ _ w] quiet_evt(2) [of _ _ _ _ w]
        quiet_shutdown [of _ _ _ _ w] quiet_deliver_from [of _ _ _ _ _ w]
      split: if_splits prod.splits)

lemma quiet_hotplug_shutdown: "dvb_hotplug_shutdown hp g w = (hp', g', w') \<Longrightarrow> quiet w w'"
  by (auto simp: dvb_hotplug_shutdown_def Let_def
      dest!: quiet_evt(2) [of _ _ _ _ w] quiet_shutdown [of _ _ _ _ w] split: if_splits prod.splits)

lemma hotplug_stopped:
  assumes "refs_inv g" "hp_initialized hp" "hp_acquired_evt hp" "0 < g_init_refcount g" "0 < evt_refcount g"
    "dvb_hotplug_shutdown hp g w = (hp', g', w')"
  shows "refs_inv g' \<and> refs g' = (g_init_refcount g - 1, evt_refcount g - 1) \<and> \<not> hp_initialized hp'"
proof -
  let ?w = "w @ [Hotplug_Deregister (hp_cb_handle hp)]"
  obtain g1 w1 where e: "usbq_evt_release g ?w = (g1, w1)" by fastforce
  obtain g2 w2 where s: "usbq_shutdown g1 w1 = (g2, w2)" by fastforce
  have r: "refs_inv g1" "refs g1 = (g_init_refcount g, evt_refcount g - 1)"
    using usbq_evt_release_refs [OF assms(1,5) e] by simp_all
  then have "0 < g_init_refcount g1" "evt_refcount g1 = evt_refcount g - 1" "g_init_refcount g1 = g_init_refcount g"
    using assms(4) by (simp_all add: refs_def)
  moreover have "g' = g2" "\<not> hp_initialized hp'"
    using assms(2,3,6) e s by (auto simp: dvb_hotplug_shutdown_def Let_def hp_reset_queue_def)
  ultimately show ?thesis using usbq_shutdown_refs [OF r(1) _ s] by simp
qed

lemma hotplug_init_inv:
  assumes "hp_inv hp" "dvb_hotplug_init env fd hp g w = (0, hp', g', w')"
  shows "hp_inv hp'"
proof -
  let ?hp = "(hp_reset_queue hp)\<lparr>hp_wake_fd := fd\<rparr>"
  obtain es v hp1 w1 where d: "hotplug_deliver es ?hp v = (hp1, w1)" and h: "hp_inv hp1 \<longrightarrow> hp_inv hp'"
    using assms(2) by (auto simp: dvb_hotplug_init_def ask_def Let_def split: if_splits prod.splits)
  show ?thesis using hotplug_deliver_spec [OF _ d] h hp_reset_queue_spec [OF assms(1)] by simp
qed

lemma quiet_watch_loop: "watch_loop se rs hp w out = (out', err, hp', w') \<Longrightarrow> quiet w w'"
proof (induction rs arbitrary: hp w out)
  case (Cons r rs)
  obtain hp1 w1 where d: "hotplug_deliver (wr_events r) hp w = (hp1, w1)" by fastforce
  show ?case using Cons d quiet_deliver [OF d] quiet_trans by (auto split: if_splits prod.splits)
qed simp

lemma deliver_off:
  "\<not> hp_initialized hp \<Longrightarrow> hotplug_deliver es hp w = (hp', w') \<Longrightarrow> \<not> hp_initialized hp'"
proof (induction es arbitrary: hp w)
  case (Cons e es)
  obtain hp1 w1 where c: "hotplug_cb (fst e) (snd e) hp w = (hp1, w1)" by fastforce
  then have "\<not> hp_initialized hp1" using Cons.prems(1) by (auto simp: hotplug_cb_eq split: option.splits)
  then show ?case using Cons.IH [of hp1 w1] Cons.prems(2) c by simp
qed simp

lemma watch_loop_off:
  "\<not> hp_initialized hp \<Longrightarrow> watch_loop se rs hp w out = (out', err, hp', w') \<Longrightarrow> \<not> hp_initialized hp'"
proof (induction rs arbitrary: hp w out)
  case (Cons r rs)
  obtain hp1 w1 where d: "hotplug_deliver (wr_events r) hp w = (hp1, w1)" by fastforce
  show ?case using Cons d deliver_off [OF Cons.prems(1) d] watch_drain_stop [of hp1]
    by (auto split: if_splits)
qed simp

text \<open>A watch that got past the start of the hotplug module (whether or not it started it): the stop gives
  back what the start took.\<close>

lemma watch_cycle:
  assumes g: "refs_inv g" and hp: "hp_inv hp" "\<not> hp_initialized hp"
    and start: "dvb_hotplug_init env fd hp g w = (rc, hp1, g1, w1)"
    and run: "watch_loop se rounds hp1 w1 out = (out', err, hp2, w2)"
    and stop: "dvb_hotplug_shutdown hp2 g1 w2 = (hp3, g2, w3)"
  shows "\<not> hp_initialized hp3 \<and> refs g2 = refs g"
proof (cases "rc = 0")
  case True
  note start = start [unfolded True]
  have s: "hp_initialized hp1" "hp_acquired_evt hp1" "refs_inv g1"
    "refs g1 = (g_init_refcount g + 1, evt_refcount g + 1)"
    using hotplug_started [OF g start] by simp_all
  have "hp_live hp1" using hotplug_init_inv [OF hp(1) start] s(1) by (simp add: hp_live_def)
  from watch_loop_live [OF this run] have h2: "hp_initialized hp2" "hp_acquired_evt hp2"
    using s by (simp_all add: hp_live_def)
  have "0 \<le> g_init_refcount g" "0 \<le> evt_refcount g"
    using g by (simp_all add: refs_inv_def lib_inv_def evt_inv_def)
  then show ?thesis using hotplug_stopped [OF s(3) h2 _ _ stop] s(4) by (simp add: refs_def)
next
  case False
  have "\<not> hp_initialized hp1 \<and> refs g1 = refs g"
    using hotplug_init_fails_clean [OF g start False hp(1)] hp(2) by simp
  then show ?thesis using watch_loop_off [OF _ run] stop by (simp add: dvb_hotplug_shutdown_def)
qed

text \<open>C17: However the watch ends (no pipe, no hotplug support, a failing registration, a failing poll, a
  signal), it opens no device, has closed both ends of its pipe, leaves the hotplug module stopped
  and the event thread's references as they were; the references on the library are back to what the
  first listing left, whose own the tool never returns.\<close>
theorem watch_gives_back:
  assumes g: "refs_inv g" and hp: "hp_inv hp" "\<not> hp_initialized hp"
    and listing: "print_detected env g w = (prc, pout, g1, w1)"
    and run: "watch_mode env se rounds hp g w = (rc, out, err, hp', g', w')"
  shows "rc \<in> {0, 1} \<and> \<not> hp_initialized hp' \<and> refs g' = refs g1 \<and> evt_refcount g' = evt_refcount g \<and> quiet w w' \<and>
    (let r = env (w1 @ [Pipe]) in
     0 \<le> r_rc r \<longrightarrow> (\<exists>v. w' = w1 @ [Pipe] @ v @ [Close_Fd (fst (r_fds r)), Close_Fd (snd (r_fds r))]))"
proof -
  obtain present where p: "gather_present env MAX_BOARDS g w = (present, g1, w1)"
    using listing by (auto simp: print_detected_def Let_def split: prod.splits if_splits)
  have g1: "refs_inv g1" "evt_refcount g1 = evt_refcount g" "quiet w w1"
    using gather_present_refs [OF p g] gather_present_effect [OF p] by simp_all
  let ?out = "pout @ ''Watching for hotplug events (Ctrl-C to exit):'' @ newline"
  let ?r = "env (w1 @ [Pipe])"
  let ?cl = "[Close_Fd (fst (r_fds ?r)), Close_Fd (snd (r_fds ?r))]"
  show ?thesis
  proof (cases "r_rc ?r < 0")
    case True
    then show ?thesis using run listing g1 hp by (auto simp: watch_mode_def ask_def refs_def)
  next
    case False
    let ?w = "w1 @ [Pipe] @ [Set_Nonblock (fst (r_fds ?r)), Set_Nonblock (snd (r_fds ?r))]"
    obtain irc hp2 g2 w2 where i: "dvb_hotplug_init env (snd (r_fds ?r)) hp g1 ?w = (irc, hp2, g2, w2)"
      by (metis prod_cases4)
    have q: "quiet ?w w2" by (rule quiet_hotplug_init [OF i])
    have qw: "quiet w ?w" using g1(3) by (rule quiet_append) simp
    have fin: ?thesis
      if "rc \<in> {0, 1}" "w' = w3 @ ?cl" "quiet ?w w3" "\<not> hp_initialized hp'" "refs g' = refs g1" for w3
    proof -
      have "\<exists>v. w3 = ?w @ v" using that(3) by (auto simp: quiet_def)
      moreover have "quiet w w'" using quiet_trans [OF qw that(3)] that(2) by simp
      ultimately show ?thesis using that g1(2) by (auto simp: refs_def Let_def)
    qed
    show ?thesis
    proof (cases "irc < 0")
      case True
      have "\<not> hp_initialized hp2 \<and> refs g2 = refs g1" 
        using hotplug_init_fails_clean [OF g1(1) i _ hp(1)] True hp(2) by simp
      then show ?thesis
        using run listing False True i q by (intro fin [of w2]) (auto simp: watch_mode_def ask_def Let_def case_prod_unfold)
    next
      case up: False
      obtain out3 err3 hp3 w3 where l: "watch_loop se rounds hp2 w2 ?out = (out3, err3, hp3, w3)" by (metis prod_cases4)
      obtain hp4 g4 w4 where st: "dvb_hotplug_shutdown hp3 g2 w3 = (hp4, g4, w4)" by (metis prod_cases3)
      have r: "rc = 0" "hp' = hp4" "g' = g4" "w' = w4 @ ?cl"
        using run listing False up i l st by (auto simp: watch_mode_def ask_def Let_def case_prod_unfold)
      have q4: "quiet ?w w4" using q quiet_watch_loop [OF l] quiet_hotplug_shutdown [OF st] quiet_trans by blast
      show ?thesis using watch_cycle [OF g1(1) hp i l st] r q4 by (intro fin [of w4]) auto
    qed
  qed
qed

lemma watch_gives_back_witness:
  "case watch_mode hotplug_host (\<lambda>_. []) [\<lparr>wr_poll = 1, wr_events = []\<rparr>] hp_start usbq_lib_start [] of
     (rc, out, err, hp', g', w') \<Rightarrow> \<not> hp_initialized hp' \<and> evt_refcount g' = 0 \<and> quiet [] w'"
proof -
  obtain prc pout g1 w1 where l: "print_detected hotplug_host usbq_lib_start [] = (prc, pout, g1, w1)"
    by (metis prod_cases4)
  obtain rc out err hp' g' w' where run:
    "watch_mode hotplug_host (\<lambda>_. []) [\<lparr>wr_poll = 1, wr_events = []\<rparr>] hp_start usbq_lib_start [] = (rc, out, err, hp', g', w')"
    by (metis prod_cases6)
  show ?thesis
    using watch_gives_back [OF refs_inv_start hp_inv_start _ l run]
    by (simp add: run) (simp add: hp_start_def usbq_lib_start_def)
qed

end
