(* ===== verification/Dump_Main.thy ===== *)
theory Dump_Main
  imports Dvb_Devices Pid_Dump
begin

text \<open>
  \<open>main\<close> of the stream dumper (\<open>tools/dvb_pid_dump.c\<close>): its arguments, the discovery over the three
  engines, the tune, the wait for a lock, the streaming loop around the framing of \<open>Pid_Dump\<close>, and the
  shutdown. The three engines share the library and the wire, which are handed to the engine being
  called and taken back from it.

  What a run writes to standard error is part of its result: the messages of the streaming loop are in the dump's
  log, the others are put around them. The clock and the sleeps are requests of the wire; a loop that waits on
  them is a partial function, \<open>None\<close> when it does not end.
\<close>

subsection \<open>The engines together\<close>

record ('c, 'f, 'd, 'g, 'e, 'h) engines =
  es_em28xx :: "(em28xx_dev, 'c, 'f) engine"
  es_dib0700 :: "(dib0700_dev, 'd, 'g) engine"
  es_dvbsky :: "(dvbsky_dev, 'e, 'h) engine"
  es_lib :: usbq_lib
  es_wire :: wire

record ('c, 'f, 'd, 'g, 'e, 'h) engine_envs =
  ev_em28xx :: "((em28xx_dev, 'c) chip_state, 'f) engine_env"
  ev_dib0700 :: "((dib0700_dev, 'd) chip_state, 'g) engine_env"
  ev_dvbsky :: "((dvbsky_dev, 'e) chip_state, 'h) engine_env"
  ev_files :: file_system
  ev_firmware_dir :: "string option"

definition at_em28xx where "at_em28xx T = (es_em28xx T)\<lparr>en_lib := es_lib T, en_wire := es_wire T\<rparr>"
definition at_dib0700 where "at_dib0700 T = (es_dib0700 T)\<lparr>en_lib := es_lib T, en_wire := es_wire T\<rparr>"
definition at_dvbsky where "at_dvbsky T = (es_dvbsky T)\<lparr>en_lib := es_lib T, en_wire := es_wire T\<rparr>"

definition put_em28xx where
  "put_em28xx W T = T\<lparr>es_em28xx := W, es_lib := en_lib W, es_wire := en_wire W\<rparr>"
definition put_dib0700 where
  "put_dib0700 W T = T\<lparr>es_dib0700 := W, es_lib := en_lib W, es_wire := en_wire W\<rparr>"
definition put_dvbsky where
  "put_dvbsky W T = T\<lparr>es_dvbsky := W, es_lib := en_lib W, es_wire := en_wire W\<rparr>"

lemmas switches = at_em28xx_def at_dib0700_def at_dvbsky_def put_em28xx_def put_dib0700_def put_dvbsky_def

definition discover_all where
  "discover_all V mx T = do {
     (n, hs, W) \<leftarrow> dvb_em28xx_discover_all (ev_em28xx V) True mx (at_em28xx T);
     let T = put_em28xx W T;
     (m, hs2, X) \<leftarrow> dvb_dib0700_discover_all (ev_dib0700 V) (ev_files V) (ev_firmware_dir V) True (mx - n) (at_dib0700 T);
     let T = put_dib0700 X T;
     (k, hs3, Y) \<leftarrow> dvb_dvbsky_discover_all (ev_dvbsky V) True (mx - (n + m)) (at_dvbsky T);
     Some (n + m + k, hs @ hs2 @ hs3, put_dvbsky Y T)
   }"

definition shutdown_all where
  "shutdown_all V T = do {
     Y \<leftarrow> dvb_dvbsky_shutdown (ev_dvbsky V) (at_dvbsky T);
     let T = put_dvbsky Y T;
     X \<leftarrow> dvb_dib0700_shutdown (ev_dib0700 V) (at_dib0700 T);
     let T = put_dib0700 X T;
     W \<leftarrow> dvb_em28xx_shutdown (ev_em28xx V) (at_em28xx T);
     Some (put_em28xx W T)
   }"

definition list_handles :: "dvb_frontend_handle list \<Rightarrow> string" where
  "list_handles hs =
     ''discovered '' @ dec_string (length hs) @ '' frontend(s):'' @ newline @
     concat (map (\<lambda>(i, h). ''  ['' @ dec_string i @ ''] '' @ fh_display_name h @ newline) (enumerate 0 hs))"

subsection \<open>Handles\<close>

text \<open>A call through a handle, \<open>h->ops->op(h->engine_state, ...)\<close>: \<open>ops\<close> is the vtable of one of the engines, and
  \<open>engine_state\<close> the address of one of its frontends. An engine puts the devices it opens at the front of its list.
  There is no result for the address of no frontend.\<close>

definition handle_call :: "frontend_addr
    \<Rightarrow> ((('b, 'c) chip_state, 'fe) frontend option \<times> ('b, 'c) chip_state
        \<Rightarrow> ('r \<times> (('b, 'c) chip_state, 'fe) frontend option \<times> ('b, 'c) chip_state) option)
    \<Rightarrow> ('b, 'c, 'fe) engine \<Rightarrow> ('r \<times> ('b, 'c, 'fe) engine) option" where
  "handle_call state f W =
     (case dev_frontend W state of
        None \<Rightarrow> None
      | Some (k, i) \<Rightarrow>
          let d = en_devices W ! k
          in do {
            (r, so, s) \<leftarrow> f (Some (ed_frontends d ! i), ((ed_bridge d, en_wire W), en_chip W));
            Some (r, case so of
                       None \<Rightarrow> W
                     | Some fe \<Rightarrow>
                         W\<lparr>en_devices := (en_devices W)[k := d\<lparr>ed_bridge := bridge_of s,
                                                             ed_frontends := (ed_frontends d)[i := fe]\<rparr>],
                           en_chip := snd s, en_wire := wire_of s\<rparr>)
          })"

definition call_handle where
  "call_handle h f g e T =
     (case fh_ops h of
        Em28xx \<Rightarrow> do { (r, W) \<leftarrow> handle_call (fh_engine_state h) f (at_em28xx T); Some (r, put_em28xx W T) }
      | Dib0700 \<Rightarrow> do { (r, X) \<leftarrow> handle_call (fh_engine_state h) g (at_dib0700 T); Some (r, put_dib0700 X T) }
      | Dvbsky \<Rightarrow> do { (r, Y) \<leftarrow> handle_call (fh_engine_state h) e (at_dvbsky T); Some (r, put_dvbsky Y T) })"

definition handle_tune where
  "handle_tune V h p =
     call_handle h (vt_tune (k_em28xx_vtable (ev_em28xx V)) p) (vt_tune (k_dib0700_vtable (ev_dib0700 V)) p)
       (vt_tune (k_dvbsky_vtable (ev_dvbsky V)) p)"

text \<open>An operation that also hands something back.\<close>

definition with_out :: "('s \<Rightarrow> (int \<times> 'o \<times> 's) option) \<Rightarrow> 's \<Rightarrow> ((int \<times> 'o) \<times> 's) option" where
  "with_out f s = map_option (\<lambda>(rc, out, s). ((rc, out), s)) (f s)"

definition handle_get_status where
  "handle_get_status V h out =
     call_handle h (with_out (vt_get_status (k_em28xx_vtable (ev_em28xx V)) out))
       (with_out (vt_get_status (k_dib0700_vtable (ev_dib0700 V)) out))
       (with_out (vt_get_status (k_dvbsky_vtable (ev_dvbsky V)) out))"

definition handle_read_ts where
  "handle_read_ts V h buf n t =
     call_handle h (with_out (vt_read_ts (k_em28xx_vtable (ev_em28xx V)) buf n t))
       (with_out (vt_read_ts (k_dib0700_vtable (ev_dib0700 V)) buf n t))
       (with_out (vt_read_ts (k_dvbsky_vtable (ev_dvbsky V)) buf n t))"

subsection \<open>Waiting and streaming\<close>

definition now_ms :: "host \<Rightarrow> ('c, 'f, 'd, 'g, 'e, 'h) engines \<Rightarrow> int \<times> ('c, 'f, 'd, 'g, 'e, 'h) engines" where
  "now_ms env T = (let (r, w) = ask env Clock_ms (es_wire T) in (r_rc r, T\<lparr>es_wire := w\<rparr>))"

definition sleep_100ms :: "('c, 'f, 'd, 'g, 'e, 'h) engines \<Rightarrow> ('c, 'f, 'd, 'g, 'e, 'h) engines" where
  "sleep_100ms T = T\<lparr>es_wire := es_wire T @ [Sleep_us 100000]\<rparr>"

partial_function (option) lock_wait where
  "lock_wait V h deadline st T =
     (let (now, T) = now_ms (en_host (ev_em28xx V)) T
      in if now < deadline then do {
           ((rc, out), T) \<leftarrow> handle_get_status V h (Some st) T;
           let st = the out;
           if rc = 0 \<and> st_has_lock st then Some (st, T)
           else lock_wait V h deadline st (sleep_100ms T)
         }
         else Some (st, T))"

partial_function (option) dump_stream where
  "dump_stream V h flt wr t_end timeout d T =
     (let (now, T) = now_ms (en_host (ev_em28xx V)) T
      in if now < t_end then do {
           let want = read_want d;
           ((got, buf), T) \<leftarrow> handle_read_ts V h (Some (replicate want 0)) want timeout T;
           if got < 0 then Some (d\<lparr>du_log := du_log d @ ''read_ts error: '' @ dec_int got @ newline\<rparr>, T)
           else if got = 0 then dump_stream V h flt wr t_end timeout d T
           else
             let (failed, d) = dump_round flt wr (take (nat got) (the buf)) d
             in if failed then Some (d, T) else dump_stream V h flt wr t_end 100 d T
         }
         else Some (d, T))"

subsection \<open>Arguments\<close>

text \<open>\<open>(uint32_t)strtoul(s, NULL, 0)\<close> with a 64-bit \<open>long\<close>: out of range is \<open>ULONG_MAX\<close>.\<close>

definition strtoul0 :: "string \<Rightarrow> u32" where
  "strtoul0 s =
     (case strtol0 s of
        None \<Rightarrow> 0
      | Some (v, _) \<Rightarrow> word_of_int (if \<bar>v\<bar> < 2 ^ 64 then v else 2 ^ 64 - 1))"

text \<open>\<open>atoi\<close>, as the C library has it: \<open>strtol\<close> in base 10, cut to an \<open>int\<close>.\<close>

definition atoi :: "string \<Rightarrow> int" where
  "atoi s =
     (let (neg, s) = take_sign (dropWhile is_blank s);
          n = int (fst (digits_in 10 0 s));
          v = (if neg then - n else n)
      in sint (word_of_int (max (- (2 ^ 63)) (min (2 ^ 63 - 1) v)) :: 32 word))"

datatype dump_command =
    Usage
  | List_Devices
  | Bad_Argument string \<comment> \<open>the message\<close>
  | Stream u32 u32 u32 pid_filter int int \<comment> \<open>system, frequency, bandwidth, PIDs, seconds, index\<close>

text \<open>The arguments after the program's name.\<close>

definition dump_command :: "string list \<Rightarrow> dump_command" where
  "dump_command args =
     (case args of
        [] \<Rightarrow> Usage
      | a # rest \<Rightarrow>
          if a = ''--list'' then (if rest \<noteq> [] then Usage else List_Devices)
          else if length args < 3 \<or> length args > 6 then Usage
          else
            (case parse_delsys a of
               None \<Rightarrow> Bad_Argument (''unknown delsys '' @ quoted a @ newline)
             | Some delsys \<Rightarrow>
                 (case parse_pid_filter (Some (if length args \<ge> 4 then args ! 3 else ''0'')) of
                    None \<Rightarrow> Bad_Argument (''bad pids argument: '' @ quoted (args ! 3) @ newline)
                  | Some flt \<Rightarrow>
                      Stream delsys (strtoul0 (args ! 1)) (strtoul0 (args ! 2)) flt
                        (if length args \<ge> 5 then atoi (args ! 4) else 5)
                        (if length args \<ge> 6 then atoi (args ! 5) else 0))))"

subsection \<open>\<open>main\<close>\<close>

definition MAX_HANDLES :: int where "MAX_HANDLES = 8"

text \<open>The label \<open>done\<close>. The result is the exit code, the packets handed to \<open>write\<close> with their counters, what was written to
  standard error (\<open>err\<close> before the dump's own log) and the engines.\<close>

definition dump_done where
  "dump_done V ok d err T = do {
     T \<leftarrow> shutdown_all V T;
     Some (if ok then 0 else 1 :: int, d, err @ du_log d, T)
   }"

definition no_devices_text :: string where
  "no_devices_text = ''no supported DVB devices found'' @ newline"

definition list_mode where
  "list_mode V T = do {
     (n, hs, T) \<leftarrow> discover_all V MAX_HANDLES T;
     dump_done V (n > 0) dump_start (if n = 0 then no_devices_text else list_handles hs) T
   }"

definition dump_success :: "dump \<Rightarrow> bool" where
  "dump_success d \<longleftrightarrow> du_matched d > 0 \<and> du_bad_sync d * 100 < du_total d"

text \<open>A message into the log.\<close>

definition says :: "string \<Rightarrow> dump \<Rightarrow> dump" where
  "says msg d = d\<lparr>du_log := du_log d @ msg\<rparr>"

definition dump_summary :: "pid_filter \<Rightarrow> int \<Rightarrow> dump \<Rightarrow> string" where
  "dump_summary flt seconds d =
     summary_text (du_total d) (du_matched d) (du_bad_sync d) (filter_repr flt) seconds"

definition stream_from where
  "stream_from V h flt wr seconds d T =
     (let (r, w) = ask (en_host (ev_em28xx V)) Alloc (es_wire T);
          T = T\<lparr>es_wire := w\<rparr>
      in if r_rc r = 0 then Some (False, says (''OOM'' @ newline) d, T)
         else
           let (now, T) = now_ms (en_host (ev_em28xx V)) T
           in do {
             (d, T) \<leftarrow> dump_stream V h flt wr (now + seconds * 1000) 1000 d T;
             Some (dump_success d, says (dump_summary flt seconds d) d, T)
           })"

definition tune_and_stream where
  "tune_and_stream V h p flt wr seconds T = do {
     (rc, T) \<leftarrow> handle_tune V h (Some p) T;
     if rc < 0 then Some (False, says (''tune failed: '' @ dec_int rc @ newline) dump_start, T)
     else do {
       let (now, T) = now_ms (en_host (ev_em28xx V)) T;
       (st, T) \<leftarrow> lock_wait V h (now + 3000) no_status T;
       if \<not> st_has_lock st then Some (False, says (''no lock after 3 s'' @ newline) dump_start, T)
       else stream_from V h flt wr seconds (says (locked_text (st_cnr_db_x1000 st)) dump_start) T
     }
   }"

definition dump_tune :: "u32 \<Rightarrow> u32 \<Rightarrow> u32 \<Rightarrow> dvb_tune_params" where
  "dump_tune delsys freq bw =
     \<lparr>tp_delsys = delsys, tp_freq_hz = freq, tp_bandwidth_hz = bw, tp_symbol_rate = 6900000, tp_stream_id = -1\<rparr>"

definition using_text :: "int \<Rightarrow> dvb_frontend_handle \<Rightarrow> string" where
  "using_text idx h = ''using ['' @ dec_int idx @ ''] '' @ fh_display_name h @ newline"

definition pid_dump_main where
  "pid_dump_main V argv0 args wr T =
     (case dump_command args of
        Usage \<Rightarrow> Some (2 :: int, dump_start, dump_usage argv0, T)
      | Bad_Argument msg \<Rightarrow> Some (2, dump_start, msg, T)
      | List_Devices \<Rightarrow> list_mode V T
      | Stream delsys freq bw flt seconds idx \<Rightarrow> do {
          (n, hs, T) \<leftarrow> discover_all V MAX_HANDLES T;
          if n = 0 then dump_done V False dump_start no_devices_text T
          else if idx < 0 \<or> idx \<ge> n then dump_done V False dump_start (list_handles hs @ index_text idx n) T
          else do {
            (ok, d, T) \<leftarrow> tune_and_stream V (hs ! nat idx) (dump_tune delsys freq bw) flt wr seconds T;
            dump_done V ok d (list_handles hs @ using_text idx (hs ! nat idx)) T
          }
        })"

subsection \<open>The engines side by side\<close>

text \<open>The devices' handles of all three engines, and the references on the event thread that are none of
  theirs.\<close>

definition all_handles :: "('c, 'f, 'd, 'g, 'e, 'h) engines \<Rightarrow> nat multiset" where
  "all_handles T = dev_handles (es_em28xx T) + dev_handles (es_dib0700 T) + dev_handles (es_dvbsky T)"

definition outside :: "('c, 'f, 'd, 'g, 'e, 'h) engines \<Rightarrow> int" where
  "outside T = evt_refcount (es_lib T)
     - (dev_streams (es_em28xx T) + dev_streams (es_dib0700 T) + dev_streams (es_dvbsky T))"

definition devices_ok :: "('b, 'c, 'fe) engine \<Rightarrow> bool" where
  "devices_ok W \<longleftrightarrow>
     (en_devices W \<noteq> [] \<longrightarrow> en_inited W) \<and>
     list_all (\<lambda>d. ed_frontends d \<noteq> [] \<and> list_all frontend_live (ed_frontends d)) (en_devices W)"

definition engines_inv :: "('c, 'f, 'd, 'g, 'e, 'h) engines \<Rightarrow> bool" where
  "engines_inv T \<longleftrightarrow>
     0 \<le> outside T \<and> devices_ok (es_em28xx T) \<and> devices_ok (es_dib0700 T) \<and> devices_ok (es_dvbsky T)"

definition tool_step :: "host \<Rightarrow> ('c, 'f, 'd, 'g, 'e, 'h) engines \<Rightarrow> ('c, 'f, 'd, 'g, 'e, 'h) engines \<Rightarrow> bool" where
  "tool_step env T T' \<longleftrightarrow>
     held env (es_wire T) (es_wire T') (all_handles T) (all_handles T') \<and> outside T' = outside T \<and> engines_inv T'"

lemma tool_step_refl: "engines_inv T \<Longrightarrow> tool_step env T T"
  by (simp add: tool_step_def)

lemma tool_step_trans: "tool_step env T T1 \<Longrightarrow> tool_step env T1 T2 \<Longrightarrow> tool_step env T T2"
  using held_trans by (auto simp: tool_step_def)

lemma held_frame: "held env w w' M M' \<Longrightarrow> held env w w' (M + F) (M' + F)"
  by (auto simp: held_def ac_simps)

lemma engine_inv_iff: "engine_inv W \<longleftrightarrow> 0 \<le> spare W \<and> devices_ok W"
  by (auto simp: engine_inv_def devices_ok_def)

lemma at_same [simp]:
  "dev_handles (at_em28xx T) = dev_handles (es_em28xx T)" "dev_streams (at_em28xx T) = dev_streams (es_em28xx T)"
  "devices_ok (at_em28xx T) = devices_ok (es_em28xx T)" "en_wire (at_em28xx T) = es_wire T" "en_lib (at_em28xx T) = es_lib T"
  "dev_handles (at_dib0700 T) = dev_handles (es_dib0700 T)" "dev_streams (at_dib0700 T) = dev_streams (es_dib0700 T)"
  "devices_ok (at_dib0700 T) = devices_ok (es_dib0700 T)" "en_wire (at_dib0700 T) = es_wire T" "en_lib (at_dib0700 T) = es_lib T"
  "dev_handles (at_dvbsky T) = dev_handles (es_dvbsky T)" "dev_streams (at_dvbsky T) = dev_streams (es_dvbsky T)"
  "devices_ok (at_dvbsky T) = devices_ok (es_dvbsky T)" "en_wire (at_dvbsky T) = es_wire T" "en_lib (at_dvbsky T) = es_lib T"
  by (simp_all add: switches dev_handles_def dev_streams_def devices_ok_def)

lemma at_inv:
  assumes "engines_inv T"
  shows "engine_inv (at_em28xx T)" "engine_inv (at_dib0700 T)" "engine_inv (at_dvbsky T)"
  using assms dev_streams_nonneg [of "es_em28xx T"] dev_streams_nonneg [of "es_dib0700 T"] dev_streams_nonneg [of "es_dvbsky T"]
  by (simp_all add: engine_inv_iff engines_inv_def outside_def spare_def)

text \<open>A step of one engine is a step of the three.\<close>

lemma put_steps:
  assumes T: "engines_inv T"
  shows "engine_step env {#} (at_em28xx T) {#} W \<Longrightarrow> engine_inv W \<Longrightarrow> tool_step env T (put_em28xx W T)"
    "engine_step env {#} (at_dib0700 T) {#} X \<Longrightarrow> engine_inv X \<Longrightarrow> tool_step env T (put_dib0700 X T)"
    "engine_step env {#} (at_dvbsky T) {#} Y \<Longrightarrow> engine_inv Y \<Longrightarrow> tool_step env T (put_dvbsky Y T)"
proof -
  show "tool_step env T (put_em28xx W T)" if "engine_step env {#} (at_em28xx T) {#} W" "engine_inv W"
    using that T held_frame [of env "es_wire T" "en_wire W" "dev_handles (es_em28xx T)" "dev_handles W"
        "dev_handles (es_dib0700 T) + dev_handles (es_dvbsky T)"]
    by (auto simp: tool_step_def engine_step_def engines_inv_def engine_inv_iff all_handles_def outside_def spare_def
        put_em28xx_def ac_simps)
  show "tool_step env T (put_dib0700 X T)" if "engine_step env {#} (at_dib0700 T) {#} X" "engine_inv X"
    using that T held_frame [of env "es_wire T" "en_wire X" "dev_handles (es_dib0700 T)" "dev_handles X"
        "dev_handles (es_em28xx T) + dev_handles (es_dvbsky T)"]
    by (auto simp: tool_step_def engine_step_def engines_inv_def engine_inv_iff all_handles_def outside_def spare_def
        put_dib0700_def ac_simps)
  show "tool_step env T (put_dvbsky Y T)" if "engine_step env {#} (at_dvbsky T) {#} Y" "engine_inv Y"
    using that T held_frame [of env "es_wire T" "en_wire Y" "dev_handles (es_dvbsky T)" "dev_handles Y"
        "dev_handles (es_em28xx T) + dev_handles (es_dib0700 T)"]
    by (auto simp: tool_step_def engine_step_def engines_inv_def engine_inv_iff all_handles_def outside_def spare_def
        put_dvbsky_def ac_simps)
qed

subsection \<open>What the parts of \<open>main\<close> keep\<close>

text \<open>One host, and chip drivers that open and close no USB device.\<close>

definition envs_tame :: "('c, 'f, 'd, 'g, 'e, 'h) engine_envs \<Rightarrow> bool" where
  "envs_tame V \<longleftrightarrow>
     chips_tame (ev_em28xx V) \<and> chips_tame (ev_dib0700 V) \<and> chips_tame (ev_dvbsky V) \<and>
     en_host (ev_dib0700 V) = en_host (ev_em28xx V) \<and> en_host (ev_dvbsky V) = en_host (ev_em28xx V)"

abbreviation env_of :: "('c, 'f, 'd, 'g, 'e, 'h) engine_envs \<Rightarrow> host" where
  "env_of V \<equiv> en_host (ev_em28xx V)"

lemma discover_all_steps:
  assumes V: "envs_tame V" and T: "engines_inv T" and mx: "0 \<le> mx" and run: "discover_all V mx T = Some (n, hs, T')"
  shows "tool_step (env_of V) T T' \<and> 0 \<le> n \<and> n \<le> mx \<and> length hs = nat n"
proof -
  note V' = V [unfolded envs_tame_def]
  obtain n1 h1 W where e: "dvb_em28xx_discover_all (ev_em28xx V) True mx (at_em28xx T) = Some (n1, h1, W)"
    using run by (auto simp: discover_all_def bind_eq_Some_conv simp del: split_paired_Ex)
  define T1 where "T1 = put_em28xx W T"
  obtain n2 h2 X where d: "dvb_dib0700_discover_all (ev_dib0700 V) (ev_files V) (ev_firmware_dir V) True (mx - n1)
      (at_dib0700 T1) = Some (n2, h2, X)"
    using run e by (auto simp: discover_all_def T1_def Let_def bind_eq_Some_conv simp del: split_paired_Ex)
  define T2 where "T2 = put_dib0700 X T1"
  obtain n3 h3 Y where s: "dvb_dvbsky_discover_all (ev_dvbsky V) True (mx - (n1 + n2)) (at_dvbsky T2) = Some (n3, h3, Y)"
    and r: "n = n1 + n2 + n3" "hs = h1 @ h2 @ h3" "T' = put_dvbsky Y T2"
    using run e d by (auto simp: discover_all_def T1_def T2_def Let_def bind_eq_Some_conv simp del: split_paired_Ex)
  have p1: "publishes (env_of V) {#} (max 0 mx) (at_em28xx T) (n1, h1, W)"
    by (rule em28xx.discover_publishes [OF _ at_inv(1) [OF T]]) (use V' e in \<open>auto simp: dvb_em28xx_discover_all_def\<close>)
  have s1: "tool_step (env_of V) T T1" using p1 put_steps(1) [OF T] by (simp add: publishes_def T1_def)
  then have i1: "engines_inv T1" by (simp add: tool_step_def)
  have p2: "publishes (env_of V) {#} (max 0 (mx - n1)) (at_dib0700 T1) (n2, h2, X)"
    using dib0700.discover_publishes [OF _ at_inv(2) [OF i1]] V' d by (metis dvb_dib0700_discover_all_def)
  have s2: "tool_step (env_of V) T1 T2" using p2 put_steps(2) [OF i1] by (simp add: publishes_def T2_def)
  then have i2: "engines_inv T2" by (simp add: tool_step_def)
  have p3: "publishes (env_of V) {#} (max 0 (mx - (n1 + n2))) (at_dvbsky T2) (n3, h3, Y)"
    using dvbsky.discover_publishes [OF _ at_inv(3) [OF i2]] V' s by (metis dvb_dvbsky_discover_all_def)
  have s3: "tool_step (env_of V) T2 T'" using p3 put_steps(3) [OF i2] by (simp add: publishes_def r)
  have "0 \<le> n \<and> n \<le> mx \<and> length hs = nat n"
    using p1 p2 p3 mx by (auto simp: publishes_def r nat_add_distrib)
  then show ?thesis using tool_step_trans [OF tool_step_trans [OF s1 s2] s3] by simp
qed

lemma shutdown_all_steps:
  assumes V: "envs_tame V" and T: "engines_inv T" and run: "shutdown_all V T = Some T'"
  shows "tool_step (env_of V) T T' \<and> all_handles T' = {#} \<and> evt_refcount (es_lib T') = outside T \<and>
    \<not> en_inited (es_em28xx T') \<and> \<not> en_inited (es_dib0700 T') \<and> \<not> en_inited (es_dvbsky T')"
proof -
  note V' = V [unfolded envs_tame_def]
  obtain Y where y: "dvb_dvbsky_shutdown (ev_dvbsky V) (at_dvbsky T) = Some Y"
    using run by (auto simp: shutdown_all_def bind_eq_Some_conv)
  define T1 where "T1 = put_dvbsky Y T"
  obtain X where x: "dvb_dib0700_shutdown (ev_dib0700 V) (at_dib0700 T1) = Some X"
    using run y by (auto simp: shutdown_all_def T1_def Let_def bind_eq_Some_conv)
  define T2 where "T2 = put_dib0700 X T1"
  obtain W where w: "dvb_em28xx_shutdown (ev_em28xx V) (at_em28xx T2) = Some W" and r: "T' = put_em28xx W T2"
    using run y x by (auto simp: shutdown_all_def T1_def T2_def Let_def bind_eq_Some_conv)
  have k: "ek_capture (em28xx_kind e) = em28xx_capture e" "ek_capture (dib0700_kind e fs dir) = dib0700_capture e"
    "ek_capture (dvbsky_kind e) = dvbsky_capture e" for e fs dir
    by (simp_all add: kinds)
  have p1: "engine_step (env_of V) {#} (at_dvbsky T) {#} Y \<and> engine_inv Y \<and> en_devices Y = [] \<and> \<not> en_inited Y"
    using dvbsky.shutdown_spec [OF _ at_inv(3) [OF T], of "ev_dvbsky V" "en_host (ev_dvbsky V)" Y] V' y
    by (simp add: dvb_dvbsky_shutdown_def k)
  have s1: "tool_step (env_of V) T T1" using p1 put_steps(3) [OF T] by (simp add: T1_def)
  then have i1: "engines_inv T1" by (simp add: tool_step_def)
  have p2: "engine_step (env_of V) {#} (at_dib0700 T1) {#} X \<and> engine_inv X \<and> en_devices X = [] \<and> \<not> en_inited X"
    using dib0700.shutdown_spec [OF _ at_inv(2) [OF i1], of "ev_dib0700 V" "en_host (ev_dib0700 V)" "ev_files V" None X] V' x
    by (simp add: dvb_dib0700_shutdown_def k)
  have s2: "tool_step (env_of V) T1 T2" using p2 put_steps(2) [OF i1] by (simp add: T2_def)
  then have i2: "engines_inv T2" by (simp add: tool_step_def)
  have p3: "engine_step (env_of V) {#} (at_em28xx T2) {#} W \<and> engine_inv W \<and> en_devices W = [] \<and> \<not> en_inited W"
    using em28xx.shutdown_spec [OF _ at_inv(1) [OF i2], of "ev_em28xx V" "env_of V" W] V' w
    by (simp add: dvb_em28xx_shutdown_def k)
  have s3: "tool_step (env_of V) T2 T'" using p3 put_steps(1) [OF i2] by (simp add: r)
  have st: "tool_step (env_of V) T T'" using s1 s2 s3 tool_step_trans by blast
  have none: "en_devices (es_em28xx T') = []" "en_devices (es_dib0700 T') = []" "en_devices (es_dvbsky T') = []"
    using p1 p2 p3 by (simp_all add: r T1_def T2_def switches)
  then have "evt_refcount (es_lib T') = outside T"
    using st by (simp add: tool_step_def outside_def dev_streams_def)
  then show ?thesis
    using st none p1 p2 p3 by (simp add: all_handles_def dev_handles_def r T1_def T2_def switches)
qed

text \<open>A call on a handle.\<close>

definition op_keeps :: "((('b, 'c) chip_state, 'fe) frontend option \<times> ('b, 'c) chip_state
    \<Rightarrow> ('r \<times> (('b, 'c) chip_state, 'fe) frontend option \<times> ('b, 'c) chip_state) option) \<Rightarrow> bool" where
  "op_keeps f \<longleftrightarrow>
     (\<forall>w0 fe s. quiet w0 (wire_of s) \<longrightarrow> yields (\<lambda>(r, so, s'). kept w0 fe so s') (f (Some fe, s)))"

lemma op_keepsI:
  "(\<And>w0 fe s. quiet w0 (wire_of s) \<Longrightarrow> yields (\<lambda>(r, so, s'). kept w0 fe so s') (f (Some fe, s))) \<Longrightarrow> op_keeps f"
  unfolding op_keeps_def by blast

lemma op_keepsD:
  "op_keeps f \<Longrightarrow> quiet w0 (wire_of s) \<Longrightarrow> yields (\<lambda>(r, so, s'). kept w0 fe so s') (f (Some fe, s))"
  unfolding op_keeps_def by blast

lemma handle_call_step:
  assumes f: "op_keeps f" and W: "engine_inv W" and run: "handle_call x f W = Some (r, W')"
  shows "engine_step env {#} W {#} W' \<and> engine_inv W'"
proof -
  let ?f = "\<lambda>so s. map_option (\<lambda>(r, so, s). (so, s)) (f (so, s))"
  obtain k i where ki: "dev_frontend W x = Some (k, i)" using run by (auto simp: handle_call_def split: option.splits)
  have u: "use_frontend k i ?f W = Some W'"
    using run dev_frontend_SomeD [OF ki]
    by (auto simp: handle_call_def ki use_frontend_def Let_def bind_eq_Some_conv simp del: split_paired_Ex)
  have "yields (\<lambda>(so, s'). kept (en_wire W) fe so s') (?f (Some fe) s)" if "quiet (en_wire W) (wire_of s)" for fe s
    using op_keepsD [OF f that] by (simp add: case_prod_unfold)
  from use_frontend_spec [OF this W u] show ?thesis by blast
qed

lemma call_handle_step:
  assumes "op_keeps f" "op_keeps g" "op_keeps e" and T: "engines_inv T" and run: "call_handle h f g e T = Some (r, T')"
  shows "tool_step env T T'"
proof -
  show ?thesis
  proof (cases "fh_ops h")
    case Em28xx
    then obtain W where "handle_call (fh_engine_state h) f (at_em28xx T) = Some (r, W)" "T' = put_em28xx W T"
      using run by (auto simp: call_handle_def bind_eq_Some_conv)
    then show ?thesis using handle_call_step [OF assms(1) at_inv(1) [OF T]] put_steps(1) [OF T] by blast
  next
    case Dib0700
    then obtain X where "handle_call (fh_engine_state h) g (at_dib0700 T) = Some (r, X)" "T' = put_dib0700 X T"
      using run by (auto simp: call_handle_def bind_eq_Some_conv)
    then show ?thesis using handle_call_step [OF assms(2) at_inv(2) [OF T]] put_steps(2) [OF T] by blast
  next
    case Dvbsky
    then obtain Y where "handle_call (fh_engine_state h) e (at_dvbsky T) = Some (r, Y)" "T' = put_dvbsky Y T"
      using run by (auto simp: call_handle_def bind_eq_Some_conv)
    then show ?thesis using handle_call_step [OF assms(3) at_inv(3) [OF T]] put_steps(3) [OF T] by blast
  qed
qed

lemmas vtables = k_em28xx_vtable_def k_dib0700_vtable_def k_dvbsky_vtable_def engine_vtable_def

lemma vtable_tune_keeps:
  "chips_tame E \<Longrightarrow> op_keeps (vt_tune (k_em28xx_vtable E) p)"
  "chips_tame D \<Longrightarrow> op_keeps (vt_tune (k_dib0700_vtable D) p)"
  "chips_tame S \<Longrightarrow> op_keeps (vt_tune (k_dvbsky_vtable S) p)"
  using em28xx_tune_keeps [of E] dib_tune_keeps [of D] dvbsky_tune_keeps [of S]
  by (auto simp: vtables case_prod_unfold simp del: split_paired_All split_paired_Ex intro!: op_keepsI)

lemma vtable_get_status_keeps:
  "chips_tame E \<Longrightarrow> op_keeps (with_out (vt_get_status (k_em28xx_vtable E) out))"
  "chips_tame D \<Longrightarrow> op_keeps (with_out (vt_get_status (k_dib0700_vtable D) out))"
  "chips_tame S \<Longrightarrow> op_keeps (with_out (vt_get_status (k_dvbsky_vtable S) out))"
  using get_status_keeps [of E] get_status_keeps [of D] dvbsky_status_keeps [of S]
  by (auto simp: with_out_def vtables case_prod_unfold simp del: split_paired_All split_paired_Ex intro!: op_keepsI)

lemma vtable_read_ts_keeps:
  "op_keeps (with_out (vt_read_ts (k_em28xx_vtable E) buf n t))"
  "op_keeps (with_out (vt_read_ts (k_dib0700_vtable D) buf n t))"
  "op_keeps (with_out (vt_read_ts (k_dvbsky_vtable S) buf n t))"
  using read_ts_keeps
  by (auto simp: with_out_def vtables case_prod_unfold simp del: split_paired_All split_paired_Ex intro!: op_keepsI)

lemma handle_steps:
  assumes V: "envs_tame V" and T: "engines_inv T"
  shows "handle_tune V h p T = Some (rc, T') \<Longrightarrow> tool_step env T T'"
    "handle_get_status V h out T = Some (x, T') \<Longrightarrow> tool_step env T T'"
    "handle_read_ts V h buf n t T = Some (y, T') \<Longrightarrow> tool_step env T T'"
  using call_handle_step [OF _ _ _ T] vtable_tune_keeps vtable_get_status_keeps vtable_read_ts_keeps V
  by (metis (no_types, lifting) handle_tune_def envs_tame_def)
    (metis (no_types, lifting) call_handle_step [OF _ _ _ T] vtable_get_status_keeps V handle_get_status_def envs_tame_def,
     metis (no_types, lifting) call_handle_step [OF _ _ _ T] vtable_read_ts_keeps handle_read_ts_def)

lemma wire_step:
  assumes "engines_inv T" "quiet (es_wire T) w"
  shows "tool_step env T (T\<lparr>es_wire := w\<rparr>)"
  using assms held_quiet [OF assms(2)] by (simp add: tool_step_def all_handles_def outside_def engines_inv_def)

lemma now_step: "engines_inv T \<Longrightarrow> now_ms env' T = (t, T') \<Longrightarrow> tool_step env T T'"
  by (auto simp: now_ms_def ask_def intro!: wire_step)

lemma sleep_step: "engines_inv T \<Longrightarrow> tool_step env T (sleep_100ms T)"
  by (simp add: sleep_100ms_def wire_step)

lemma tool_step_inv: "tool_step env T T' \<Longrightarrow> engines_inv T'"
  by (simp add: tool_step_def)

subsection \<open>The loops\<close>

lemma lock_wait_step:
  assumes V: "envs_tame V" and T: "engines_inv T" and run: "lock_wait V h deadline st T = Some y"
  shows "tool_step (env_of V) T (snd y)"
proof -
  have "envs_tame V \<longrightarrow> engines_inv T \<longrightarrow> tool_step (env_of V) T (snd y)"
  proof (rule lock_wait.raw_induct
      [where P = "\<lambda>V h deadline st T y. envs_tame V \<longrightarrow> engines_inv T \<longrightarrow> tool_step (env_of V) T (snd y)", OF _ run],
      intro impI)
    fix wait and V :: "('a, 'b, 'c, 'd, 'e, 'f) engine_envs" and h deadline st and T y
    assume IH: "\<And>V h deadline st T y. wait V h deadline st T = Some y \<Longrightarrow>
        envs_tame V \<longrightarrow> engines_inv T \<longrightarrow> tool_step (env_of V) T (snd y)"
      and V: "envs_tame V" and T: "engines_inv T"
      and body: "(let (now, T) = now_ms (env_of V) T
      in if now < deadline then do {
           ((rc, out), T) \<leftarrow> handle_get_status V h (Some st) T;
           let st = the out;
           if rc = 0 \<and> st_has_lock st then Some (st, T)
           else wait V h deadline st (sleep_100ms T)
         }
         else Some (st, T)) = Some y"
    obtain now T1 where n: "now_ms (env_of V) T = (now, T1)" by fastforce
    note s1 = now_step [OF T n]
    have s2: "tool_step (env_of V) T T2" if "handle_get_status V h (Some st) T1 = Some (x, T2)" for x T2
      using tool_step_trans [OF s1 handle_steps(2) [OF V tool_step_inv [OF s1] that]] .
    have s3: "tool_step (env_of V) T (snd y)"
      if "handle_get_status V h (Some st) T1 = Some (x, T2)" "wait V h deadline st' (sleep_100ms T2) = Some y" for x st' T2
    proof -
      note s = tool_step_trans [OF s2 [OF that(1)] sleep_step [OF tool_step_inv [OF s2 [OF that(1)]]]]
      show ?thesis using tool_step_trans [OF s] IH [OF that(2)] V tool_step_inv [OF s] by blast
    qed
    show "tool_step (env_of V) T (snd y)"
      using body s1 by (auto simp: n Let_def bind_eq_Some_conv dest: s2 s3 split: if_splits)
  qed
  then show ?thesis using V T by simp
qed

text \<open>The dumps some chunks lead to.\<close>

definition reaches :: "pid_filter \<Rightarrow> (bytes list \<Rightarrow> int option) \<Rightarrow> dump \<Rightarrow> dump \<Rightarrow> bool" where
  "reaches flt wr d d' \<longleftrightarrow> (\<exists>gots log. (snd (dump_rounds flt wr gots d))\<lparr>du_log := log\<rparr> = d')"

lemma reaches_log [simp]: "reaches flt wr d (d\<lparr>du_log := log\<rparr>)"
  unfolding reaches_def by (rule exI [of _ "[]"]) auto

lemma reaches_refl [simp]: "reaches flt wr d d"
  using reaches_log [of flt wr d "du_log d"] by simp

lemma reaches_says [simp]: "reaches flt wr d (says msg d)"
  by (simp add: says_def)

lemma reaches_then_says:
  assumes "reaches flt wr d d'"
  shows "reaches flt wr d (says msg d')"
proof -
  obtain gots log where "(snd (dump_rounds flt wr gots d))\<lparr>du_log := log\<rparr> = d'"
    using assms by (auto simp: reaches_def)
  then have "(snd (dump_rounds flt wr gots d))\<lparr>du_log := log @ msg\<rparr> = says msg d'" by (auto simp: says_def)
  then show ?thesis unfolding reaches_def by blast
qed

lemma says_success [simp]: "dump_success (says msg d) = dump_success d" "du_written (says msg d) = du_written d"
  by (simp_all add: says_def dump_success_def)

lemma reaches_failed: "dump_round flt wr got d = (True, d1) \<Longrightarrow> reaches flt wr d d1"
  unfolding reaches_def by (rule exI [of _ "[got]"], rule exI [of _ "du_log d1"]) simp

lemma reaches_step:
  assumes "dump_round flt wr got d = (False, d1)" "reaches flt wr d1 d2"
  shows "reaches flt wr d d2"
proof -
  obtain gots log where "(snd (dump_rounds flt wr gots d1))\<lparr>du_log := log\<rparr> = d2"
    using assms(2) by (auto simp: reaches_def)
  then show ?thesis
    using assms(1) unfolding reaches_def by - (rule exI [of _ "got # gots"], rule exI [of _ log], simp)
qed

lemma dump_stream_step:
  assumes V: "envs_tame V" and T: "engines_inv T" and run: "dump_stream V h flt wr t_end timeout d T = Some y"
  shows "tool_step (env_of V) T (snd y) \<and> reaches flt wr d (fst y)"
proof -
  have "envs_tame V \<longrightarrow> engines_inv T \<longrightarrow> tool_step (env_of V) T (snd y) \<and> reaches flt wr d (fst y)"
  proof (rule dump_stream.raw_induct
      [where P = "\<lambda>V h flt wr t_end timeout d T y. envs_tame V \<longrightarrow> engines_inv T \<longrightarrow>
         tool_step (env_of V) T (snd y) \<and> reaches flt wr d (fst y)", OF _ run], intro impI)
    fix loop and V :: "('a, 'b, 'c, 'd, 'e, 'f) engine_envs" and h flt wr t_end timeout d T y
    assume IH: "\<And>V h flt wr t_end timeout d T y. loop V h flt wr t_end timeout d T = Some y \<Longrightarrow>
        envs_tame V \<longrightarrow> engines_inv T \<longrightarrow> tool_step (env_of V) T (snd y) \<and> reaches flt wr d (fst y)"
      and V: "envs_tame V" and T: "engines_inv T"
      and body: "(let (now, T) = now_ms (env_of V) T
      in if now < t_end then do {
           let want = read_want d;
           ((got, buf), T) \<leftarrow> handle_read_ts V h (Some (replicate want 0)) want timeout T;
           if got < 0 then Some (d\<lparr>du_log := du_log d @ ''read_ts error: '' @ dec_int got @ newline\<rparr>, T)
           else if got = 0 then loop V h flt wr t_end timeout d T
           else
             let (failed, d) = dump_round flt wr (take (nat got) (the buf)) d
             in if failed then Some (d, T) else loop V h flt wr t_end 100 d T
         }
         else Some (d, T)) = Some y"
    obtain now T1 where n: "now_ms (env_of V) T = (now, T1)" by fastforce
    note s1 = now_step [OF T n]
    have s2: "tool_step (env_of V) T T2"
      if "handle_read_ts V h (Some (replicate (read_want d) 0)) (read_want d) timeout T1 = Some (x, T2)" for x T2
      using tool_step_trans [OF s1 handle_steps(3) [OF V tool_step_inv [OF s1] that]] .
    have s3: "tool_step (env_of V) T (snd y) \<and> reaches flt wr d' (fst y)"
      if "handle_read_ts V h (Some (replicate (read_want d) 0)) (read_want d) timeout T1 = Some (x, T2)"
        "loop V h flt wr t_end t d' T2 = Some y" for x t d' T2
      using IH [OF that(2)] V tool_step_inv [OF s2 [OF that(1)]] tool_step_trans [OF s2 [OF that(1)]] by blast
    show "tool_step (env_of V) T (snd y) \<and> reaches flt wr d (fst y)"
      using body s1
      by (auto simp: n Let_def bind_eq_Some_conv dest: s2 s3 reaches_failed reaches_step
          split: if_splits prod.splits)
  qed
  then show ?thesis using V T by simp
qed

subsection \<open>\<open>main\<close> leaves nothing behind\<close>

lemma stream_from_step:
  assumes V: "envs_tame V" and T: "engines_inv T" and run: "stream_from V h flt wr seconds d0 T = Some (ok, d, T')"
  shows "tool_step (env_of V) T T' \<and> reaches flt wr d0 d \<and>
    (ok \<longrightarrow> dump_success d \<and> (\<exists>pre. du_log d = pre @ dump_summary flt seconds d))"
proof -
  define T1 where "T1 = T\<lparr>es_wire := es_wire T @ [Alloc]\<rparr>"
  have s1: "tool_step (env_of V) T T1" unfolding T1_def by (rule wire_step [OF T]) simp
  obtain now T2 where n: "now_ms (env_of V) T1 = (now, T2)" by fastforce
  note s2 = tool_step_trans [OF s1 now_step [OF tool_step_inv [OF s1] n]]
  show ?thesis
  proof (cases "r_rc (env_of V (es_wire T @ [Alloc])) = 0")
    case True
    then have "ok = False" "d = says (''OOM'' @ newline) d0" "T' = T1" using run by (simp_all add: stream_from_def ask_def T1_def)
    then show ?thesis using s1 by simp
  next
    case False
    then obtain d1 where l: "dump_stream V h flt wr (now + seconds * 1000) 1000 d0 T2 = Some (d1, T')"
      and d: "ok = dump_success d1" "d = says (dump_summary flt seconds d1) d1"
      using run n by (auto simp: stream_from_def ask_def T1_def Let_def bind_eq_Some_conv)
    have "du_log d = du_log d1 @ dump_summary flt seconds d" by (simp add: d(2) says_def dump_summary_def)
    then show ?thesis
      using dump_stream_step [OF V tool_step_inv [OF s2] l] tool_step_trans [OF s2] d reaches_then_says by auto
  qed
qed

lemma tune_and_stream_step:
  assumes V: "envs_tame V" and T: "engines_inv T" and run: "tune_and_stream V h p flt wr seconds T = Some (ok, d, T')"
  shows "tool_step (env_of V) T T' \<and> (\<exists>msg. reaches flt wr (says msg dump_start) d) \<and>
    (ok \<longrightarrow> dump_success d \<and> (\<exists>pre. du_log d = pre @ dump_summary flt seconds d))"
proof -
  obtain rc T1 where t: "handle_tune V h (Some p) T = Some (rc, T1)"
    using run by (auto simp: tune_and_stream_def bind_eq_Some_conv simp del: split_paired_Ex)
  note s1 = handle_steps(1) [OF V T t]
  obtain now T2 where n: "now_ms (env_of V) T1 = (now, T2)" by fastforce
  note s2 = tool_step_trans [OF s1 now_step [OF tool_step_inv [OF s1] n]]
  show ?thesis
  proof (cases "rc < 0")
    case True
    then have "ok = False" "\<exists>msg. d = says msg dump_start" "T' = T1" using run t by (auto simp: tune_and_stream_def)
    then show ?thesis using s1 reaches_refl by blast
  next
    case False
    then obtain st T3 where l: "lock_wait V h (now + 3000) no_status T2 = Some (st, T3)"
      using run t n by (auto simp: tune_and_stream_def bind_eq_Some_conv simp del: split_paired_Ex)
    have s3: "tool_step (env_of V) T T3"
      using tool_step_trans [OF s2] lock_wait_step [OF V tool_step_inv [OF s2] l] by simp
    show ?thesis
    proof (cases "st_has_lock st")
      case True
      then have "stream_from V h flt wr seconds (says (locked_text (st_cnr_db_x1000 st)) dump_start) T3 = Some (ok, d, T')"
        using run t n l \<open>\<not> rc < 0\<close> by (simp add: tune_and_stream_def)
      then show ?thesis using stream_from_step [OF V tool_step_inv [OF s3]] tool_step_trans [OF s3] by blast
    next
      case no_lock: False
      then have "ok = False" "\<exists>msg. d = says msg dump_start" "T' = T3"
        using run t n l \<open>\<not> rc < 0\<close> by (auto simp: tune_and_stream_def)
      then show ?thesis using s3 reaches_refl by blast
    qed
  qed
qed

text \<open>Everything taken since \<open>T\<close>, when no engine had a device, is given back.\<close>

definition tool_clean :: "host \<Rightarrow> ('c, 'f, 'd, 'g, 'e, 'h) engines \<Rightarrow> ('c, 'f, 'd, 'g, 'e, 'h) engines \<Rightarrow> bool" where
  "tool_clean env T T' \<longleftrightarrow>
     held env (es_wire T) (es_wire T') {#} {#} \<and> evt_refcount (es_lib T') = evt_refcount (es_lib T) \<and>
     all_handles T' = {#}"

lemma no_devices: "all_handles T = {#} \<Longrightarrow> outside T = evt_refcount (es_lib T)"
  by (simp add: all_handles_def dev_handles_def outside_def dev_streams_def)

lemma dump_done_clean:
  assumes V: "envs_tame V" and T: "all_handles T = {#}" and s: "tool_step (env_of V) T T1"
    and run: "dump_done V ok d err T1 = Some (rc, d', err', T')"
  shows "tool_clean (env_of V) T T' \<and> d' = d \<and> err' = err @ du_log d \<and> rc = (if ok then 0 else 1)"
proof -
  have sh: "shutdown_all V T1 = Some T'" and r: "d' = d" "err' = err @ du_log d" "rc = (if ok then 0 else 1)"
    using run by (auto simp: dump_done_def bind_eq_Some_conv)
  note d = shutdown_all_steps [OF V tool_step_inv [OF s] sh]
  have "tool_step (env_of V) T T'" using tool_step_trans [OF s] d by blast
  then show ?thesis using d r s no_devices [OF T] by (simp add: tool_clean_def tool_step_def T)
qed

lemma tool_clean_refl: "all_handles T = {#} \<Longrightarrow> tool_clean env T T"
  by (simp add: tool_clean_def)

text \<open>What the exit code 0 says of a streaming run.\<close>

definition streamed_well :: "string list \<Rightarrow> (bytes list \<Rightarrow> int option) \<Rightarrow> dump \<Rightarrow> string \<Rightarrow> bool" where
  "streamed_well args wr d err \<longleftrightarrow>
     (case dump_command args of
        Stream delsys freq bw flt seconds idx \<Rightarrow>
          (\<exists>msg. reaches flt wr (says msg dump_start) d) \<and> dump_success d \<and>
          (\<exists>pre. err = pre @ dump_summary flt seconds d)
      | _ \<Rightarrow> False)"

lemma pid_dump_main_spec:
  assumes V: "envs_tame V" and T: "engines_inv T" "all_handles T = {#}"
    and run: "pid_dump_main V argv0 args wr T = Some (rc, d, err, T')"
  shows "tool_clean (env_of V) T T' \<and> rc \<in> {0, 1, 2} \<and>
    (rc = 0 \<longrightarrow> args = [''--list''] \<or> streamed_well args wr d err)"
proof (cases "dump_command args")
  case List_Devices
  then have args: "args = [''--list'']"
    by (auto simp: dump_command_def split: list.splits if_splits option.splits)
  have l: "list_mode V T = Some (rc, d, err, T')" using run List_Devices by (simp add: pid_dump_main_def)
  then obtain n hs T1 where disc: "discover_all V MAX_HANDLES T = Some (n, hs, T1)"
    and fin: "dump_done V (n > 0) dump_start (if n = 0 then no_devices_text else list_handles hs) T1 = Some (rc, d, err, T')"
    unfolding list_mode_def bind_eq_Some_conv by (auto simp del: split_paired_Ex)
  have "tool_step (env_of V) T T1" using discover_all_steps [OF V T(1) _ disc] by (simp add: MAX_HANDLES_def)
  from dump_done_clean [OF V T(2) this fin] show ?thesis using args by auto
next
  case (Stream delsys freq bw flt seconds idx)
  obtain n hs T1 where disc: "discover_all V MAX_HANDLES T = Some (n, hs, T1)"
    using run Stream by (auto simp: pid_dump_main_def bind_eq_Some_conv simp del: split_paired_Ex)
  have s1: "tool_step (env_of V) T T1" using discover_all_steps [OF V T(1) _ disc] by (simp add: MAX_HANDLES_def)
  show ?thesis
  proof (cases "n = 0 \<or> idx < 0 \<or> idx \<ge> n")
    case True
    then have "\<exists>err. dump_done V False dump_start err T1 = Some (rc, d, err, T')"
      using run Stream disc by (auto simp: pid_dump_main_def dump_done_def bind_eq_Some_conv dump_start_def split: if_splits)
    then show ?thesis using dump_done_clean [OF V T(2) s1] by fastforce
  next
    case False
    then obtain ok d1 T2 where t: "tune_and_stream V (hs ! nat idx) (dump_tune delsys freq bw) flt wr seconds T1
        = Some (ok, d1, T2)" and fin: "dump_done V ok d1 (list_handles hs @ using_text idx (hs ! nat idx)) T2 = Some (rc, d, err, T')"
      using run Stream disc by (auto simp: pid_dump_main_def bind_eq_Some_conv simp del: split_paired_Ex)
    note r = tune_and_stream_step [OF V tool_step_inv [OF s1] t]
    have "tool_step (env_of V) T T2" using tool_step_trans [OF s1] r by blast
    from dump_done_clean [OF V T(2) this fin] show ?thesis using r Stream by (auto simp: streamed_well_def)
  qed
qed (use run T tool_clean_refl in \<open>auto simp: pid_dump_main_def\<close>)

subsection \<open>The loops end\<close>

text \<open>A millisecond has room for \<open>c\<close> readings of the clock, which stood at \<open>base\<close> at the start.\<close>

definition clock_bounded :: "host \<Rightarrow> int \<Rightarrow> int \<Rightarrow> bool" where
  "clock_bounded env c base \<longleftrightarrow>
     0 < c \<and> (\<forall>w. int (count_list w Clock_ms) \<le> c * (r_rc (env (w @ [Clock_ms])) - base))"

text \<open>In the situations \<open>P\<close>, the handle's \<open>get_status\<close> and \<open>read_ts\<close> return, into such situations.\<close>

definition handle_answers where
  "handle_answers V h P \<longleftrightarrow>
     (\<forall>T w. P T \<and> prefix (es_wire T) w \<longrightarrow> P (T\<lparr>es_wire := w\<rparr>)) \<and>
     (\<forall>T st. P T \<longrightarrow> (\<exists>x T'. handle_get_status V h (Some st) T = Some (x, T') \<and> P T' \<and> prefix (es_wire T) (es_wire T'))) \<and>
     (\<forall>T buf n t. P T \<longrightarrow>
        (\<exists>x T'. handle_read_ts V h (Some buf) n t T = Some (x, T') \<and> P T' \<and> prefix (es_wire T) (es_wire T')))"

lemma handle_answers_simps:
  assumes "handle_answers V h P" "P T"
  shows "\<exists>x T'. handle_get_status V h (Some st) T = Some (x, T') \<and> P T' \<and> prefix (es_wire T) (es_wire T')"
    "\<exists>x T'. handle_read_ts V h (Some buf) n t T = Some (x, T') \<and> P T' \<and> prefix (es_wire T) (es_wire T')"
    "P (T\<lparr>es_wire := es_wire T @ v\<rparr>)"
  using assms unfolding handle_answers_def by (blast, blast, simp)

lemma prefix_count: "prefix w w' \<Longrightarrow> count_list w q \<le> count_list w' q"
  by (auto simp: prefix_def)

abbreviation readings :: "('c, 'f, 'd, 'g, 'e, 'h) engines \<Rightarrow> int" where
  "readings T \<equiv> int (count_list (es_wire T) Clock_ms)"

text \<open>A pass of a loop that finds the deadline ahead.\<close>

lemma clock_pass:
  assumes "clock_bounded env c base" "now_ms env T = (now, T1)" "now < deadline" "prefix (es_wire T1) w"
  shows "nat (c * (deadline - base) - int (count_list w Clock_ms)) < nat (c * (deadline - base) - readings T)"
proof -
  have T1: "es_wire T1 = es_wire T @ [Clock_ms]" "now = r_rc (env (es_wire T @ [Clock_ms]))"
    using assms(2) by (auto simp: now_ms_def ask_def)
  have "readings T \<le> c * (now - base)" using assms(1) T1 by (simp add: clock_bounded_def)
  also have "\<dots> < c * (deadline - base)" using assms(1,3) by (simp add: clock_bounded_def)
  finally show ?thesis using prefix_count [OF assms(4), of Clock_ms] T1 by simp
qed

lemma lock_wait_ends:
  assumes c: "clock_bounded (env_of V) c base" and a: "handle_answers V h P"
  shows "P T \<Longrightarrow> lock_wait V h deadline st T \<noteq> None"
proof (induction "nat (c * (deadline - base) - readings T)" arbitrary: T st rule: less_induct)
  case less
  obtain now T1 where n: "now_ms (env_of V) T = (now, T1)" by fastforce
  have T1: "P T1" using handle_answers_simps(3) [OF a less.prems] n by (auto simp: now_ms_def ask_def)
  obtain x T2 where g: "handle_get_status V h (Some st) T1 = Some (x, T2)" "P T2" "prefix (es_wire T1) (es_wire T2)"
    using handle_answers_simps(1) [OF a T1] by blast
  have again: "lock_wait V h deadline st' (sleep_100ms T2) \<noteq> None" if "now < deadline" for st'
    by (rule less.hyps) (use clock_pass [OF c n that] g handle_answers_simps(3) [OF a g(2)] in \<open>auto simp: sleep_100ms_def\<close>)
  show ?case by (subst lock_wait.simps) (use again g in \<open>auto simp: n Let_def split: prod.split\<close>)
qed

lemma dump_stream_ends:
  assumes c: "clock_bounded (env_of V) c base" and a: "handle_answers V h P"
  shows "P T \<Longrightarrow> dump_stream V h flt wr deadline timeout d T \<noteq> None"
proof (induction "nat (c * (deadline - base) - readings T)" arbitrary: T d timeout rule: less_induct)
  case less
  obtain now T1 where n: "now_ms (env_of V) T = (now, T1)" by fastforce
  have T1: "P T1" using handle_answers_simps(3) [OF a less.prems] n by (auto simp: now_ms_def ask_def)
  obtain x T2 where g: "handle_read_ts V h (Some (replicate (read_want d) 0)) (read_want d) timeout T1 = Some (x, T2)"
    "P T2" "prefix (es_wire T1) (es_wire T2)"
    using handle_answers_simps(2) [OF a T1] by blast
  have again: "dump_stream V h flt wr deadline t d' T2 \<noteq> None" if "now < deadline" for t d'
    by (rule less.hyps) (use clock_pass [OF c n that] g in auto)
  show ?case by (subst dump_stream.simps) (use again g in \<open>auto simp: n Let_def split: prod.split\<close>)
qed

text \<open>C14: Neither loop of the dumper hangs: while the handle's operations return and the host's clock is read
  only so often in a millisecond, the wait for a lock ends and the streaming loop ends, whatever
  arrives, from any state of the dump and for any deadline. (Nothing else bounds the streaming loop:
  it may spin on reads that return 0.)\<close>
theorem dump_loops_end:
  assumes "clock_bounded (env_of V) c base" "handle_answers V h P" "P T"
  shows "lock_wait V h deadline st T \<noteq> None \<and> dump_stream V h flt wr t_end timeout d T \<noteq> None"
  using lock_wait_ends [OF assms] dump_stream_ends [OF assms] by simp

text \<open>A host whose clock reads the length of the history, and one em28xx frontend without chips.\<close>

definition ticking_host :: host where
  "ticking_host w = \<lparr>r_rc = int (length w), r_data = [], r_devs = [], r_handle = 0, r_fds = (3, 4)\<rparr>"

definition bare_envs :: "(nat, nat, nat, nat, nat, nat) engine_envs" where
  "bare_envs = \<lparr>ev_em28xx = plain_env\<lparr>en_host := ticking_host\<rparr>, ev_dib0700 = plain_env, ev_dvbsky = plain_env,
     ev_files = (\<lambda>path. No_File), ev_firmware_dir = None\<rparr>"

definition bare_engines :: "em28xx_dev \<Rightarrow> (nat, nat, nat, nat, nat, nat) engines" where
  "bare_engines b = \<lparr>es_em28xx = idle_engine\<lparr>en_devices := [\<lparr>ed_usb = bench_usb, ed_bridge = b,
       ed_frontends = [new_frontend 0 0x84]\<rparr>], en_inited := True\<rparr>,
     es_dib0700 = idle_engine, es_dvbsky = idle_engine, es_lib = usbq_lib_start, es_wire = []\<rparr>"

definition first_handle :: dvb_frontend_handle where
  "first_handle = \<lparr>fh_ops = Em28xx, fh_engine_state = (0, 0), fh_display_name = ''card'', fh_supported_delsys = [SYS_DVBT],
     fh_bus = 1, fh_addr = 2\<rparr>"

lemma dump_loops_end_witness:
  "lock_wait bare_envs first_handle 3000 no_status (bare_engines sample_em) \<noteq> None \<and>
   dump_stream bare_envs first_handle \<lparr>pf_pass_all = True, pf_pids = []\<rparr> (\<lambda>_. None) 5000 1000 dump_start (bare_engines sample_em)
     \<noteq> None"
proof -
  let ?P = "\<lambda>T. en_devices (es_em28xx T) = en_devices (es_em28xx (bare_engines sample_em))"
  have c: "clock_bounded (env_of bare_envs) 1 0"
  proof -
    have "int (count_list w Clock_ms) \<le> 1 + int (length w)" for w using count_le_length [of w Clock_ms] by simp
    then show ?thesis by (simp add: clock_bounded_def bare_envs_def ticking_host_def)
  qed
  have a: "handle_answers bare_envs first_handle ?P"
    by (auto simp: handle_answers_def first_handle_def dev_frontend_def handle_get_status_def handle_read_ts_def call_handle_def handle_call_def
        with_out_def vtables engine_get_status_def engine_read_ts_def bare_engines_def new_frontend_def switches Let_def)
  show ?thesis using dump_loops_end [OF c a, of "bare_engines sample_em"] by simp
qed

end
