(* ===== verification/Dump_Run.thy ===== *)
theory Dump_Run
  imports Dump_Main
begin

text \<open>
  Runs of the transport-stream dumper's \<open>main\<close> on the bench of \<open>Engine_Bench\<close>: \<open>--list\<close>, and a stream whose write fails;
  then the properties of \<open>main\<close>, with these runs as their witnesses.
\<close>

subsection \<open>A run on the bench\<close>

text \<open>The host of \<open>Engine_Bench\<close> under all three engines: only the dib0700 finds its device.\<close>

definition absent :: "host \<Rightarrow> string \<Rightarrow> bool" where
  "absent env v \<longleftrightarrow> (\<forall>g w. fst (usbq_open env (Some v) g w) = None)"

lemma absent_open:
  assumes "absent (en_host E) v"
  shows "\<exists>g w. engine_open_device E K b v mx W = Some (0, [], W\<lparr>en_lib := g, en_wire := w\<rparr>)"
proof -
  obtain g w where "usbq_open (en_host E) (Some v) (en_lib W) (en_wire W) = (None, g, w)"
    using assms unfolding absent_def by (metis prod.collapse)
  then show ?thesis by (auto simp: engine_open_device_def)
qed

lemma unchanged: "\<exists>g w. W = W\<lparr>en_lib := g, en_wire := w\<rparr>"
  by (rule exI [of _ "en_lib W"], rule exI [of _ "en_wire W"]) simp

lemma absent_discover_ids:
  "list_all (absent (en_host E)) vs \<Longrightarrow>
     \<exists>g w. discover_ids E K b mx vs k hs W = Some (k, hs, W\<lparr>en_lib := g, en_wire := w\<rparr>)"
proof (induction vs arbitrary: W)
  case (Cons v vs)
  obtain g w where "engine_open_device E K b v (mx - k) W = Some (0, [], W\<lparr>en_lib := g, en_wire := w\<rparr>)"
    using absent_open [of E v K b "mx - k" W] Cons.prems by auto
  then show ?case using Cons.IH [of "W\<lparr>en_lib := g, en_wire := w\<rparr>"] Cons.prems unchanged [of W] by auto
qed (use unchanged in auto)

lemma absent_discover_boards:
  "list_all (absent (en_host E)) (concat (map b_vidpids bs)) \<Longrightarrow>
     \<exists>g w. discover_boards E K mx bs k hs W = Some (k, hs, W\<lparr>en_lib := g, en_wire := w\<rparr>)"
proof (induction bs arbitrary: W)
  case (Cons b bs)
  obtain g w where "discover_ids E K b mx (b_vidpids b) k hs W = Some (k, hs, W\<lparr>en_lib := g, en_wire := w\<rparr>)"
    using absent_discover_ids [of E "b_vidpids b" K b mx k hs W] Cons.prems by auto
  then show ?case using Cons.IH [of "W\<lparr>en_lib := g, en_wire := w\<rparr>"] Cons.prems by auto
qed (use unchanged in auto)

lemma absent_discover_all:
  assumes "list_all (absent (en_host E)) (concat (map b_vidpids (ek_table K)))"
  shows "\<exists>W'. engine_discover_all E K has mx W = Some (0, [], W') \<and> en_devices W' = en_devices W \<and> en_chip W' = en_chip W"
proof -
  obtain ok W1 where i: "ensure_init E W = (ok, W1)" by fastforce
  then have "en_devices W1 = en_devices W" "en_chip W1 = en_chip W"
    by (auto simp: ensure_init_def Let_def split: if_splits prod.splits)
  then show ?thesis
    using absent_discover_boards [OF assms, of K mx 0 "[]" W1] i by (auto simp: engine_discover_all_def)
qed

lemma bench_absent: "\<not> (v = 0x045e \<and> p = 0x02d5) \<Longrightarrow> absent bench (format_vidpid v p)"
  by (auto simp: absent_def usbq_open_def parse_format_vidpid bench_reply_def Let_def split: prod.splits)

lemma bench_absent_ids: "(0x045e, 0x02d5) \<notin> set ids \<Longrightarrow> list_all (absent bench) (spell_ids ids)"
  by (auto simp: list_all_iff intro!: bench_absent)

lemma bench_no_others:
  "list_all (absent bench) (concat (map b_vidpids (em28xx_board_table :: ('s, 'fe) em28xx_board list)))"
  "list_all (absent bench) (concat (map b_vidpids (dvbsky_board_table :: ('s, 'fe) dvbsky_board list)))"
  unfolding em28xx_vidpids dvbsky_vidpids
  by (rule bench_absent_ids, simp add: em28xx_ids_def dvbsky_ids_def)+

definition bench_envs :: "(nat, nat, nat, nat, nat, nat) engine_envs" where
  "bench_envs = \<lparr>ev_em28xx = plain_env, ev_dib0700 = bench_env, ev_dvbsky = plain_env,
     ev_files = (\<lambda>path. No_File), ev_firmware_dir = None\<rparr>"

definition bench_engines :: "(nat, nat, nat, nat, nat, nat) engines" where
  "bench_engines = \<lparr>es_em28xx = idle_engine, es_dib0700 = idle_engine, es_dvbsky = idle_engine,
     es_lib = usbq_lib_start, es_wire = []\<rparr>"

lemma bench_hosts [simp]: "en_host bench_env = bench" "en_host plain_env = bench"
  by (simp_all add: bench_env_def plain_env_def)

lemma bench_envs_tame: "envs_tame bench_envs"
  by (simp add: envs_tame_def bench_envs_def plain_tame bench_tame)

lemma bench_engines_inv: "engines_inv bench_engines" "all_handles bench_engines = {#}"
  by (simp_all add: engines_inv_def outside_def devices_ok_def all_handles_def dev_handles_def dev_streams_def
      bench_engines_def idle_engine_def usbq_lib_start_def)

lemma bench_dib_discover:
  assumes "0 < mx" "en_devices W = []" "en_chip W = 0"
  shows "\<exists>fe st b W'. engine_discover_all bench_env (bench_kind fs) True mx W = Some (1, [bench_handle], W') \<and>
     en_devices W' = [\<lparr>ed_usb = bench_usb, ed_bridge = b, ed_frontends = [fe]\<rparr>] \<and>
     ef_stream fe = Some st \<and> calm st \<and> \<not> stopping st \<and> \<not> ef_capture_on fe \<and> ef_fe fe = Some 0"
proof -
  obtain ok W1 where i: "ensure_init bench_env W = (ok, W1)" by fastforce
  obtain g w where u: "usbq_init bench (en_lib W) (en_wire W) = (0, g, w)" using bench_init by blast
  have W1: "ok" "en_devices W1 = []" "en_chip W1 = 0"
    using i u assms by (auto simp: ensure_init_def split: if_splits)
  have t: "ek_table (bench_kind fs) = [bench_board]" "b_vidpids bench_board = [''045e:02d5'']"
    by (simp_all add: kinds dib0700_board_table_def)
  obtain fe st b w1 g1 where o: "engine_open_device bench_env (bench_kind fs) bench_board ''045e:02d5'' mx W1
     = Some (1, [bench_handle], W1\<lparr>en_devices := [\<lparr>ed_usb = bench_usb, ed_bridge = b, ed_frontends = [fe]\<rparr>],
             en_lib := g1, en_chip := 0, en_wire := w1\<rparr>)"
     "ef_stream fe = Some st" "calm st" "\<not> stopping st" "\<not> ef_capture_on fe" "ef_fe fe = Some 0"
    using bench_open_device [OF assms(1) W1(2,3), of fs] by blast
  have "discover_boards bench_env (bench_kind fs) mx [bench_board] 0 [] W1
     = Some (1, [bench_handle], W1\<lparr>en_devices := [\<lparr>ed_usb = bench_usb, ed_bridge = b, ed_frontends = [fe]\<rparr>],
             en_lib := g1, en_chip := 0, en_wire := w1\<rparr>)"
    using o(1) assms(1) by (simp add: t(2))
  then have "engine_discover_all bench_env (bench_kind fs) True mx W
     = Some (1, [bench_handle], W1\<lparr>en_devices := [\<lparr>ed_usb = bench_usb, ed_bridge = b, ed_frontends = [fe]\<rparr>],
             en_lib := g1, en_chip := 0, en_wire := w1\<rparr>)"
    using i assms(1) W1(1) by (simp add: engine_discover_all_def t(1))
  then show ?thesis using o(2-) by fastforce
qed

lemma idle_shutdown:
  assumes "en_devices W = []"
  shows "\<exists>W'. engine_shutdown E cap W = Some W'"
  using assms by (auto simp: engine_shutdown_def split: prod.split)

lemma bench_shutdown:
  assumes "en_devices W = [\<lparr>ed_usb = u, ed_bridge = b, ed_frontends = [fe]\<rparr>]"
    "ef_stream fe = Some st" "calm st" "ef_fe fe = Some 0"
  shows "\<exists>W'. engine_shutdown bench_env cap W = Some W'"
proof -
  obtain x where "engine_frontend_teardown bench_env cap fe (en_lib W) ((b, en_wire W), en_chip W) = Some x"
    using bench_teardown [OF assms(2-4)] by blast
  then show ?thesis using assms(1) by (cases x) (auto simp: engine_shutdown_def split: prod.split)
qed

text \<open>The engines after the discovery: one dib0700 frontend, ready to tune (\<open>after_tune = False\<close>) or tuned.\<close>

definition one_frontend :: "bool \<Rightarrow> (nat, nat, nat, nat, nat, nat) engines \<Rightarrow> bool" where
  "one_frontend after_tune T \<longleftrightarrow>
     en_devices (es_em28xx T) = [] \<and> en_devices (es_dvbsky T) = [] \<and>
     (\<exists>u b fe st. en_devices (es_dib0700 T) = [\<lparr>ed_usb = u, ed_bridge = b, ed_frontends = [fe]\<rparr>] \<and>
        ef_stream fe = Some st \<and> calm st \<and> ef_fe fe = Some 0 \<and> \<not> stopping st \<and>
        (after_tune \<longrightarrow> ring_used st = 0) \<and> (\<not> after_tune \<longrightarrow> \<not> ef_capture_on fe))"

lemma one_frontend_wire [simp]: "one_frontend after_tune (T\<lparr>es_wire := w\<rparr>) = one_frontend after_tune T"
  by (simp add: one_frontend_def)

lemma bench_discover:
  "\<exists>T. discover_all bench_envs 8 bench_engines = Some (1, [bench_handle], T) \<and> one_frontend False T"
proof -
  let ?T = bench_engines
  obtain W where e: "dvb_em28xx_discover_all (plain_env :: ((em28xx_dev, nat) chip_state, nat) engine_env) True 8
      (at_em28xx ?T) = Some (0, [], W)" "en_devices W = []"
    using absent_discover_all [of plain_env "em28xx_kind bench" True 8 "at_em28xx ?T"] bench_no_others
    by (auto simp: dvb_em28xx_discover_all_def kinds bench_engines_def idle_engine_def switches)
  let ?T1 = "put_em28xx W ?T"
  have d0: "en_devices (at_dib0700 ?T1) = []" "en_chip (at_dib0700 ?T1) = 0"
    by (simp_all add: switches bench_engines_def idle_engine_def)
  obtain fe st b X where d: "engine_discover_all bench_env (bench_kind (\<lambda>path. No_File)) True 8 (at_dib0700 ?T1) = Some (1, [bench_handle], X)"
    "en_devices X = [\<lparr>ed_usb = bench_usb, ed_bridge = b, ed_frontends = [fe]\<rparr>]"
    "ef_stream fe = Some st" "calm st" "\<not> stopping st" "\<not> ef_capture_on fe" "ef_fe fe = Some 0"
    using bench_dib_discover [of 8 "at_dib0700 ?T1" "\<lambda>path. No_File"] d0 by auto
  let ?T2 = "put_dib0700 X ?T1"
  obtain Y where s: "dvb_dvbsky_discover_all (plain_env :: ((dvbsky_dev, nat) chip_state, nat) engine_env) True 7
      (at_dvbsky ?T2) = Some (0, [], Y)" "en_devices Y = []"
    using absent_discover_all [of plain_env "dvbsky_kind bench" True 7 "at_dvbsky ?T2"] bench_no_others
    by (auto simp: dvb_dvbsky_discover_all_def kinds bench_engines_def idle_engine_def switches)
  have "discover_all bench_envs 8 ?T = Some (1, [bench_handle], put_dvbsky Y ?T2)"
    using e d(1) s by (simp add: discover_all_def bench_envs_def dvb_dib0700_discover_all_def)
  moreover have "one_frontend False (put_dvbsky Y ?T2)"
    using e(2) d s(2) by (simp add: one_frontend_def switches)
  ultimately show ?thesis by blast
qed

lemma bench_ev [simp]:
  "ev_em28xx bench_envs = plain_env" "ev_dib0700 bench_envs = bench_env" "ev_dvbsky bench_envs = plain_env"
  by (simp_all add: bench_envs_def)

lemma bench_shutdown_all:
  assumes "en_devices (es_em28xx T) = []" "en_devices (es_dvbsky T) = []"
    "en_devices (es_dib0700 T) = [\<lparr>ed_usb = u, ed_bridge = b, ed_frontends = [fe]\<rparr>]"
    "ef_stream fe = Some st" "calm st" "ef_fe fe = Some 0"
  shows "\<exists>T'. shutdown_all bench_envs T = Some T'"
proof -
  obtain Y where y: "dvb_dvbsky_shutdown plain_env (at_dvbsky T) = Some Y"
    using idle_shutdown [of "at_dvbsky T"] assms(2) by (auto simp: dvb_dvbsky_shutdown_def switches)
  obtain X where x: "dvb_dib0700_shutdown bench_env (at_dib0700 (put_dvbsky Y T)) = Some X"
    using bench_shutdown [OF _ assms(4-6), of "at_dib0700 (put_dvbsky Y T)"] assms(3)
    by (auto simp: dvb_dib0700_shutdown_def switches)
  obtain W where "dvb_em28xx_shutdown plain_env (at_em28xx (put_dib0700 X (put_dvbsky Y T))) = Some W"
    using idle_shutdown [of "at_em28xx (put_dib0700 X (put_dvbsky Y T))"] assms(1)
    by (auto simp: dvb_em28xx_shutdown_def switches)
  then show ?thesis using x y by (simp add: shutdown_all_def)
qed

lemma bench_list_run: "\<exists>d err T. pid_dump_main bench_envs argv0 [''--list''] wr bench_engines = Some (0, d, err, T)"
proof -
  obtain T where d: "discover_all bench_envs 8 bench_engines = Some (1, [bench_handle], T)" "one_frontend False T"
    using bench_discover by blast
  obtain T' where "shutdown_all bench_envs T = Some T'"
    using d(2) bench_shutdown_all unfolding one_frontend_def by blast
  then show ?thesis
    using d(1) by (simp add: pid_dump_main_def dump_command_def list_mode_def MAX_HANDLES_def dump_done_def)
qed

subsection \<open>A stream on the bench\<close>

text \<open>A call through the handle of the one frontend.\<close>

lemma dib_call:
  assumes "en_devices (es_dib0700 T) = [\<lparr>ed_usb = u, ed_bridge = b, ed_frontends = [fe]\<rparr>]"
    "g (Some fe, ((b, es_wire T), en_chip (es_dib0700 T))) = Some (r, Some fe', s)"
  shows "\<exists>T'. call_handle bench_handle f g e T = Some (r, T') \<and> es_em28xx T' = es_em28xx T \<and>
    es_dvbsky T' = es_dvbsky T \<and>
    en_devices (es_dib0700 T') = [\<lparr>ed_usb = u, ed_bridge = bridge_of s, ed_frontends = [fe']\<rparr>]"
  using assms by (simp add: call_handle_def handle_call_def dev_frontend_def publish_def switches)

lemma bench_handle_tune:
  assumes "one_frontend False T"
  shows "\<exists>T'. handle_tune bench_envs bench_handle (Some p) T = Some (0, T') \<and> one_frontend True T'"
proof -
  obtain u b fe st where T: "en_devices (es_em28xx T) = []" "en_devices (es_dvbsky T) = []"
    "en_devices (es_dib0700 T) = [\<lparr>ed_usb = u, ed_bridge = b, ed_frontends = [fe]\<rparr>]"
    and fe: "ef_stream fe = Some st" "calm st" "\<not> stopping st" "\<not> ef_capture_on fe" "ef_fe fe = Some 0"
    using assms by (auto simp: one_frontend_def)
  let ?s = "((b, es_wire T), en_chip (es_dib0700 T))"
  obtain fe' st' s' where t: "dib_v_tune bench_env (Some fe) (Some p) ?s = Some (0, Some fe', s')"
    and fe': "ef_stream fe' = Some st'" "calm st'" "\<not> stopping st'" "ring_used st' = 0" "ef_fe fe' = Some 0"
    using bench_tune [OF fe, of p ?s] by blast
  have "vt_tune (k_dib0700_vtable bench_env) (Some p) (Some fe, ?s) = Some (0, Some fe', s')"
    using t by (simp add: vtables)
  from dib_call [where g = "vt_tune (k_dib0700_vtable bench_env) (Some p)", OF T(3) this]
  show ?thesis using T fe' by (fastforce simp: handle_tune_def one_frontend_def)
qed

lemma bench_handle_status:
  assumes "one_frontend True T"
  shows "\<exists>st T'. handle_get_status bench_envs bench_handle (Some out) T = Some ((0, Some st), T') \<and>
    st_has_lock st \<and> one_frontend True T'"
proof -
  obtain u b fe st where T: "en_devices (es_em28xx T) = []" "en_devices (es_dvbsky T) = []"
    "en_devices (es_dib0700 T) = [\<lparr>ed_usb = u, ed_bridge = b, ed_frontends = [fe]\<rparr>]"
    and fe: "ef_stream fe = Some st" "calm st" "\<not> stopping st" "ring_used st = 0" "ef_fe fe = Some 0"
    using assms by (auto simp: one_frontend_def)
  let ?s = "((b, es_wire T), en_chip (es_dib0700 T))"
  obtain x c where g: "engine_get_status bench_env (Some fe) (Some out) ?s = Some (0, Some x, Some (fe\<lparr>ef_cache := c\<rparr>), ?s)"
    and x: "st_has_lock x" using bench_get_status [OF fe(5)] by blast
  let ?g = "with_out (vt_get_status (k_dib0700_vtable bench_env) (Some out))"
  have "?g (Some fe, ?s) = Some ((0, Some x), Some (fe\<lparr>ef_cache := c\<rparr>), ?s)"
    using g by (simp add: vtables with_out_def)
  from dib_call [where g = ?g, OF T(3) this]
  show ?thesis using T fe x by (fastforce simp: handle_get_status_def one_frontend_def)
qed

lemma bench_handle_read:
  assumes "one_frontend True T" "376 \<le> n" "0 < t"
  shows "\<exists>buf T'. handle_read_ts bench_envs bench_handle (Some (replicate n 0)) n t T = Some ((376, Some buf), T') \<and>
    take 376 buf = bench_burst \<and> (\<exists>T''. shutdown_all bench_envs T' = Some T'')"
proof -
  obtain u b fe st where T: "en_devices (es_em28xx T) = []" "en_devices (es_dvbsky T) = []"
    "en_devices (es_dib0700 T) = [\<lparr>ed_usb = u, ed_bridge = b, ed_frontends = [fe]\<rparr>]"
    and fe: "ef_stream fe = Some st" "calm st" "\<not> stopping st" "ring_used st = 0" "ef_fe fe = Some 0"
    using assms(1) by (auto simp: one_frontend_def)
  let ?s = "((b, es_wire T), en_chip (es_dib0700 T))"
  obtain buf st' w' where r: "engine_read_ts bench_env (Some fe) (Some (replicate n 0)) n t ?s
      = Some (376, Some buf, Some (fe\<lparr>ef_stream := Some st'\<rparr>), set_wire w' ?s)" "take 376 buf = bench_burst" "calm st'"
    using bench_read [OF fe(1-4), of "replicate n 0" t ?s] assms(2,3) by auto
  let ?g = "with_out (vt_read_ts (k_dib0700_vtable bench_env) (Some (replicate n 0)) n t)"
  have "?g (Some fe, ?s) = Some ((376, Some buf), Some (fe\<lparr>ef_stream := Some st'\<rparr>), set_wire w' ?s)"
    using r(1) by (simp add: vtables with_out_def)
  from dib_call [where g = ?g, OF T(3) this]
  obtain T' where c: "handle_read_ts bench_envs bench_handle (Some (replicate n 0)) n t T = Some ((376, Some buf), T')"
    "es_em28xx T' = es_em28xx T" "es_dvbsky T' = es_dvbsky T"
    "en_devices (es_dib0700 T') = [\<lparr>ed_usb = u, ed_bridge = bridge_of (set_wire w' ?s), ed_frontends = [fe\<lparr>ef_stream := Some st'\<rparr>]\<rparr>]"
    by (auto simp: handle_read_ts_def)
  have "\<exists>T''. shutdown_all bench_envs T' = Some T''"
    using bench_shutdown_all [OF _ _ c(4), of st'] T(1,2) c(2,3) r(3) fe(5) by simp
  then show ?thesis using c(1) r(2) by blast
qed

text \<open>The burst, framed: two packets, the second of which cannot be written.\<close>

lemma bench_burst_packets: "bench_burst = null_packet @ null_packet"
  by (simp add: bench_burst_def null_packet_def numeral_2_eq_2)

lemma bench_frame:
  assumes "wr [null_packet, null_packet] = Some e" "du_stage d = bench_burst"
    "du_written d = []" "du_total d = 0" "du_matched d = 0" "du_bad_sync d = 0"
  shows "\<exists>c d'. frame_loop \<lparr>pf_pass_all = True, pf_pids = []\<rparr> wr 0 d = (True, c, d') \<and> dump_success d' \<and>
    (wr [null_packet] \<noteq> None \<longrightarrow> du_written d' = [null_packet])"
proof -
  let ?f = "\<lparr>pf_pass_all = True, pf_pids = [] :: u16 list\<rparr>"
  have n: "length null_packet = 188" "null_packet ! 0 = 0x47" by (simp_all add: null_packet_def)
  have pf: "pid_filter_match ?f x" for x by (simp add: pid_filter_match_def)
  let ?d = "d\<lparr>du_total := 1, du_matched := 1, du_written := [null_packet]\<rparr>"
  have one: "frame_loop ?f wr 0 d = (case wr [null_packet] of
      None \<Rightarrow> frame_loop ?f wr 188 ?d
    | Some errno \<Rightarrow> (True, 0, ?d\<lparr>du_log := du_log d @ ''write to stdout failed: '' @ dec_int errno @ newline\<rparr>))"
    using assms n pf by (subst frame_loop.simps) (simp add: bench_burst_packets TS_PACKET_def nth_append Let_def cong: option.case_cong)
  have two: "frame_loop ?f wr 188 ?d = (True, 188, ?d\<lparr>du_total := 2, du_matched := 2,
      du_written := [null_packet, null_packet],
      du_log := du_log d @ ''write to stdout failed: '' @ dec_int e @ newline\<rparr>)"
    using assms n pf by (subst frame_loop.simps) (simp add: bench_burst_packets TS_PACKET_def nth_append Let_def)
  show ?thesis
    by (cases "wr [null_packet]") (simp_all add: one two dump_success_def assms(6))
qed

lemma bench_round:
  assumes "wr [null_packet, null_packet] = Some e"
  shows "\<exists>d. dump_round \<lparr>pf_pass_all = True, pf_pids = []\<rparr> wr bench_burst (says msg dump_start) = (True, d) \<and> dump_success d \<and>
    (wr [null_packet] \<noteq> None \<longrightarrow> du_written d = [null_packet])"
proof -
  let ?d = "\<lparr>du_stage = bench_burst, du_locked = True, du_total = 0, du_matched = 0, du_bad_sync = 0,
     du_written = [], du_log = msg @ sync_text 0\<rparr>"
  have n: "length null_packet = 188" "null_packet ! 0 = 0x47" by (simp_all add: null_packet_def)
  have "find_sync bench_burst 0 = Some 0"
    using n by (subst find_sync.simps) (simp add: bench_burst_packets TS_PACKET_def nth_append)
  then have l: "lock_stage ((says msg dump_start)\<lparr>du_stage := du_stage (says msg dump_start) @ bench_burst\<rparr>) = (True, ?d)"
    by (simp add: lock_stage_def says_def dump_start_def)
  obtain c d' where "frame_loop \<lparr>pf_pass_all = True, pf_pids = []\<rparr> wr 0 ?d = (True, c, d')" "dump_success d'"
    "wr [null_packet] \<noteq> None \<longrightarrow> du_written d' = [null_packet]"
    using bench_frame [of wr e ?d] assms by auto
  then show ?thesis by (simp add: dump_round_def l)
qed

lemma bench_now: "now_ms bench T = (0, T\<lparr>es_wire := es_wire T @ [Clock_ms]\<rparr>)"
  by (simp add: now_ms_def bench_reply_def)

lemma bench_lock:
  assumes "one_frontend True T"
  shows "\<exists>st T'. lock_wait bench_envs bench_handle 3000 out T = Some (st, T') \<and> st_has_lock st \<and> one_frontend True T'"
proof -
  let ?T = "T\<lparr>es_wire := es_wire T @ [Clock_ms]\<rparr>"
  have "one_frontend True ?T" using assms by simp
  then obtain st T' where "handle_get_status bench_envs bench_handle (Some out) ?T = Some ((0, Some st), T')"
    "st_has_lock st" "one_frontend True T'" using bench_handle_status by blast
  then show ?thesis by (subst lock_wait.simps) (simp add: bench_now)
qed

lemma bench_dump_stream:
  assumes "one_frontend True T" "wr [null_packet, null_packet] = Some e"
  shows "\<exists>d T'. dump_stream bench_envs bench_handle \<lparr>pf_pass_all = True, pf_pids = []\<rparr> wr 5000 1000
      (says msg dump_start) T = Some (d, T') \<and> dump_success d \<and>
    (wr [null_packet] \<noteq> None \<longrightarrow> du_written d = [null_packet]) \<and> (\<exists>T''. shutdown_all bench_envs T' = Some T'')"
proof -
  let ?T = "T\<lparr>es_wire := es_wire T @ [Clock_ms]\<rparr>"
  have w: "read_want (says msg dump_start) = READ_SZ"
    by (simp add: read_want_def says_def dump_start_def STAGE_SZ_def READ_SZ_def TS_PACKET_def)
  have T: "one_frontend True ?T" using assms(1) by simp
  obtain buf T' where r: "handle_read_ts bench_envs bench_handle (Some (replicate READ_SZ 0)) READ_SZ 1000 ?T
      = Some ((376, Some buf), T')" "take 376 buf = bench_burst" "\<exists>T''. shutdown_all bench_envs T' = Some T''"
    using bench_handle_read [OF T, of READ_SZ 1000] by (auto simp: READ_SZ_def)
  obtain d where d: "dump_round \<lparr>pf_pass_all = True, pf_pids = []\<rparr> wr bench_burst (says msg dump_start) = (True, d)"
    "dump_success d" "wr [null_packet] \<noteq> None \<longrightarrow> du_written d = [null_packet]"
    using bench_round [of wr e msg] assms(2) by blast
  show ?thesis using r d by (subst dump_stream.simps) (simp add: bench_now w)
qed

text \<open>The whole command: the device is found, tuned and locked; the second packet cannot be written, or even the
  first one; the exit code is 0.\<close>

lemma bench_command:
  "\<exists>f b. dump_command [''dvbt'', ''0'', ''0'', ''-1''] = Stream SYS_DVBT f b \<lparr>pf_pass_all = True, pf_pids = []\<rparr> 5 0"
  by (simp add: dump_command_def parse_delsys_def parse_pid_filter_def)

lemma failed_write_exits_with_success:
  assumes "wr [null_packet, null_packet] = Some e"
  shows "\<exists>d err T. pid_dump_main bench_envs argv0 [''dvbt'', ''0'', ''0'', ''-1''] wr bench_engines = Some (0, d, err, T) \<and>
    (wr [null_packet] \<noteq> None \<longrightarrow> du_written d = [null_packet])"
proof -
  let ?h = bench_handle
  let ?f = "\<lparr>pf_pass_all = True, pf_pids = [] :: u16 list\<rparr>"
  obtain freq bw where c: "dump_command [''dvbt'', ''0'', ''0'', ''-1''] = Stream SYS_DVBT freq bw ?f 5 0"
    using bench_command by blast
  obtain T where disc: "discover_all bench_envs 8 bench_engines = Some (1, [bench_handle], T)" "one_frontend False T"
    using bench_discover by blast
  obtain T1 where t: "handle_tune bench_envs ?h (Some (dump_tune SYS_DVBT freq bw)) T = Some (0, T1)" "one_frontend True T1"
    using bench_handle_tune [OF disc(2)] by blast
  have "one_frontend True (T1\<lparr>es_wire := es_wire T1 @ [Clock_ms]\<rparr>)" using t(2) by simp
  then obtain st T2 where l: "lock_wait bench_envs ?h 3000 no_status (T1\<lparr>es_wire := es_wire T1 @ [Clock_ms]\<rparr>) = Some (st, T2)"
    "st_has_lock st" "one_frontend True T2" using bench_lock by blast
  let ?T3 = "T2\<lparr>es_wire := es_wire T2 @ [Alloc, Clock_ms]\<rparr>"
  let ?msg = "locked_text (st_cnr_db_x1000 st)"
  have T3: "one_frontend True ?T3" using l(3) by simp
  obtain d T4 where s: "dump_stream bench_envs ?h ?f wr 5000 1000 (says ?msg dump_start) ?T3 = Some (d, T4)"
    "dump_success d" "wr [null_packet] \<noteq> None \<longrightarrow> du_written d = [null_packet]"
    "\<exists>T5. shutdown_all bench_envs T4 = Some T5"
    using bench_dump_stream [of ?T3 wr e ?msg] T3 assms by blast
  have "tune_and_stream bench_envs ?h (dump_tune SYS_DVBT freq bw) ?f wr 5 T
      = Some (True, says (dump_summary ?f 5 d) d, T4)"
    using t(1) l(1,2) s(1,2) by (simp add: tune_and_stream_def stream_from_def bench_now bench_reply_def)
  then show ?thesis using c disc(1) s(3,4)
    by (auto simp: pid_dump_main_def MAX_HANDLES_def dump_done_def)
qed

subsection \<open>Properties of \<open>main\<close>\<close>



end
