(* ===== verification/Kernel_Shim.thy ===== *)
theory Kernel_Shim
  imports Usb_Wire
begin

text \<open>
  The kernel's small helpers as the chip drivers get them from \<open>linuxdvbkpi/include\<close>: error pointers
  (\<open>linux/err.h\<close>), arithmetic macros (\<open>linux/kernel.h\<close>), the millisecond clock and its comparisons
  (\<open>linux/jiffies.h\<close>), the sleeps (\<open>linux/delay.h\<close>), and the debug switch (\<open>dvb_debug.h\<close>). Pointers and
  \<open>unsigned long\<close> are 64 bits wide, as on the platforms the library is built for. A macro is given at
  the type its callers use it with.
\<close>

subsection \<open>Error pointers\<close>

definition MAX_ERRNO :: u64 where "MAX_ERRNO = 4095"

definition IS_ERR :: "u64 \<Rightarrow> bool" where "IS_ERR p \<longleftrightarrow> p \<ge> - MAX_ERRNO"
definition PTR_ERR :: "u64 \<Rightarrow> int" where "PTR_ERR p = sint p"
definition ERR_PTR :: "int \<Rightarrow> u64" where "ERR_PTR e = word_of_int e"
definition IS_ERR_OR_NULL :: "u64 \<Rightarrow> bool" where "IS_ERR_OR_NULL p \<longleftrightarrow> p = 0 \<or> IS_ERR p"
definition ERR_CAST :: "u64 \<Rightarrow> u64" where "ERR_CAST p = p"

lemma sint_64: "sint (p :: u64) = (if uint p < 2 ^ 63 then uint p else uint p - 2 ^ 64)"
proof -
  have b: "0 \<le> uint p" "uint p < 2 ^ 64" using uint_bounded [of p] by simp_all
  have "sint p = (uint p + 2 ^ 63) mod 2 ^ 64 - 2 ^ 63"
    by (simp add: sint_uint signed_take_bit_eq_take_bit_shift take_bit_eq_mod)
  also have "\<dots> = (if uint p < 2 ^ 63 then uint p else uint p - 2 ^ 64)"
  proof (cases "uint p < 2 ^ 63")
    case False
    have "(uint p + 2 ^ 63) mod 2 ^ 64 = (uint p - 2 ^ 63) mod 2 ^ 64"
      using mod_add_self2 [of "uint p - 2 ^ 63" "2 ^ 64"] by (simp add: algebra_simps)
    also have "\<dots> = uint p - 2 ^ 63" using False b by (intro mod_pos_pos_trivial) simp_all
    finally show ?thesis using False by simp
  qed (use b in simp)
  finally show ?thesis .
qed

lemma sint_of_int_64: "sint (word_of_int e :: u64) = e \<longleftrightarrow> - (2 ^ 63) \<le> e \<and> e < 2 ^ 63"
proof
  assume e: "sint (word_of_int e :: u64) = e"
  have "- (2 ^ 63) \<le> sint x \<and> sint x < 2 ^ 63" for x :: u64
    using sint_64 [of x] uint_bounded [of x]
    by (auto split: if_splits intro: order_trans [OF _ uint_ge_0])
  from this [of "word_of_int e"] show "- (2 ^ 63) \<le> e \<and> e < 2 ^ 63" unfolding e .
next
  assume "- (2 ^ 63) \<le> e \<and> e < 2 ^ 63"
  then show "sint (word_of_int e :: u64) = e"
    by (simp add: signed_of_int signed_take_bit_int_eq_self)
qed

lemma IS_ERR_iff: "IS_ERR p \<longleftrightarrow> - 4095 \<le> PTR_ERR p \<and> PTR_ERR p < 0"
proof -
  have b: "0 \<le> uint p" "uint p < 2 ^ 64" using uint_bounded [of p] by simp_all
  have "uint (- MAX_ERRNO) = 2 ^ 64 - 4095" by (simp add: MAX_ERRNO_def)
  then have "IS_ERR p \<longleftrightarrow> 2 ^ 64 - 4095 \<le> uint p" by (simp add: IS_ERR_def word_le_def)
  then show ?thesis using b by (simp add: PTR_ERR_def sint_64)
qed

text \<open>Error pointers. A pointer is an error exactly when it reads as a code between -4095 and -1, a NULL
  pointer is never one, reading and rebuilding gives the pointer back, and a number survives the trip
  through a pointer that is recognised as an error exactly when it is such a code.\<close>
theorem err_ptr_roundtrip:
  "(IS_ERR p \<longleftrightarrow> PTR_ERR p \<in> {-4095..<0}) \<and> \<not> IS_ERR 0 \<and> ERR_PTR (PTR_ERR p) = p \<and>
   (IS_ERR (ERR_PTR e) \<and> PTR_ERR (ERR_PTR e) = e \<longleftrightarrow> e \<in> {-4095..<0}) \<and>
   (IS_ERR_OR_NULL (ERR_CAST p) \<longleftrightarrow> PTR_ERR p \<in> {-4095..0})"
proof (intro conjI)
  show "IS_ERR p \<longleftrightarrow> PTR_ERR p \<in> {-4095..<0}" by (auto simp: IS_ERR_iff)
  show "\<not> IS_ERR 0" by (simp add: IS_ERR_iff PTR_ERR_def)
  show "ERR_PTR (PTR_ERR p) = p" by (simp add: ERR_PTR_def PTR_ERR_def)
  show "IS_ERR (ERR_PTR e) \<and> PTR_ERR (ERR_PTR e) = e \<longleftrightarrow> e \<in> {-4095..<0}"
    using sint_of_int_64 [of e] unfolding IS_ERR_iff by (auto simp: PTR_ERR_def ERR_PTR_def)
  have "PTR_ERR p = 0 \<longleftrightarrow> p = 0"
  proof
    assume "PTR_ERR p = 0"
    moreover have "word_of_int (sint p) = p" by simp
    ultimately show "p = 0" by (simp only: PTR_ERR_def) simp
  qed (simp add: PTR_ERR_def)
  then show "IS_ERR_OR_NULL (ERR_CAST p) \<longleftrightarrow> PTR_ERR p \<in> {-4095..0}"
    by (auto simp: IS_ERR_OR_NULL_def ERR_CAST_def IS_ERR_iff)
qed

subsection \<open>Arithmetic macros\<close>

definition BIT :: "nat \<Rightarrow> u32" where "BIT nr = push_bit nr 1"
definition BIT_ULL :: "nat \<Rightarrow> u64" where "BIT_ULL nr = push_bit nr 1"

definition ARRAY_SIZE :: "nat \<Rightarrow> nat \<Rightarrow> nat" where
  "ARRAY_SIZE sizeof_array sizeof_element = sizeof_array div sizeof_element"

definition container_of :: "u64 \<Rightarrow> u64 \<Rightarrow> u64" where
  "container_of ptr offset = ptr - offset"

text \<open>Numbers are the values of their C type; a cast takes a value to that of the target type.\<close>

definition min_c :: "int \<Rightarrow> int \<Rightarrow> int" where "min_c a b = (if a < b then a else b)"
definition max_c :: "int \<Rightarrow> int \<Rightarrow> int" where "max_c a b = (if a > b then a else b)"

definition min_t :: "(int \<Rightarrow> int) \<Rightarrow> int \<Rightarrow> int \<Rightarrow> int" where
  "min_t cast a b = (let a' = cast a; b' = cast b in if a' < b' then a' else b')"

definition max_t :: "(int \<Rightarrow> int) \<Rightarrow> int \<Rightarrow> int \<Rightarrow> int" where
  "max_t cast a b = (let a' = cast a; b' = cast b in if a' > b' then a' else b')"

definition clamp :: "int \<Rightarrow> int \<Rightarrow> int \<Rightarrow> int" where "clamp v lo hi = min_c (max_c v lo) hi"

definition clamp_t :: "(int \<Rightarrow> int) \<Rightarrow> int \<Rightarrow> int \<Rightarrow> int \<Rightarrow> int" where
  "clamp_t cast v lo hi = min_t cast (max_t cast v lo) hi"

text \<open>\<open>cast\<close> is the one to the type of \<open>v\<close>.\<close>

definition clamp_val :: "(int \<Rightarrow> int) \<Rightarrow> int \<Rightarrow> int \<Rightarrow> int \<Rightarrow> int" where
  "clamp_val cast v lo hi = clamp_t cast v lo hi"

definition to_u16 :: "int \<Rightarrow> int" where "to_u16 x = uint (word_of_int x :: u16)"

definition WARN_ON :: "int \<Rightarrow> int" where "WARN_ON cond = (if cond \<noteq> 0 then 1 else 0)"
definition WARN_ON_ONCE :: "int \<Rightarrow> int" where "WARN_ON_ONCE cond = WARN_ON cond"

text \<open>The quotient and the remainder; dividing by 0 traps.\<close>

definition do_div :: "u64 \<Rightarrow> u64 \<Rightarrow> (u64 \<times> u64) option" where
  "do_div n b = (if b = 0 then None else Some (n div b, n mod b))"

definition DIV_ROUND_UP :: "u32 \<Rightarrow> u32 \<Rightarrow> u32 option" where
  "DIV_ROUND_UP n d = (if d = 0 then None else Some ((n + d - 1) div d))"

definition DIV_ROUND_CLOSEST :: "u32 \<Rightarrow> u32 \<Rightarrow> u32 option" where
  "DIV_ROUND_CLOSEST n d = (if d = 0 then None else Some ((n + d div 2) div d))"

definition DIV_ROUND_CLOSEST_ULL :: "u64 \<Rightarrow> u64 \<Rightarrow> u64 option" where
  "DIV_ROUND_CLOSEST_ULL n d = (if d = 0 then None else Some ((n + d div 2) div d))"

definition ALIGN :: "u32 \<Rightarrow> u32 \<Rightarrow> u32" where
  "ALIGN x a = (x + (a - 1)) AND NOT (a - 1)"

lemma clamp_range: "lo \<le> hi \<Longrightarrow> lo \<le> clamp v lo hi \<and> clamp v lo hi \<le> hi \<and> (lo \<le> v \<and> v \<le> hi \<longrightarrow> clamp v lo hi = v)"
  by (auto simp: clamp_def min_c_def max_c_def)

text \<open>The typed clamp is the plain one of the casts: casting what is cast already changes nothing.\<close>

lemma clamp_t_clamp:
  assumes "\<And>x. cast (cast x) = cast x"
  shows "clamp_t cast v lo hi = clamp (cast v) (cast lo) (cast hi)"
  by (simp add: clamp_t_def clamp_def min_t_def max_t_def min_c_def max_c_def Let_def assms)

text \<open>A value is cut to the type before it is compared: on a 16-bit one, what lies beyond the type is not clamped
  to the bound but wraps.\<close>

lemma clamp_val_u16:
  "clamp_val to_u16 v 0 0xffff = v mod 2 ^ 16"
  using pos_mod_bound [of "2 ^ 16" v] pos_mod_sign [of "2 ^ 16" v]
  by (auto simp: clamp_val_def clamp_t_def min_t_def max_t_def to_u16_def Let_def uint_word_of_int take_bit_eq_mod)

lemma container_of_member: "container_of (ptr + offset) offset = ptr"
  by (simp add: container_of_def)

lemma ARRAY_SIZE_elements: "0 < k \<Longrightarrow> ARRAY_SIZE (n * k) k = n"
  by (simp add: ARRAY_SIZE_def)

lemma do_div_spec: "do_div n b = Some (q, r) \<Longrightarrow> unat n = unat q * unat b + unat r \<and> unat r < unat b"
  by (auto simp: do_div_def unat_div unat_mod unat_gt_0 split: if_splits)

lemma DIV_ROUND_UP_spec:
  assumes "DIV_ROUND_UP n d = Some q" "unat n + unat d \<le> 2 ^ 32"
  shows "unat n \<le> unat q * unat d \<and> unat q * unat d < unat n + unat d"
proof -
  have d: "0 < unat d" using assms(1) by (simp add: DIV_ROUND_UP_def unat_gt_0 split: if_splits)
  have "n + d - 1 = word_of_nat (unat n + (unat d - 1))"
    using d by (simp add: of_nat_diff Suc_leI)
  then have "unat (n + d - 1) = (unat n + (unat d - 1)) mod 2 ^ 32"
    by (simp only: unat_of_nat take_bit_eq_mod) simp
  then have "unat (n + d - 1) = unat n + (unat d - 1)" using assms(2) d by simp
  then have q: "unat q = (unat n + (unat d - 1)) div unat d"
    using assms(1) by (auto simp: DIV_ROUND_UP_def unat_div split: if_splits)
  then have "unat q * unat d + (unat n + (unat d - 1)) mod unat d = unat n + (unat d - 1)" by simp
  moreover have "(unat n + (unat d - 1)) mod unat d < unat d" using d by simp
  ultimately show ?thesis using d by linarith
qed

subsection \<open>Time\<close>

text \<open>Seconds and nanoseconds of the monotonic clock.\<close>

definition linuxdvbkpi_now_ms :: "int \<Rightarrow> int \<Rightarrow> u64" where
  "linuxdvbkpi_now_ms sec nsec = word_of_int sec * 1000 + word_of_int (nsec div 1000000)"

definition msecs_to_jiffies :: "u32 \<Rightarrow> u64" where "msecs_to_jiffies ms = ucast ms"
definition jiffies_to_msecs :: "u64 \<Rightarrow> u32" where "jiffies_to_msecs j = ucast j"

definition time_after :: "u64 \<Rightarrow> u64 \<Rightarrow> bool" where "time_after a b \<longleftrightarrow> sint (b - a) < 0"
definition time_before :: "u64 \<Rightarrow> u64 \<Rightarrow> bool" where "time_before a b \<longleftrightarrow> time_after b a"
definition time_after_eq :: "u64 \<Rightarrow> u64 \<Rightarrow> bool" where "time_after_eq a b \<longleftrightarrow> sint (a - b) \<ge> 0"
definition time_before_eq :: "u64 \<Rightarrow> u64 \<Rightarrow> bool" where "time_before_eq a b \<longleftrightarrow> time_after_eq b a"

text \<open>The comparisons are right across the wrap of the counter, for times less than half its range apart.\<close>

lemma time_compare:
  assumes "\<bar>a - b\<bar> < 2 ^ 63"
  shows "time_after (word_of_int a) (word_of_int b) \<longleftrightarrow> b < a"
    "time_after_eq (word_of_int a) (word_of_int b) \<longleftrightarrow> b \<le> a"
proof -
  have "sint (word_of_int (b - a) :: u64) = b - a" "sint (word_of_int (a - b) :: u64) = a - b"
    using assms by (simp_all only: sint_of_int_64) (simp_all add: abs_less_iff)
  then show "time_after (word_of_int a) (word_of_int b) \<longleftrightarrow> b < a"
    "time_after_eq (word_of_int a) (word_of_int b) \<longleftrightarrow> b \<le> a"
    by (simp_all add: time_after_def time_after_eq_def)
qed

definition udelay :: "u32 \<Rightarrow> wire \<Rightarrow> wire" where "udelay us w = w @ [Sleep_us (unat us)]"

text \<open>The mean of the two, cut to 32 bits.\<close>

definition usleep_range :: "u64 \<Rightarrow> u64 \<Rightarrow> wire \<Rightarrow> wire" where
  "usleep_range min_us max_us w = udelay (ucast ((min_us + max_us) div 2)) w"

subsection \<open>The debug switch\<close>

text \<open>\<open>cached\<close> is the function's static variable, -1 at first; the environment is read once.\<close>

definition dvb_debug_enabled :: "string option \<Rightarrow> int \<Rightarrow> int \<times> int" where
  "dvb_debug_enabled getenv cached =
     (let cached = (if cached < 0
                    then (case getenv of None \<Rightarrow> 0 | Some e \<Rightarrow> if e \<noteq> [] \<and> e \<noteq> ''0'' then 1 else 0)
                    else cached)
      in (cached, cached))"

text \<open>The macro: the message, formatted, on standard error when the switch is on; \<open>err\<close> is what was written there
  before.\<close>

definition DVBDBG :: "string option \<Rightarrow> string \<Rightarrow> int \<Rightarrow> string \<Rightarrow> int \<times> string" where
  "DVBDBG getenv msg cached err =
     (let (on, cached) = dvb_debug_enabled getenv cached
      in (cached, if on \<noteq> 0 then err @ ''[dvb_dbg] '' @ msg @ [CHR 0x0A] else err))"

lemma DVBDBG_off: "getenv = None \<or> getenv = Some [] \<or> getenv = Some ''0'' \<Longrightarrow> cached < 0 \<Longrightarrow>
    DVBDBG getenv msg cached err = (0, err)"
  by (auto simp: DVBDBG_def dvb_debug_enabled_def Let_def)

lemma dvb_debug_once:
  "dvb_debug_enabled later (snd (dvb_debug_enabled first cached)) = dvb_debug_enabled first cached"
  by (auto simp: dvb_debug_enabled_def Let_def split: option.splits)

end
