(* ===== verification/Ts_Pipeline.thy ===== *)
theory Ts_Pipeline
  imports Stream_Race Pid_Dump
begin

text \<open>
  The whole way of the transport stream, from the completions of the USB transfers (\<open>stream_xfer_cb\<close> in
  \<open>usbq/src/usbq.c\<close>) through the ring and \<open>usbq_stream_read\<close> to the packets the dumper writes
  (\<open>tools/dvb_pid_dump.c\<close>). The two threads interleave: libusb finishes a transfer, the event thread takes its
  steps of \<open>Stream_Race\<close>, and the dumper's loop takes a read (the section under the mutex that empties the ring) with
  the framing of what it got. While the dumper streams it neither restarts nor closes, so no transfer is cancelled.

  Beside the state stand what libusb reported, transfer by transfer and whatever the callback made of it, and the bytes
  read. What a transfer delivers is said of libusb's report alone: its data, when it completed or timed out (a
  timed-out transfer hands over what had arrived) while the stream was not stopping.
\<close>

text \<open>A finished transfer, with the stop flag of the stream at that time.\<close>

type_synonym finished = "bool \<times> completion"

definition carries :: "finished \<Rightarrow> bool" where
  "carries f \<longleftrightarrow> \<not> fst f \<and> co_status (snd f) \<in> {Xfer_Completed, Xfer_Timed_Out}"

definition delivered :: "finished list \<Rightarrow> bytes" where
  "delivered fs = concat (map (\<lambda>f. co_data (snd f)) (filter carries fs))"

text \<open>The bytes of failed transfers and of transfers that came too late, and the bytes of all.\<close>

definition refused :: "finished list \<Rightarrow> nat" where
  "refused fs = sum_list (map (\<lambda>f. length (co_data (snd f))) (filter (\<lambda>f. \<not> carries f) fs))"

definition arrived :: "finished list \<Rightarrow> nat" where
  "arrived fs = sum_list (map (\<lambda>f. length (co_data (snd f))) fs)"

record pipe =
  pi_sys :: sys
  pi_dump :: dump
  pi_left :: bool     \<comment> \<open>the streaming loop has been left\<close>
  pi_done :: "finished list"
  pi_read :: bytes

definition pipe_start :: "stream \<Rightarrow> pipe" where
  "pipe_start s = \<lparr>pi_sys = sys_init s, pi_dump = dump_start, pi_left = False, pi_done = [], pi_read = []\<rparr>"

text \<open>A transfer out of flight, its callback begun (\<open>deliver_done\<close> of \<open>Stream_Race\<close>).\<close>

definition finish_xfer :: "completion \<Rightarrow> sys \<Rightarrow> sys" where
  "finish_xfer c y = y\<lparr>sy_xfers := (sy_xfers y)[co_slot c := X_Idle],
     sy_ev := if cb_wants_data (sy_stream y) c then Ev_Data c else Ev_Check (co_slot c)\<rparr>"

definition may_finish :: "completion \<Rightarrow> sys \<Rightarrow> bool" where
  "may_finish c y \<longleftrightarrow> sy_ev y = Ev_Idle \<and> co_slot c < length (sy_xfers y) \<and> sy_xfers y ! co_slot c = X_Flight \<and>
     co_status c \<noteq> Xfer_Cancelled"

lemma finish_xfer_step: "may_finish c y \<Longrightarrow> stream_step ok y (finish_xfer c y)"
  using stream_step.deliver_done [of y c ok] by (simp add: may_finish_def finish_xfer_def)

text \<open>The bytes of the callback that is about to push.\<close>

definition in_hand :: "sys \<Rightarrow> bytes" where
  "in_hand y = (case sy_ev y of Ev_Data c \<Rightarrow> co_data c | _ \<Rightarrow> [])"

inductive pipe_step :: "bool \<Rightarrow> pid_filter \<Rightarrow> (bytes list \<Rightarrow> int option) \<Rightarrow> pipe \<Rightarrow> pipe \<Rightarrow> bool"
  for ok :: bool and flt :: pid_filter and wr :: "bytes list \<Rightarrow> int option" where
  transfer_ends:
    "may_finish c (pi_sys p) \<Longrightarrow>
     pipe_step ok flt wr p
       (p\<lparr>pi_sys := finish_xfer c (pi_sys p), pi_done := pi_done p @ [(stopping (sy_stream (pi_sys p)), c)]\<rparr>)"
| event_thread:
    "stream_step ok (pi_sys p) y \<Longrightarrow> sy_ev (pi_sys p) \<noteq> Ev_Idle \<Longrightarrow> sy_ev y \<noteq> sy_ev (pi_sys p) \<Longrightarrow>
     pipe_step ok flt wr p (p\<lparr>pi_sys := y\<rparr>)"
| reads:
    "\<not> pi_left p \<Longrightarrow> sy_api (pi_sys p) = Api_Idle \<Longrightarrow>
     ring_dequeue (sy_stream (pi_sys p)) (read_want (pi_dump p)) = (got, s) \<Longrightarrow> got \<noteq> [] \<Longrightarrow>
     dump_round flt wr got (pi_dump p) = (failed, d) \<Longrightarrow>
     pipe_step ok flt wr p
       (p\<lparr>pi_sys := (pi_sys p)\<lparr>sy_stream := s\<rparr>, pi_dump := d, pi_left := failed, pi_read := pi_read p @ got\<rparr>)"
| leaves:
    "pipe_step ok flt wr p (p\<lparr>pi_left := True\<rparr>)"

abbreviation "pipe_runs ok flt wr \<equiv> (pipe_step ok flt wr)\<^sup>*\<^sup>*"

subsection \<open>What a section does to the ring\<close>

lemma ring_list_updates [simp]:
  "ring_list (s\<lparr>urbs := us\<rparr>) = ring_list s" "ring_list (s\<lparr>pending_cancel := n\<rparr>) = ring_list s"
  "ring_list (s\<lparr>stopping := b\<rparr>) = ring_list s" for s :: stream
  by (simp_all add: ring_list_def)

lemma cb_cancelled_ring [simp]:
  "ring_list (cb_cancelled s) = ring_list s" "overflow_bytes (cb_cancelled s) = overflow_bytes s"
  "ring_list (cb_fail s) = ring_list s" "overflow_bytes (cb_fail s) = overflow_bytes s"
  by (simp_all add: cb_cancelled_def cb_fail_def Let_def)

lemma event_thread_ring:
  assumes "stream_step ok y y'" "sy_ev y \<noteq> Ev_Idle" "sy_ev y' \<noteq> sy_ev y" "ring_wf (sy_stream y)"
  shows "ring_list (sy_stream y') = newest (ring_cap (sy_stream y)) (ring_list (sy_stream y) @ in_hand y) \<and>
    overflow_bytes (sy_stream y') = overflow_bytes (sy_stream y)
      + word_of_nat (ring_used (sy_stream y) + length (in_hand y) - ring_cap (sy_stream y)) \<and>
    in_hand y' = []"
  using assms(1)
proof (cases rule: stream_step.cases)
  case (ev_data c)
  then show ?thesis
    using assms(4) by (simp add: in_hand_def cb_push_def ring_push_list ring_push_overflow)
qed (use assms in \<open>simp_all add: in_hand_def ring_wf_def cb_cancelled_def cb_fail_def Let_def\<close>)

text \<open>The callback takes up exactly what a transfer delivers.\<close>

lemma wants_delivered:
  "in_hand (finish_xfer c y) = (if carries (stopping (sy_stream y), c) then co_data c else [])"
  by (auto simp: in_hand_def finish_xfer_def cb_wants_data_def carries_def)

lemma delivered_snoc: "delivered (fs @ [f]) = delivered fs @ (if carries f then co_data (snd f) else [])"
  by (simp add: delivered_def)

lemma arrived_split: "arrived fs = length (delivered fs) + refused fs"
  by (induction fs) (simp_all add: arrived_def delivered_def refused_def)

lemma subseq_drop_end: "subseq xs (xs @ ys)"
  using list_emb_append2 [of "(=)" xs xs ys] list_emb_prefix [of "(=)" xs xs ys] by simp

lemma dump_rounds_snoc:
  "dump_rounds flt wr gots d = (False, d1) \<Longrightarrow> dump_rounds flt wr (gots @ [got]) d = dump_round flt wr got d1"
proof (induction gots arbitrary: d)
  case Nil
  then show ?case by (cases "dump_round flt wr got d") auto
next
  case (Cons g gots)
  then show ?case by (cases "dump_round flt wr g d") (auto split: if_splits)
qed

subsection \<open>Every byte is accounted for\<close>

definition accounted :: "stream \<Rightarrow> bytes \<Rightarrow> bytes \<Rightarrow> bool" where
  "accounted s rd pushed \<longleftrightarrow>
     (\<exists>lost. overflow_bytes s = word_of_nat lost \<and> lost + length rd + ring_used s = length pushed \<and>
             (lost = 0 \<longrightarrow> rd @ ring_list s = pushed))"

definition pipe_inv :: "pid_filter \<Rightarrow> (bytes list \<Rightarrow> int option) \<Rightarrow> pipe \<Rightarrow> bool" where
  "pipe_inv flt wr p \<longleftrightarrow>
     (let s = sy_stream (pi_sys p) in
      sys_inv (pi_sys p) \<and>
      (\<exists>gots failed. dump_rounds flt wr gots dump_start = (failed, pi_dump p) \<and> concat gots = pi_read p \<and>
                     (failed \<longrightarrow> pi_left p)) \<and>
      (\<exists>pushed. delivered (pi_done p) = pushed @ in_hand (pi_sys p) \<and>
                subseq (pi_read p @ ring_list s) pushed \<and> accounted s (pi_read p) pushed))"

lemma accounted_push:
  assumes "accounted s rd pushed" "ring_wf s" "ring_list s' = newest (ring_cap s) (ring_list s @ b)"
    "overflow_bytes s' = overflow_bytes s + word_of_nat (ring_used s + length b - ring_cap s)"
  shows "accounted s' rd (pushed @ b)"
proof -
  obtain lost where lost: "overflow_bytes s = word_of_nat lost" "lost + length rd + ring_used s = length pushed"
    "lost = 0 \<longrightarrow> rd @ ring_list s = pushed"
    using assms(1) by (auto simp: accounted_def)
  have used: "ring_used s \<le> ring_cap s" using assms(2) by (simp add: ring_wf_def)
  have len: "ring_used s' = min (ring_cap s) (ring_used s + length b)"
    using arg_cong [OF assms(3), of length] by simp
  have "overflow_bytes s' = word_of_nat (lost + (ring_used s + length b - ring_cap s))"
    using assms(4) lost(1) by simp
  moreover have "lost + (ring_used s + length b - ring_cap s) + length rd + ring_used s' = length (pushed @ b)"
    using lost(2) used len by (simp add: min_def)
  moreover have "rd @ ring_list s' = pushed @ b" if "lost + (ring_used s + length b - ring_cap s) = 0"
    using that assms(3) lost(3) by simp
  ultimately show ?thesis
    unfolding accounted_def
    by (intro exI [of _ "lost + (ring_used s + length b - ring_cap s)"] conjI impI)
qed

lemma accounted_read:
  assumes "accounted s rd pushed" "ring_list s = got @ ring_list s'" "overflow_bytes s' = overflow_bytes s"
  shows "accounted s' (rd @ got) pushed"
proof -
  have "ring_used s = length got + ring_used s'" using arg_cong [OF assms(2), of length] by simp
  then show ?thesis using assms by (auto simp: accounted_def add.assoc)
qed

lemma pipe_inv_start:
  assumes "stream_ready s"
  shows "pipe_inv flt wr (pipe_start s)"
proof -
  have "ring_list s = []" using assms by (simp add: stream_ready_def ring_list_def)
  moreover have "dump_rounds flt wr [] dump_start = (False, dump_start)" by simp
  moreover have "accounted s [] []"
    using assms calculation(1) by (auto simp: accounted_def stream_ready_def intro!: exI [of _ 0])
  ultimately show ?thesis
    using sys_inv_init [OF assms]
    by (auto simp: pipe_inv_def pipe_start_def sys_init_def in_hand_def delivered_def Let_def intro!: exI [of _ "[]"])
qed

lemma pipe_step_inv: "pipe_step ok flt wr p p' \<Longrightarrow> pipe_inv flt wr p \<Longrightarrow> pipe_inv flt wr p'"
proof (induction rule: pipe_step.induct)
  case (transfer_ends c p)
  let ?y = "pi_sys p"
  have "in_hand ?y = []" using transfer_ends(1) by (simp add: may_finish_def in_hand_def)
  moreover have "sy_stream (finish_xfer c ?y) = sy_stream ?y" by (simp add: finish_xfer_def)
  moreover have "sys_inv (finish_xfer c ?y)"
    using step_inv [OF finish_xfer_step [OF transfer_ends(1)]] transfer_ends(2) by (simp add: pipe_inv_def Let_def)
  ultimately show ?case
    using transfer_ends(2) by (simp add: pipe_inv_def Let_def delivered_snoc wants_delivered)
next
  case (event_thread p y)
  let ?s = "sy_stream (pi_sys p)" and ?s' = "sy_stream y" and ?b = "in_hand (pi_sys p)"
  obtain pushed where pushed: "delivered (pi_done p) = pushed @ ?b" "subseq (pi_read p @ ring_list ?s) pushed"
    "accounted ?s (pi_read p) pushed"
    using event_thread(4) by (auto simp: pipe_inv_def Let_def)
  have inv: "sys_inv (pi_sys p)" using event_thread(4) by (simp add: pipe_inv_def Let_def)
  then have wf: "ring_wf ?s" by (simp add: sys_inv_def)
  note r = event_thread_ring [OF event_thread(1-3) wf]
  have sub: "subseq (pi_read p @ ring_list ?s') (pushed @ ?b)"
  proof -
    have "subseq (ring_list ?s') (ring_list ?s @ ?b)" using r subseq_newest by simp
    then have "subseq (pi_read p @ ring_list ?s') ((pi_read p @ ring_list ?s) @ ?b)"
      by (simp only: append_assoc subseq_append')
    also have "subseq \<dots> (pushed @ ?b)"
      by (rule list_emb_append_mono [OF pushed(2) subseq_order.refl])
    finally (subseq_order.trans) show ?thesis .
  qed
  have "accounted ?s' (pi_read p) (pushed @ ?b)" using accounted_push [OF pushed(3) wf] r by simp
  then show ?case
    using event_thread(4) sub step_inv [OF event_thread(1) inv] pushed(1) r by (auto simp: pipe_inv_def Let_def)
next
  case (reads p got s failed d)
  let ?s = "sy_stream (pi_sys p)" and ?n = "read_want (pi_dump p)"
  obtain pushed where pushed: "delivered (pi_done p) = pushed @ in_hand (pi_sys p)"
    "subseq (pi_read p @ ring_list ?s) pushed" "accounted ?s (pi_read p) pushed"
    using reads(6) by (auto simp: pipe_inv_def Let_def)
  have inv: "sys_inv (pi_sys p)" using reads(6) by (simp add: pipe_inv_def Let_def)
  then have wf: "ring_wf ?s" by (simp add: sys_inv_def)
  have got: "got = take ?n (ring_list ?s)" "ring_list s = drop ?n (ring_list ?s)"
    "overflow_bytes s = overflow_bytes ?s"
    using ring_dequeue_out [OF wf, of ?n] ring_dequeue_list [OF wf, of ?n] ring_dequeue_frame(2) [of ?s ?n] reads(3)
    by simp_all
  have "sys_inv ((pi_sys p)\<lparr>sy_stream := s\<rparr>)"
    using step_inv [OF stream_step.caller_reads [OF reads(2), where ok = ok and cap = ?n] inv] reads(3) by simp
  moreover obtain gots where g: "dump_rounds flt wr gots dump_start = (False, pi_dump p)" "concat gots = pi_read p"
    using reads(1,6) by (auto simp: pipe_inv_def Let_def)
  then have "dump_rounds flt wr (gots @ [got]) dump_start = (failed, d)" using dump_rounds_snoc reads(5) by simp
  then have "\<exists>gots failed'. dump_rounds flt wr gots dump_start = (failed', d) \<and> concat gots = pi_read p @ got \<and>
      (failed' \<longrightarrow> failed)"
    using g(2) by (intro exI [of _ "gots @ [got]"]) auto
  moreover have cut: "ring_list ?s = got @ ring_list s" using got by simp
  moreover have "accounted s (pi_read p @ got) pushed" by (rule accounted_read [OF pushed(3) cut got(3)])
  ultimately show ?case
    using pushed unfolding pipe_inv_def Let_def by (auto simp: in_hand_def)
next
  case (leaves p)
  then show ?case by (auto simp: pipe_inv_def Let_def)
qed

lemma pipe_runs_inv: "pipe_runs ok flt wr p p' \<Longrightarrow> pipe_inv flt wr p \<Longrightarrow> pipe_inv flt wr p'"
  by (induction rule: rtranclp_induct) (auto intro: pipe_step_inv)

lemma pipe_reached:
  assumes "stream_ready s" "pipe_runs ok flt wr (pipe_start s) p"
  shows "pipe_inv flt wr p"
  by (rule pipe_runs_inv [OF assms(2) pipe_inv_start [OF assms(1)]])

subsection \<open>A run\<close>

text \<open>One transfer carries two null packets; the event thread pushes them and the dumper reads them.\<close>

definition two_packets :: "bytes list" where
  "two_packets = [null_packet, null_packet]"

lemma two_packets_stream: "ts_stream two_packets" "length (concat two_packets) = 376"
  by (simp_all add: two_packets_def ts_stream_def TS_PACKET_def null_packet_def)

lemma demo_run:
  assumes "stream_ready s" "376 \<le> ring_cap s" "st \<in> {Xfer_Completed, Xfer_Timed_Out}"
  shows "\<exists>p. pipe_runs ok flt (\<lambda>_. None) (pipe_start s) p \<and>
    pi_done p = [(False, \<lparr>co_slot = 0, co_status = st, co_data = concat two_packets\<rparr>)] \<and>
    pi_read p = concat two_packets \<and> overflow_bytes (sy_stream (pi_sys p)) = 0"
proof -
  let ?b = "concat two_packets" and ?wr = "\<lambda>_. None"
  define c where "c = \<lparr>co_slot = 0, co_status = st, co_data = ?b\<rparr>"
  define y1 where "y1 = finish_xfer c (sys_init s)"
  define y2 where "y2 = y1\<lparr>sy_stream := cb_push s c, sy_ev := Ev_Check 0\<rparr>"
  define p1 where "p1 = (pipe_start s)\<lparr>pi_sys := y1, pi_done := [(False, c)]\<rparr>"
  define p2 where "p2 = p1\<lparr>pi_sys := y2\<rparr>"
  have b: "?b \<noteq> []" by (simp add: two_packets_def null_packet_def)
  have ready: "ring_wf s" "ring_used s = 0" "overflow_bytes s = 0" "0 < pool_depth s" "\<not> stopping s"
    using assms(1) by (auto simp: stream_ready_def pool_depth_def)
  have q: "ring_list s = []" by (simp add: ring_list_def ready(2))
  have y1: "y1 = (sys_init s)\<lparr>sy_xfers := (replicate (pool_depth s) X_Flight)[0 := X_Idle], sy_ev := Ev_Data c\<rparr>"
    using ready(5) b assms(3) by (auto simp: y1_def finish_xfer_def c_def sys_init_def cb_wants_data_def)
  have s1: "may_finish c (sys_init s)"
    using ready(4) assms(3) by (auto simp: may_finish_def c_def sys_init_def)
  have s2: "stream_step ok y1 y2"
    using stream_step.ev_data [of y1 c ok] by (simp add: y1 y2_def c_def sys_init_def mutex_free_def)
  have pushed: "ring_wf (sy_stream y2)" "ring_list (sy_stream y2) = ?b" "overflow_bytes (sy_stream y2) = 0"
    using ready q assms(2) two_packets_stream(2)
    by (simp_all add: y2_def y1 sys_init_def cb_push_def c_def ring_push_wf ring_push_list ring_push_overflow)
  obtain got s3 where rd: "ring_dequeue (sy_stream y2) (read_want dump_start) = (got, s3)" by fastforce
  have want: "376 \<le> read_want dump_start"
    by (simp add: read_want_def dump_start_def STAGE_SZ_def READ_SZ_def TS_PACKET_def Let_def)
  have got: "got = ?b" "overflow_bytes s3 = 0"
    using ring_dequeue_out [OF pushed(1), of "read_want dump_start"] ring_dequeue_frame(2) [of "sy_stream y2"
        "read_want dump_start"] rd pushed want two_packets_stream(2) by simp_all
  have "clean_state flt two_packets 0 = dump_start" by (simp add: clean_state_def dump_start_def)
  then have "dump_round flt ?wr got dump_start = (False, clean_state flt two_packets 376)"
    using clean_round [OF two_packets_stream(1), of 0 ?b flt] got two_packets_stream(2) by simp
  moreover have at: "pi_sys p2 = y2" "pi_dump p2 = dump_start" "\<not> pi_left p2" "sy_api y2 = Api_Idle" "pi_read p2 = []"
    by (simp_all add: p2_def p1_def y2_def y1 pipe_start_def sys_init_def)
  ultimately have r: "pipe_step ok flt ?wr p2 (p2\<lparr>pi_sys := y2\<lparr>sy_stream := s3\<rparr>,
      pi_dump := clean_state flt two_packets 376, pi_left := False, pi_read := got\<rparr>)"
    using pipe_step.reads [where p = p2 and ok = ok and flt = flt and wr = ?wr] rd got(1) b by simp
  have e1: "pipe_step ok flt ?wr (pipe_start s) p1"
    using pipe_step.transfer_ends [where p = "pipe_start s" and c = c and ok = ok and flt = flt and wr = ?wr] s1 ready(5)
    by (simp add: p1_def pipe_start_def y1_def) (simp add: sys_init_def)
  have e2: "pipe_step ok flt ?wr p1 p2"
    using pipe_step.event_thread [where p = p1 and y = y2 and ok = ok and flt = flt and wr = ?wr] s2
    by (simp add: p2_def p1_def pipe_start_def y2_def y1)
  have "pipe_runs ok flt ?wr (pipe_start s) (p2\<lparr>pi_sys := y2\<lparr>sy_stream := s3\<rparr>,
      pi_dump := clean_state flt two_packets 376, pi_left := False, pi_read := got\<rparr>)"
    using e1 e2 r by (meson rtranclp.rtrancl_into_rtrancl rtranclp.rtrancl_refl)
  then show ?thesis using got by - (rule exI, rule conjI, assumption, simp add: p2_def p1_def c_def)
qed

definition wide_slot :: stream where
  "wide_slot = \<lparr>ring_buf = replicate 376 0, ring_cap = 376, ring_head = 0, ring_tail = 0, ring_used = 0,
     overflow_bytes = 0, urbs = [\<lparr>us_xfer = 7, us_buf = True, us_state = 0\<rparr>], pending_cancel = 0,
     stopping = False, wake_fd = -1\<rparr>"

lemma wide_slot_ready: "stream_ready wide_slot" "376 \<le> ring_cap wide_slot"
  by (simp_all add: wide_slot_def stream_ready_def ring_wf_def)

abbreviation all_pids :: pid_filter where
  "all_pids \<equiv> \<lparr>pf_pass_all = True, pf_pids = []\<rparr>"

subsection \<open>Properties\<close>

text \<open>C11: Whatever the device delivers, whenever the dumper gets to read, and whatever writes fail: the packets
  handed to \<open>write\<close> are whole, begin with the sync byte and carry a wanted PID, and their bytes are bytes delivered by
  transfers, in order. Every byte of every transfer libusb finished is accounted for: it was read, is still queued, is in
  the hand of the callback, is counted (modulo \<open>2 ^ 64\<close>) in the stream's overflow counter, or came with a transfer
  that failed or that finished after a failed resubmission had stopped the stream; the data of a transfer that
  completed or timed out on a running stream is never among the last.\<close>

theorem pipeline_accounts_for_bytes:
  assumes "stream_ready s" "pipe_runs ok flt wr (pipe_start s) p"
  shows "list_all (good_packet flt) (du_written (pi_dump p)) \<and>
    subseq (concat (du_written (pi_dump p))) (delivered (pi_done p)) \<and>
    (\<exists>lost. overflow_bytes (sy_stream (pi_sys p)) = word_of_nat lost \<and>
       arrived (pi_done p) = length (pi_read p) + ring_used (sy_stream (pi_sys p)) + length (in_hand (pi_sys p))
         + lost + refused (pi_done p))"
proof -
  have inv: "pipe_inv flt wr p" by (rule pipe_reached [OF assms])
  then obtain gots failed where g: "dump_rounds flt wr gots dump_start = (failed, pi_dump p)" "concat gots = pi_read p"
    by (auto simp: pipe_inv_def Let_def)
  obtain pushed where pushed: "delivered (pi_done p) = pushed @ in_hand (pi_sys p)"
    "subseq (pi_read p @ ring_list (sy_stream (pi_sys p))) pushed" "accounted (sy_stream (pi_sys p)) (pi_read p) pushed"
    using inv by (auto simp: pipe_inv_def Let_def)
  have "dump_inv flt dump_start []" by (simp add: dump_inv_def dump_ok_def dump_start_def)
  from dump_rounds_spec [OF g(1) this]
  have d: "dump_ok flt (pi_dump p)" "subseq (concat (du_written (pi_dump p))) (pi_read p)"
    by (simp_all add: dump_start_def g(2))
  have "subseq (pi_read p) pushed" using pushed(2) subseq_order.trans [OF subseq_drop_end] by blast
  then have "subseq (concat (du_written (pi_dump p))) (delivered (pi_done p))"
    using d(2) subseq_order.trans subseq_drop_end pushed(1) by metis
  moreover obtain lost where "overflow_bytes (sy_stream (pi_sys p)) = word_of_nat lost"
      "lost + length (pi_read p) + ring_used (sy_stream (pi_sys p)) = length pushed"
    using pushed(3) by (auto simp: accounted_def)
  ultimately show ?thesis using d(1) pushed(1)
    by (auto simp: dump_ok_def list_all_iff arrived_split intro!: exI [of _ lost])
qed

lemma pipeline_accounts_for_bytes_witness:
  "\<exists>p :: pipe. pi_done p = [(False, \<lparr>co_slot = 0, co_status = Xfer_Timed_Out, co_data = concat two_packets\<rparr>)] \<and>
    list_all (good_packet all_pids) (du_written (pi_dump p)) \<and>
    subseq (concat (du_written (pi_dump p))) (concat two_packets)"
proof -
  obtain p where p: "pipe_runs True all_pids (\<lambda>_. None) (pipe_start wide_slot) p"
    "pi_done p = [(False, \<lparr>co_slot = 0, co_status = Xfer_Timed_Out, co_data = concat two_packets\<rparr>)]"
    using demo_run [OF wide_slot_ready, of Xfer_Timed_Out True all_pids] by auto
  have "delivered (pi_done p) = concat two_packets" by (simp add: p(2) delivered_def carries_def)
  then show ?thesis
    using pipeline_accounts_for_bytes [OF wide_slot_ready(1) p(1)] p(2) by - (rule exI [of _ p], simp)
qed



end
