(* ===== verification/Watch_Race.thy ===== *)
theory Watch_Race
  imports Dvb_Devices
begin

text \<open>
  The watch of the lister with its three parties interleaved (\<open>tools/dvb_devices.c\<close>: the loop of \<open>watch_mode\<close>
  and the signal handler \<open>on_sigint\<close>; \<open>dvb_hotplug/src/dvb_hotplug.c\<close>: \<open>enqueue_and_wake\<close> on the event thread
  of libusb). They share the queue, the stop flag and the wake pipe. The event thread queues under the lock
  and writes its byte after it; the handler sets the flag and then writes. What the loop does by itself and
  the writes that are due are the steps of \<open>watch_own\<close>; \<open>watch_step\<close> adds what comes from outside: devices,
  signals, interrupted and failing polls.

  \<open>pcap\<close> is the capacity of the pipe; both ends do not block, so that a write into a full pipe adds nothing.
\<close>

datatype watch_pc =
    W_Check           \<comment> \<open>before the test of the stop flag\<close>
  | W_Poll            \<comment> \<open>in \<open>poll\<close>\<close>
  | W_Drain           \<comment> \<open>in the loop that reads the pipe empty\<close>
  | W_Pop             \<comment> \<open>in the loop that pops and prints\<close>
  | W_Left            \<comment> \<open>out of the loop\<close>

record watch_sys =
  wa_main :: watch_pc
  wa_hp :: hp_state
  wa_pipe :: nat          \<comment> \<open>bytes in the wake pipe\<close>
  wa_stop :: bool         \<comment> \<open>\<open>g_watch_stop\<close>\<close>
  wa_cb :: bool           \<comment> \<open>the event thread has queued and not yet written its byte\<close>
  wa_signals :: nat       \<comment> \<open>handlers that have set the flag and not yet written their byte\<close>
  wa_out :: string
  wa_queued :: "dvb_hotplug_event list"   \<comment> \<open>all the events queued, for the statements\<close>

definition watch_sys_start :: "hp_state \<Rightarrow> nat \<Rightarrow> string \<Rightarrow> watch_sys" where
  "watch_sys_start hp n out = \<lparr>wa_main = W_Check, wa_hp = hp, wa_pipe = n, wa_stop = False, wa_cb = False,
     wa_signals = 0, wa_out = out, wa_queued = hp_events hp\<rparr>"

text \<open>A byte into the pipe, and one \<open>read\<close> of the drain's 64-byte buffer.\<close>

definition pipe_write :: "nat \<Rightarrow> nat \<Rightarrow> nat" where
  "pipe_write pcap n = (if n < pcap then n + 1 else n)"

definition pipe_read :: "nat \<Rightarrow> nat" where
  "pipe_read n = n - min 64 n"

inductive watch_own :: "nat \<Rightarrow> watch_sys \<Rightarrow> watch_sys \<Rightarrow> bool" for pcap :: nat where
  stop_seen:
    "wa_main y = W_Check \<Longrightarrow> wa_stop y \<Longrightarrow> watch_own pcap y (y\<lparr>wa_main := W_Left\<rparr>)"
| go_on:
    "wa_main y = W_Check \<Longrightarrow> \<not> wa_stop y \<Longrightarrow> watch_own pcap y (y\<lparr>wa_main := W_Poll\<rparr>)"
| poll_ready:
    "wa_main y = W_Poll \<Longrightarrow> 0 < wa_pipe y \<Longrightarrow> watch_own pcap y (y\<lparr>wa_main := W_Drain\<rparr>)"
| drain:
    "wa_main y = W_Drain \<Longrightarrow> 0 < wa_pipe y \<Longrightarrow> watch_own pcap y (y\<lparr>wa_pipe := pipe_read (wa_pipe y)\<rparr>)"
| drained:
    "wa_main y = W_Drain \<Longrightarrow> wa_pipe y = 0 \<Longrightarrow> watch_own pcap y (y\<lparr>wa_main := W_Pop\<rparr>)"
| pop:
    "wa_main y = W_Pop \<Longrightarrow> dvb_hotplug_pop True (wa_hp y) = (1, Some ev, hp) \<Longrightarrow>
     watch_own pcap y (y\<lparr>wa_hp := hp, wa_out := wa_out y @ print_hotplug_event ev\<rparr>)"
| popped:
    "wa_main y = W_Pop \<Longrightarrow> dvb_hotplug_pop True (wa_hp y) = (rc, ev, hp) \<Longrightarrow> rc \<noteq> 1 \<Longrightarrow>
     watch_own pcap y (y\<lparr>wa_main := W_Check\<rparr>)"
| callback_writes:
    "wa_cb y \<Longrightarrow> watch_own pcap y (y\<lparr>wa_cb := False, wa_pipe := pipe_write pcap (wa_pipe y)\<rparr>)"
| handler_writes:
    "0 < wa_signals y \<Longrightarrow>
     watch_own pcap y (y\<lparr>wa_signals := wa_signals y - 1, wa_pipe := pipe_write pcap (wa_pipe y)\<rparr>)"

inductive watch_step :: "nat \<Rightarrow> watch_sys \<Rightarrow> watch_sys \<Rightarrow> bool" for pcap :: nat where
  own: "watch_own pcap y z \<Longrightarrow> watch_step pcap y z"
| callback_queues:
    "\<not> wa_cb y \<Longrightarrow> event_of e = Some ev \<Longrightarrow>
     watch_step pcap y (y\<lparr>wa_hp := hp_enqueue (wa_hp y) ev, wa_cb := hp_wake_fd (wa_hp y) \<ge> 0,
                          wa_queued := wa_queued y @ [ev]\<rparr>)"
| on_sigint:
    "watch_step pcap y (y\<lparr>wa_stop := True, wa_signals := wa_signals y + 1\<rparr>)"
| poll_interrupted:
    "wa_main y = W_Poll \<Longrightarrow> watch_step pcap y (y\<lparr>wa_main := W_Check\<rparr>)"
| poll_fails:
    "wa_main y = W_Poll \<Longrightarrow> watch_step pcap y (y\<lparr>wa_main := W_Left\<rparr>)"

abbreviation "watch_runs pcap \<equiv> (watch_step pcap)\<^sup>*\<^sup>*"

subsection \<open>No wake-up is lost\<close>

text \<open>Whoever has something to say to a loop at its \<open>poll\<close> has written its byte or is about to. The lines printed
  are those of events queued, in order.\<close>

definition watch_inv :: "string \<Rightarrow> watch_sys \<Rightarrow> bool" where
  "watch_inv out y \<longleftrightarrow>
     hp_live (wa_hp y) \<and> 0 \<le> hp_wake_fd (wa_hp y) \<and>
     (wa_main y \<in> {W_Check, W_Poll} \<and> hp_events (wa_hp y) \<noteq> [] \<longrightarrow> 0 < wa_pipe y \<or> wa_cb y) \<and>
     (wa_main y = W_Poll \<and> wa_stop y \<longrightarrow> 0 < wa_pipe y \<or> 0 < wa_signals y) \<and>
     (\<exists>shown. wa_out y = out @ concat (map print_hotplug_event shown) \<and>
              subseq (shown @ hp_events (wa_hp y)) (wa_queued y))"

lemma watch_inv_start:
  assumes "hp_live hp" "0 \<le> hp_wake_fd hp" "hp_events hp = [] \<or> 0 < n"
  shows "watch_inv out (watch_sys_start hp n out)"
  using assms by (auto simp: watch_inv_def watch_sys_start_def intro!: exI [of _ "[]"])

lemma pop_live:
  assumes "hp_live hp" "dvb_hotplug_pop True hp = (rc, ev, hp')"
  shows "(rc = 1 \<and> (\<exists>e. ev = Some e \<and> hp_events hp = e # hp_events hp' \<and> hp_live hp' \<and> hp_wake_fd hp' = hp_wake_fd hp))
    \<or> (rc = 0 \<and> hp' = hp \<and> hp_events hp = [])"
proof (cases "hp_q_used hp = 0")
  case True
  then show ?thesis using assms by (auto simp: dvb_hotplug_pop_def hp_live_def hp_events_def)
next
  case False
  have "hd (hp_events hp) = hp_queue hp ! hp_q_head hp"
    using assms(1) False nth_hp_events [of 0 hp] by (simp add: hd_conv_nth hp_live_def hp_inv_def flip: length_0_conv)
  moreover have "hp_events hp \<noteq> []" using False by (simp flip: length_0_conv)
  moreover have "hp' = hp_drop hp" "rc = 1" "ev = Some (hp_queue hp ! hp_q_head hp)"
    using assms False by (auto simp: dvb_hotplug_pop_def hp_live_def hp_drop_def)
  moreover have "hp_wake_fd (hp_drop hp) = hp_wake_fd hp" by (simp add: hp_drop_def)
  ultimately show ?thesis
    using hp_drop_live [OF assms(1) False] hp_drop_events [of hp] False by (cases "hp_events hp") auto
qed

lemma pipe_write_pos: "0 < pcap \<Longrightarrow> 0 < pipe_write pcap n"
  by (simp add: pipe_write_def)

lemma subseq_enqueue:
  assumes "hp_live hp" "subseq (xs @ hp_events hp) ys"
  shows "subseq (xs @ hp_events (hp_enqueue hp ev)) (ys @ [ev])"
proof -
  have "subseq (hp_events (hp_enqueue hp ev)) (hp_events hp @ [ev])"
    using hp_enqueue_spec [of hp ev] assms(1) subseq_newest by (simp add: hp_live_def)
  then have "subseq (xs @ hp_events (hp_enqueue hp ev)) ((xs @ hp_events hp) @ [ev])"
    by (simp only: append_assoc subseq_append')
  also have "subseq \<dots> (ys @ [ev])" by (rule list_emb_append_mono [OF assms(2) subseq_order.refl])
  finally (subseq_order.trans) show ?thesis .
qed

lemma watch_own_inv: "watch_own pcap y z \<Longrightarrow> 0 < pcap \<Longrightarrow> watch_inv out y \<Longrightarrow> watch_inv out z"
proof (induction rule: watch_own.induct)
  case (pop y ev hp)
  then obtain shown where s: "wa_out y = out @ concat (map print_hotplug_event shown)"
    "subseq (shown @ hp_events (wa_hp y)) (wa_queued y)"
    by (auto simp: watch_inv_def)
  have l: "hp_live hp" "hp_wake_fd hp = hp_wake_fd (wa_hp y)" "hp_events (wa_hp y) = ev # hp_events hp"
    using pop_live [OF _ pop(2)] pop(4) by (auto simp: watch_inv_def)
  then have "wa_out y @ print_hotplug_event ev = out @ concat (map print_hotplug_event (shown @ [ev]))"
    "subseq ((shown @ [ev]) @ hp_events hp) (wa_queued y)"
    using s by simp_all
  then have "\<exists>shown. wa_out y @ print_hotplug_event ev = out @ concat (map print_hotplug_event shown) \<and>
      subseq (shown @ hp_events hp) (wa_queued y)"
    by blast
  then show ?case using pop(1,4) l(1,2) by (simp add: watch_inv_def)
next
  case (popped y rc ev hp)
  then have "hp_events (wa_hp y) = []" using pop_live [OF _ popped(2)] by (auto simp: watch_inv_def)
  then show ?case using popped by (simp add: watch_inv_def)
qed (simp_all add: watch_inv_def pipe_write_pos)

lemma watch_step_inv: "watch_step pcap y z \<Longrightarrow> 0 < pcap \<Longrightarrow> watch_inv out y \<Longrightarrow> watch_inv out z"
proof (induction rule: watch_step.induct)
  case (own y z)
  then show ?case by (rule watch_own_inv)
next
  case (callback_queues y e ev)
  then obtain shown where s: "wa_out y = out @ concat (map print_hotplug_event shown)"
    "subseq (shown @ hp_events (wa_hp y)) (wa_queued y)"
    by (auto simp: watch_inv_def)
  have l: "hp_live (wa_hp y)" using callback_queues by (simp add: watch_inv_def)
  have "\<exists>shown. wa_out y = out @ concat (map print_hotplug_event shown) \<and>
      subseq (shown @ hp_events (hp_enqueue (wa_hp y) ev)) (wa_queued y @ [ev])"
    using s(1) subseq_enqueue [OF l s(2), of ev] by blast
  then show ?case using callback_queues(3,4) hp_enqueue_live [OF l] by (simp add: watch_inv_def)
qed (simp_all add: watch_inv_def)

lemma watch_runs_inv: "watch_runs pcap y z \<Longrightarrow> 0 < pcap \<Longrightarrow> watch_inv out y \<Longrightarrow> watch_inv out z"
  by (induction rule: rtranclp_induct) (auto intro: watch_step_inv)

subsection \<open>The loop settles\<close>

text \<open>What is left to do: the bytes due and in the pipe, each good for one turn of the loop, the events to print,
  and the way to the next rest.\<close>

definition watch_left :: "watch_sys \<Rightarrow> nat" where
  "watch_left y =
     10 * (wa_pipe y + 2 * (if wa_cb y then 1 else 0) + 2 * wa_signals y) + hp_q_used (wa_hp y)
     + (case wa_main y of W_Left \<Rightarrow> 0 | W_Poll \<Rightarrow> 1 | W_Check \<Rightarrow> 2 | W_Pop \<Rightarrow> 3
        | W_Drain \<Rightarrow> if 0 < wa_pipe y then 0 else 4)"

lemma pop_used: "dvb_hotplug_pop True hp = (rc, ev, hp') \<Longrightarrow>
    if rc = 1 then hp_q_used hp' < hp_q_used hp else hp' = hp"
  by (auto simp: dvb_hotplug_pop_def split: if_splits)

lemma watch_own_left: "watch_own pcap y z \<Longrightarrow> watch_left z < watch_left y"
proof (induction rule: watch_own.induct)
  case (pop y ev hp)
  then show ?case using pop_used [OF pop(2)] by (simp add: watch_left_def)
next
  case (drain y)
  moreover have "pipe_read (wa_pipe y) < wa_pipe y" using drain(2) by (simp add: pipe_read_def)
  ultimately show ?case by (simp add: watch_left_def)
next
  case (callback_writes y)
  then show ?case by (cases "wa_main y") (simp_all add: watch_left_def pipe_write_def)
next
  case (handler_writes y)
  then show ?case by (cases "wa_main y"; cases "wa_signals y") (simp_all add: watch_left_def pipe_write_def)
qed (simp_all add: watch_left_def)

lemma watch_own_bounded: "(watch_own pcap ^^ k) y z \<Longrightarrow> k + watch_left z \<le> watch_left y"
proof (induction k arbitrary: z)
  case (Suc k)
  then obtain x where x: "(watch_own pcap ^^ k) y x" "watch_own pcap x z" by auto
  show ?case using Suc.IH [OF x(1)] watch_own_left [OF x(2)] by simp
qed simp

lemma watch_own_signals: "watch_own pcap y z \<Longrightarrow> wa_stop z = wa_stop y"
  by (induction rule: watch_own.induct) simp_all

lemma watch_own_runs_stop: "(watch_own pcap)\<^sup>*\<^sup>* y z \<Longrightarrow> wa_stop z = wa_stop y"
  by (induction rule: rtranclp_induct) (simp_all add: watch_own_signals)

lemma watch_at_rest:
  assumes inv: "watch_inv out y" and rest: "\<not> (\<exists>z. watch_own pcap y z)"
  shows "wa_main y = W_Left \<or> (wa_main y = W_Poll \<and> \<not> wa_stop y \<and> hp_events (wa_hp y) = [])"
proof (cases "wa_main y")
  case W_Poll
  have "wa_pipe y = 0" "\<not> wa_cb y" "wa_signals y = 0"
    using rest W_Poll watch_own.poll_ready watch_own.callback_writes watch_own.handler_writes by blast+
  then show ?thesis using inv W_Poll by (auto simp: watch_inv_def)
next
  case W_Check
  then show ?thesis using rest watch_own.stop_seen watch_own.go_on by (cases "wa_stop y") blast+
next
  case W_Drain
  then show ?thesis using rest watch_own.drain watch_own.drained by (cases "wa_pipe y") blast+
next
  case W_Pop
  obtain rc ev hp where p: "dvb_hotplug_pop True (wa_hp y) = (rc, ev, hp)" by (metis prod_cases3)
  have live: "hp_live (wa_hp y)" using inv by (simp add: watch_inv_def)
  have "rc = 1" using rest watch_own.popped [OF W_Pop p, where pcap = pcap] by blast
  then obtain e where "dvb_hotplug_pop True (wa_hp y) = (1, Some e, hp)" using pop_live [OF live p] p by auto
  then show ?thesis using rest watch_own.pop [OF W_Pop, where pcap = pcap] by blast
qed simp

lemma own_runs_watch_runs: "(watch_own pcap)\<^sup>*\<^sup>* y z \<Longrightarrow> watch_runs pcap y z"
  by (induction rule: rtranclp_induct) (auto intro: rtranclp.rtrancl_into_rtrancl watch_step.own)

subsection \<open>Properties\<close>

text \<open>C5: The self-pipe works: once a signal has set the stop flag, wherever it arrived, the loop ends. However
  the steps of the three parties fall from then on, without a further event they come to an end within the
  bound of \<open>watch_left\<close>, no wait stands in their way, and where they end the loop has been left. Without a
  signal the loop comes to rest in its \<open>poll\<close> with an empty queue: no event stays behind in the queue while the
  loop sleeps. (The start is the state after a successful \<open>dvb_hotplug_init\<close>, which has written a byte for each
  event it queued.)\<close>

theorem watch_wakes:
  assumes "hp_live hp" "0 \<le> hp_wake_fd hp" "hp_events hp = [] \<or> 0 < n" "0 < pcap"
    "watch_runs pcap (watch_sys_start hp n out) y"
  shows "(\<forall>k z. (watch_own pcap ^^ k) y z \<longrightarrow> k \<le> watch_left y) \<and>
    (\<forall>z. (watch_own pcap)\<^sup>*\<^sup>* y z \<and> \<not> (\<exists>x. watch_own pcap z x) \<longrightarrow>
       wa_main z = W_Left \<or>
       (wa_main z = W_Poll \<and> \<not> wa_stop y \<and> hp_events (wa_hp z) = []))"
proof (intro conjI allI impI)
  fix k z assume "(watch_own pcap ^^ k) y z"
  then show "k \<le> watch_left y" using watch_own_bounded [of k pcap y z] by simp
next
  fix z assume z: "(watch_own pcap)\<^sup>*\<^sup>* y z \<and> \<not> (\<exists>x. watch_own pcap z x)"
  have "watch_runs pcap (watch_sys_start hp n out) z"
    using assms(5) own_runs_watch_runs [of pcap y z] z by (meson rtranclp_trans)
  then have "watch_inv out z" using watch_runs_inv [OF _ assms(4) watch_inv_start [OF assms(1-3)]] by blast
  from watch_at_rest [OF this conjunct2 [OF z]] watch_own_runs_stop [OF conjunct1 [OF z]]
  show "wa_main z = W_Left \<or> (wa_main z = W_Poll \<and> \<not> wa_stop y \<and> hp_events (wa_hp z) = [])" by simp
qed

text \<open>A watch that starts with nothing, and a signal that finds it in its \<open>poll\<close>.\<close>

definition quiet_watch :: watch_sys where
  "quiet_watch = watch_sys_start (hp_start\<lparr>hp_initialized := True, hp_wake_fd := 4\<rparr>) 0 []"

lemma quiet_watch_ok:
  "hp_live (hp_start\<lparr>hp_initialized := True, hp_wake_fd := 4\<rparr>)"
  "hp_events (hp_start\<lparr>hp_initialized := True, hp_wake_fd := 4\<rparr>) = []"
  by (simp_all add: hp_live_def hp_inv_start) (simp add: hp_start_def hp_events_def)

lemma quiet_watch_signal:
  "watch_runs 65536 quiet_watch (quiet_watch\<lparr>wa_main := W_Poll, wa_stop := True, wa_signals := 1\<rparr>)"
proof -
  let ?p = "quiet_watch\<lparr>wa_main := W_Poll\<rparr>"
  have "watch_step 65536 quiet_watch ?p"
    by (rule watch_step.own, rule watch_own.go_on) (simp_all add: quiet_watch_def watch_sys_start_def)
  moreover have "watch_step 65536 ?p (?p\<lparr>wa_stop := True, wa_signals := 1\<rparr>)"
    using watch_step.on_sigint [where y = ?p and pcap = 65536] by (simp add: quiet_watch_def watch_sys_start_def)
  ultimately show ?thesis by (meson rtranclp.rtrancl_into_rtrancl rtranclp.rtrancl_refl)
qed

lemma watch_wakes_witness:
  "let y = quiet_watch\<lparr>wa_main := W_Poll, wa_stop := True, wa_signals := 1\<rparr>
   in \<forall>z. (watch_own 65536)\<^sup>*\<^sup>* y z \<and> \<not> (\<exists>x. watch_own 65536 z x) \<longrightarrow> wa_main z = W_Left"
  using watch_wakes [OF quiet_watch_ok(1) _ _ _ quiet_watch_signal [unfolded quiet_watch_def]] quiet_watch_ok(2)
  by (simp add: Let_def quiet_watch_def)

text \<open>Whatever the interleaving, each line the watch has printed is that of an event that was queued, in the
  order they were queued, none twice, and those still in the queue come after them.\<close>

theorem watch_prints_in_order:
  assumes "hp_live hp" "0 \<le> hp_wake_fd hp" "hp_events hp = [] \<or> 0 < n" "0 < pcap"
    "watch_runs pcap (watch_sys_start hp n out) y"
  shows "\<exists>shown. wa_out y = out @ concat (map print_hotplug_event shown) \<and>
    subseq (shown @ hp_events (wa_hp y)) (wa_queued y)"
proof -
  have "watch_inv out y" using watch_runs_inv [OF assms(5,4) watch_inv_start [OF assms(1-3)]] .
  then show ?thesis by (simp add: watch_inv_def)
qed

lemma watch_prints_in_order_witness:
  "\<exists>shown. wa_out quiet_watch = concat (map print_hotplug_event shown)"
  using watch_prints_in_order [OF quiet_watch_ok(1), of 0 65536 "[]" quiet_watch] quiet_watch_ok(2)
  by (auto simp: quiet_watch_def)

end
