(* ===== verification/Int_Log.thy ===== *)
theory Int_Log
  imports Complex_Main Prelude
begin

text \<open>
  The fixed-point logarithm of the kernel (\<open>linuxdvbkpi/src/intlog.c\<close>). A \<open>double\<close> is the real number it stands for.
  The operations whose result may be rounded are parameters: \<open>lg\<close>, the C library's \<open>log10\<close>, and \<open>rnd\<close>, the
  rounding of the last addition. The conversion of a 32-bit number, the product with \<open>2 ^ 24\<close> (a power of two,
  and far from overflow) and the comparisons are exact.
\<close>

definition intlog10 :: "(real \<Rightarrow> real) \<Rightarrow> (real \<Rightarrow> real) \<Rightarrow> u32 \<Rightarrow> u32" where
  "intlog10 lg rnd v =
     (if v = 0 then 0
      else
        let l = lg (real (unat v));
            scaled = l * 2 ^ 24;
            scaled = (if scaled < 0 then 0 else scaled);
            scaled = (if scaled > 4294967295 then 4294967295 else scaled)
        in word_of_int \<lfloor>rnd (scaled + 1 / 2)\<rfloor>)"

text \<open>The accuracy asked of the platform: \<open>log10\<close> is right to \<open>2 ^ -48\<close> on this range (its values are below 10,
  where a unit in the last place is at most \<open>2 ^ -49\<close>), the addition to \<open>2 ^ -22\<close> (below \<open>2 ^ 29\<close>, where it is a quarter
  of that).\<close>

definition accurate :: "(real \<Rightarrow> real) \<Rightarrow> (real \<Rightarrow> real) \<Rightarrow> bool" where
  "accurate lg rnd \<longleftrightarrow>
     (\<forall>x. 1 \<le> x \<longrightarrow> x < 2 ^ 32 \<longrightarrow> \<bar>lg x - log 10 x\<bar> \<le> 1 / 2 ^ 48) \<and>
     (\<forall>y. 0 \<le> y \<longrightarrow> y < 2 ^ 29 \<longrightarrow> \<bar>rnd y - y\<bar> \<le> 1 / 2 ^ 22)"

lemma log10_range:
  assumes "1 \<le> x" "x < 2 ^ 32"
  shows "0 \<le> log 10 x" "log 10 x < 10"
proof -
  show "0 \<le> log 10 x" using assms(1) by simp
  have "x < 10 powr 10" using assms(2) by (simp add: powr_realpow [of 10 10, simplified])
  then show "log 10 x < 10" using assms(1) by (simp add: log_less_iff)
qed

text \<open>C32: The kernel's contract, within the accuracy of the platform's arithmetic: 0 for 0, and else \<open>log10\<close> of the
  number in units of \<open>2 ^ -24\<close>, off by less than one unit, as the code's comment says. Neither of its two clamps is
  ever needed on the way: the value stays below \<open>2 ^ 28\<close>.\<close>

theorem intlog10_accurate:
  assumes "accurate lg rnd"
  shows "intlog10 lg rnd 0 = 0 \<and>
    (v \<noteq> 0 \<longrightarrow> \<bar>real (unat (intlog10 lg rnd v)) - log 10 (real (unat v)) * 2 ^ 24\<bar> < 1 \<and>
       unat (intlog10 lg rnd v) < 2 ^ 28)"
proof (intro conjI impI)
  show "intlog10 lg rnd 0 = 0" by (simp add: intlog10_def)
next
  assume "v \<noteq> 0"
  define k where "k = unat v"
  define x where "x = real k"
  define t where "t = log 10 x * 2 ^ 24"
  define s where "s = (if lg x * 2 ^ 24 < 0 then 0 else lg x * 2 ^ 24)"
  define q where "q = rnd (s + 1 / 2)"
  have "0 < k" using \<open>v \<noteq> 0\<close> by (simp add: k_def unat_gt_0)
  moreover have "k < 2 ^ 32" using unsigned_less [of v, where 'a = nat] by (simp add: k_def)
  ultimately have x: "1 \<le> x" "x < 2 ^ 32" by (simp_all add: x_def)
  note t10 = log10_range [OF x]
  have "\<bar>lg x - log 10 x\<bar> \<le> 1 / 2 ^ 48" using assms x by (simp add: accurate_def)
  then have "\<bar>(lg x - log 10 x) * 2 ^ 24\<bar> \<le> 1 / 2 ^ 24" unfolding abs_mult by simp
  then have "\<bar>lg x * 2 ^ 24 - t\<bar> \<le> 1 / 2 ^ 24" by (simp only: t_def left_diff_distrib)
  moreover have "0 \<le> t" using t10 by (simp add: t_def)
  ultimately have s: "\<bar>s - t\<bar> \<le> 1 / 2 ^ 24" "0 \<le> s" by (auto simp: s_def abs_le_iff)
  have t: "t < 167772160" using t10 by (simp add: t_def)
  have "s \<le> t + 1" using abs_ge_self [of "s - t"] s(1) by simp
  then have "0 \<le> s + 1 / 2" "s + 1 / 2 < 2 ^ 29" using s(2) t by simp_all
  then have "\<bar>q - (s + 1 / 2)\<bar> \<le> 1 / 2 ^ 22" unfolding q_def using assms unfolding accurate_def by blast
  with s(1) have "q - (s + 1 / 2) \<le> 1 / 8" "(s + 1 / 2) - q \<le> 1 / 8" "s - t \<le> 1 / 16" "t - s \<le> 1 / 16"
    using abs_ge_self [of "q - (s + 1 / 2)"] abs_ge_minus_self [of "q - (s + 1 / 2)"]
      abs_ge_self [of "s - t"] abs_ge_minus_self [of "s - t"] by simp_all
  then have q: "q - t - 1 / 2 < 1 / 4" "t + 1 / 2 - q < 1 / 4" by simp_all
  then have f: "0 \<le> \<lfloor>q\<rfloor>" "\<lfloor>q\<rfloor> < 2 ^ 28" using \<open>0 \<le> t\<close> t by (simp_all add: abs_less_iff floor_less_iff)
  have "\<not> s > 4294967295" using \<open>s \<le> t + 1\<close> t by simp
  moreover have "real (unat v) = x" by (simp only: x_def k_def)
  ultimately have r: "intlog10 lg rnd v = word_of_int \<lfloor>q\<rfloor>"
    using \<open>v \<noteq> 0\<close> by (simp only: intlog10_def Let_def s_def [symmetric] q_def if_False)
  then have u: "unat (intlog10 lg rnd v) = nat \<lfloor>q\<rfloor>"
    using f by (simp add: unsigned_of_int take_bit_int_eq_self)
  show "\<bar>real (unat (intlog10 lg rnd v)) - log 10 (real (unat v)) * 2 ^ 24\<bar> < 1"
  proof -
    have "real (nat \<lfloor>q\<rfloor>) \<le> q" "q < real (nat \<lfloor>q\<rfloor>) + 1" using f by linarith+
    then have "\<bar>real (nat \<lfloor>q\<rfloor>) - t\<bar> < 1" using q by (intro abs_leI abs_less_iff [THEN iffD2] conjI) linarith+
    then show ?thesis by (simp only: u t_def x_def k_def)
  qed
  show "unat (intlog10 lg rnd v) < 2 ^ 28" unfolding u using f by (simp add: nat_less_iff)
qed

lemma accurate_exact: "accurate (log 10) id"
  by (simp add: accurate_def)

lemma intlog10_accurate_witness:
  "\<bar>real (unat (intlog10 (log 10) id 1000)) - 3 * 2 ^ 24\<bar> < 1"
proof -
  have "log 10 (1000 :: real) = 3" using log_nat_power [of 10 10 3] by simp
  then show ?thesis using intlog10_accurate [OF accurate_exact, of 1000] by simp
qed

end
