(* ===== verification/Frontend_Api.thy ===== *)
theory Frontend_Api
  imports Engine_Core Pid_Dump
begin

text \<open>
  The enumerations of the frontend interface (\<open>linuxdvbkpi/include/media/dvb_frontend.h\<close>) that the engines and the
  tools exchange with the chip drivers, with their numbers, and the agreement of the numbers the rest of the
  program uses for them: the status word an engine decodes, the parameter cache a tune fills in, the delivery
  systems of the board tables, and the dumper's own copies.
\<close>

subsection \<open>Enumerations\<close>

datatype fe_status =
  FE_NONE | FE_HAS_SIGNAL | FE_HAS_CARRIER | FE_HAS_VITERBI | FE_HAS_SYNC | FE_HAS_LOCK | FE_TIMEDOUT | FE_REINIT

primrec fe_status_value :: "fe_status \<Rightarrow> u32" where
  "fe_status_value FE_NONE = 0x00"
| "fe_status_value FE_HAS_SIGNAL = 0x01"
| "fe_status_value FE_HAS_CARRIER = 0x02"
| "fe_status_value FE_HAS_VITERBI = 0x04"
| "fe_status_value FE_HAS_SYNC = 0x08"
| "fe_status_value FE_HAS_LOCK = 0x10"
| "fe_status_value FE_TIMEDOUT = 0x20"
| "fe_status_value FE_REINIT = 0x40"

datatype fe_delivery_system =
    Undefined | Dvbc_Annex_A | Dvbc_Annex_B | Dvbt | Dss | Dvbs | Dvbs2 | Dvbh | Isdbt | Isdbs | Isdbc | Atsc
  | Atscmh | Dtmb | Cmmb | Dab | Dvbt2 | Turbo | Dvbc_Annex_C | Dvbc2

primrec fe_delivery_system_value :: "fe_delivery_system \<Rightarrow> u32" where
  "fe_delivery_system_value Undefined = 0"
| "fe_delivery_system_value Dvbc_Annex_A = 1"
| "fe_delivery_system_value Dvbc_Annex_B = 2"
| "fe_delivery_system_value Dvbt = 3"
| "fe_delivery_system_value Dss = 4"
| "fe_delivery_system_value Dvbs = 5"
| "fe_delivery_system_value Dvbs2 = 6"
| "fe_delivery_system_value Dvbh = 7"
| "fe_delivery_system_value Isdbt = 8"
| "fe_delivery_system_value Isdbs = 9"
| "fe_delivery_system_value Isdbc = 10"
| "fe_delivery_system_value Atsc = 11"
| "fe_delivery_system_value Atscmh = 12"
| "fe_delivery_system_value Dtmb = 13"
| "fe_delivery_system_value Cmmb = 14"
| "fe_delivery_system_value Dab = 15"
| "fe_delivery_system_value Dvbt2 = 16"
| "fe_delivery_system_value Turbo = 17"
| "fe_delivery_system_value Dvbc_Annex_C = 18"
| "fe_delivery_system_value Dvbc2 = 19"

datatype fe_modulation =
    Qpsk | Qam_16 | Qam_32 | Qam_64 | Qam_128 | Qam_256 | Qam_Auto | Vsb_8 | Vsb_16 | Psk_8 | Apsk_16 | Apsk_32
  | Dqpsk | Qam_4_Nr

primrec fe_modulation_value :: "fe_modulation \<Rightarrow> nat" where
  "fe_modulation_value Qpsk = 0"
| "fe_modulation_value Qam_16 = 1"
| "fe_modulation_value Qam_32 = 2"
| "fe_modulation_value Qam_64 = 3"
| "fe_modulation_value Qam_128 = 4"
| "fe_modulation_value Qam_256 = 5"
| "fe_modulation_value Qam_Auto = 6"
| "fe_modulation_value Vsb_8 = 7"
| "fe_modulation_value Vsb_16 = 8"
| "fe_modulation_value Psk_8 = 9"
| "fe_modulation_value Apsk_16 = 10"
| "fe_modulation_value Apsk_32 = 11"
| "fe_modulation_value Dqpsk = 12"
| "fe_modulation_value Qam_4_Nr = 13"

datatype fe_inversion = Inversion_Off | Inversion_On | Inversion_Auto

primrec fe_inversion_value :: "fe_inversion \<Rightarrow> nat" where
  "fe_inversion_value Inversion_Off = 0"
| "fe_inversion_value Inversion_On = 1"
| "fe_inversion_value Inversion_Auto = 2"

datatype fecap_scale_params = Scale_Not_Available | Scale_Decibel | Scale_Relative | Scale_Counter

primrec fecap_scale_value :: "fecap_scale_params \<Rightarrow> u8" where
  "fecap_scale_value Scale_Not_Available = 0"
| "fecap_scale_value Scale_Decibel = 1"
| "fecap_scale_value Scale_Relative = 2"
| "fecap_scale_value Scale_Counter = 3"

subsection \<open>Agreement\<close>

text \<open>The status word of a set of conditions, as a chip driver builds it.\<close>

definition status_word :: "fe_status list \<Rightarrow> u32" where
  "status_word fs = fold (\<lambda>f st. st OR fe_status_value f) fs 0"

lemma fe_status_bit:
  "bit (fe_status_value f) n \<longleftrightarrow>
     (n, f) \<in> {(0, FE_HAS_SIGNAL), (1, FE_HAS_CARRIER), (2, FE_HAS_VITERBI), (3, FE_HAS_SYNC), (4, FE_HAS_LOCK),
              (5, FE_TIMEDOUT), (6, FE_REINIT)}"
proof -
  have "bit (0x01 :: u32) n \<longleftrightarrow> n = 0" "bit (0x02 :: u32) n \<longleftrightarrow> n = 1" "bit (0x04 :: u32) n \<longleftrightarrow> n = 2"
    "bit (0x08 :: u32) n \<longleftrightarrow> n = 3" "bit (0x10 :: u32) n \<longleftrightarrow> n = 4" "bit (0x20 :: u32) n \<longleftrightarrow> n = 5"
    "bit (0x40 :: u32) n \<longleftrightarrow> n = 6"
    by (auto simp: bit_1_iff bit_numeral_rec split: nat.splits)
  then show ?thesis by (cases f) auto
qed

lemma bit_status_fold:
  "bit (fold (\<lambda>f st. st OR fe_status_value f) fs st) n \<longleftrightarrow> bit st n \<or> (\<exists>f \<in> set fs. bit (fe_status_value f) n)"
  by (induction fs arbitrary: st) (auto simp: bit_or_iff)

lemma bit_status_word: "bit (status_word fs) n \<longleftrightarrow> (\<exists>f \<in> set fs. bit (fe_status_value f) n)"
  by (simp add: status_word_def bit_status_fold)

text \<open>The engines and the chip drivers speak of the same conditions: from the status word of any set of
  conditions an engine reports exactly those of the set, whatever else the word says (timeouts,
  reinitialisation), and a carrier-to-noise ratio exactly when the driver gave one in decibels.\<close>

theorem status_decoded:
  "(let d = decode_status (status_word fs) c
    in (st_has_signal d \<longleftrightarrow> FE_HAS_SIGNAL \<in> set fs) \<and> (st_has_carrier d \<longleftrightarrow> FE_HAS_CARRIER \<in> set fs) \<and>
       (st_has_viterbi d \<longleftrightarrow> FE_HAS_VITERBI \<in> set fs) \<and> (st_has_sync d \<longleftrightarrow> FE_HAS_SYNC \<in> set fs) \<and>
       (st_has_lock d \<longleftrightarrow> FE_HAS_LOCK \<in> set fs) \<and>
       st_cnr_db_x1000 d =
         (if dp_cnr c \<noteq> [] \<and> fst (hd (dp_cnr c)) = fecap_scale_value Scale_Decibel
          then sint (word_of_int (snd (hd (dp_cnr c))) :: u32) else 0))"
  by (cases "dp_cnr c") (auto simp: decode_status_def bit_status_word fe_status_bit FE_SCALE_DECIBEL_def Let_def)

text \<open>The numbers of the engines and the tools are those of the header.\<close>

lemma delivery_system_numbers:
  "SYS_DVBC_ANNEX_A = fe_delivery_system_value Dvbc_Annex_A" "SYS_DVBC_ANNEX_B = fe_delivery_system_value Dvbc_Annex_B"
  "SYS_DVBT = fe_delivery_system_value Dvbt" "SYS_ATSC = fe_delivery_system_value Atsc"
  "SYS_DVBT2 = fe_delivery_system_value Dvbt2"
  by simp_all

lemma fe_delivery_system_inj: "fe_delivery_system_value a = fe_delivery_system_value b \<longleftrightarrow> a = b"
  by (cases a; cases b) simp_all

lemma parse_delsys_system:
  "parse_delsys s = Some v \<longleftrightarrow>
     (s, v) \<in> {(''dvbt'', fe_delivery_system_value Dvbt), (''dvbt2'', fe_delivery_system_value Dvbt2),
              (''dvbc'', fe_delivery_system_value Dvbc_Annex_A), (''atsc'', fe_delivery_system_value Atsc)}"
  by (auto simp: parse_delsys_def)

lemma tune_cache_values:
  "dp_modulation (tune_cache p c) = fe_modulation_value Qam_Auto"
  "dp_inversion (tune_cache p c) = fe_inversion_value Inversion_Auto"
  by (simp_all add: tune_cache_def QAM_AUTO_def INVERSION_AUTO_def)

end
