(* ===== verification/Spec2Isabelle.thy ===== *)
theory Spec2Isabelle
  imports Stream_Race Evt_Race Em28xx_Bridge Dib0700_Bridge Dvbsky_Bridge Boards Hotplug Pid_Dump
    Engine_Theorems Engine_Slots Engine_Failure Firmware Dump_Run Kernel_Shim Ts_Pipeline Watch_Race Int_Log Frontend_Api
begin

text \<open>
  A verification development for \<open>dvb-libusb\<close>: DVB tuners driven from user space over libusb, with the
  Linux chip drivers compiled against a small imitation of the kernel. The development models the C
  code of the repository and proves what makes its parts correct.

  \<^bold>\<open>The program.\<close> From the bottom up:
  \<^item> \<open>usbq\<close> wraps libusb: a reference-counted library, opening and enumerating, synchronous transfers,
    one event thread with a reference count, and streams (a pool of bulk transfers whose completions
    feed a byte ring).
  \<^item> \<open>linuxdvbkpi\<close> is the imitation of the kernel: the i2c core with its driver registry and mux,
    register maps, firmware loading, error pointers and other helpers.
  \<^item> A bridge (\<open>bridges/{em28xx,dib0700,dvbsky}/bridge\<close>) speaks one USB chip's protocol over \<open>usbq\<close> and
    offers an i2c adapter.
  \<^item> An engine (\<open>bridges/*/dvb\<close>) recognises boards by their ids, brings them up, binds the chip drivers on
    the bridge's adapter, and publishes one handle per frontend (\<open>dvb_handle\<close>): tune, read the status,
    read the transport stream.
  \<^item> \<open>dvb_hotplug\<close> filters libusb's arrivals and departures into a bounded queue.
  \<^item> The tools list and watch the devices (\<open>dvb_devices\<close>) and dump filtered streams (\<open>dvb_pid_dump\<close>).

  \<^bold>\<open>How it is modelled.\<close> What is outside the program (libusb, kernel, clock, hardware) is a \<open>host\<close>: a
  function from the history of requests to the response to the last one. Code that talks to it threads the
  history, the \<open>wire\<close>, as its last argument. The theorems quantify over the hosts; documented behaviour that
  a property relies on is a named hypothesis, shown satisfiable by a witness. The chip drivers are fetched
  at build time and are not in the repository: they are the parameters \<open>chips\<close> and the operations of a
  frontend, with hypotheses such as \<open>chips_tame\<close> (a driver neither opens nor closes USB devices).
  C status codes are integers with the code's own values, checked pointers are options, fixed-width
  integers are words, structures are records.

  \<^bold>\<open>The theories.\<close>
  \<^item> \<open>Prelude\<close>: widths, errno values, \<open>memcpy\<close>, lemmas on lists and words. \<open>Bounded_Fifo\<close>: the contract of a
    queue that overwrites its oldest entries, as a locale, proved for whole runs.
  \<^item> \<open>Usb_Wire\<close> and \<open>Usbq_Lib\<close> (\<open>usbq/src/usbq.c\<close>): requests and responses, synchronous transfers, \<open>usbq_init\<close>,
    \<open>usbq_open\<close>, \<open>usbq_enumerate\<close>, the references of library and event thread.
  \<^item> \<open>Usbq_Ring\<close> (\<open>ring_push_locked\<close> and the reading side; interprets \<open>bounded_fifo\<close>), \<open>Usbq_Stream\<close>
    (\<open>stream_xfer_cb\<close>, open, read, flush, restart, close), \<open>Stream_Race\<close> (the event thread and a caller
    interleaved as a step relation over the same sections). \<open>Evt_Race\<close>: the event thread's start and end under concurrent
    \<open>usbq_evt_acquire\<close> and \<open>usbq_evt_release\<close>.
  \<^item> \<open>I2c_Core\<close> (\<open>i2c.c\<close>, \<open>i2c_mux.c\<close>, \<open>regmap.c\<close>): transfers, registry, clients, mux, register maps, and the
    locale \<open>i2c_master\<close>, the contract between an adapter and what runs above it. \<open>Firmware\<close> (\<open>firmware.c\<close>).
    \<open>Kernel_Shim\<close> (\<open>linux/err.h\<close>, \<open>kernel.h\<close>, \<open>jiffies.h\<close>, \<open>delay.h\<close>, \<open>dvb_debug.h\<close>). \<open>Int_Log\<close> (\<open>intlog.c\<close>).
    \<open>Frontend_Api\<close> (the enumerations of \<open>media/dvb_frontend.h\<close>, against the numbers the rest uses).
  \<^item> \<open>Em28xx_Bridge\<close>, \<open>Dib0700_Bridge\<close>, \<open>Dvbsky_Bridge\<close>: the bridges, each an interpretation of \<open>i2c_master\<close>.
  \<^item> \<open>Dvb_Handle\<close> (\<open>dvb_handle.h\<close>), \<open>Boards\<close> (the three \<open>boards.c\<close>: tables, attach, bring-up).
  \<^item> \<open>Engine_Core\<close> (the code \<open>dvb_em28xx.c\<close>, \<open>dvb_dib0700.c\<close> and \<open>dvb_dvbsky.c\<close> share), \<open>Engines\<close> (the three instances
    with what differs), \<open>Handle_Log\<close> (which USB handles a run holds), \<open>Engine_Safety\<close> (the locale \<open>usb_engine\<close>),
    \<open>Engine_Run\<close> (runs of any calls), \<open>Engine_Theorems\<close> (the interpretations and their properties),
    \<open>Engine_Slots\<close> (the fixed arrays the frontends live in; the locale \<open>usb_slots\<close> extends \<open>usb_engine\<close>),
    \<open>Engine_Bench\<close> (a concrete device on which the hypotheses hold), \<open>Engine_Failure\<close> (a concrete board whose second
    frontend fails). A handle carries its engine and the address of its frontend: the number of the device, in
    the order the engine opened them, and the place in the device's array.
  \<^item> \<open>Hotplug\<close> (\<open>dvb_hotplug.c\<close>; its queue interprets \<open>bounded_fifo\<close>).
  \<^item> \<open>Tool_Text\<close> (what the tools print), \<open>Pid_Dump\<close> and \<open>Dump_Main\<close> (\<open>tools/dvb_pid_dump.c\<close>: parsing, framing and
    filtering; \<open>main\<close> over the three engines), \<open>Dump_Run\<close> (runs of that \<open>main\<close> on the concrete device, and its
    properties), \<open>Dvb_Devices\<close> (\<open>tools/dvb_devices.c\<close>).
  \<^item> Two compositions as step relations: \<open>Ts_Pipeline\<close> (the event thread of \<open>Stream_Race\<close> against the dumper's reads and
    framing, from the USB completions to the file) and \<open>Watch_Race\<close> (the watcher's loop against its signal handler and
    the hotplug callback, over the queue and the wake pipe).

  \<^bold>\<open>What is shown.\<close>
  \<^item> Streams: the ring delivers a subsequence of what was pushed, and all of it without overflow; a failing open leaks
    nothing; close and restart come to their end under libusb's documented callbacks, on any
    interleaving; a read returns the oldest bytes. The windows in which a callback outside the lock
    breaks close or restart are exhibited as reachable states.
  \<^item> The event thread: one while references are held and none otherwise, as long as no call overlaps a last release; what
    happens when one does.
  \<^item> Bridges: a transfer is exactly the frames of the documented protocol and stays in its buffers (with the one
    exception that is proved as such); register updates keep the other bits; the em28xx status poll ends;
    the firmware upload ships every record.
  \<^item> Engines: any sequence of calls ended by a shutdown closes every USB handle it opened and gives back
    every event-thread reference; what an open publishes; no device holds more frontends than its array has
    entries, and every handle leads to the entry it was made for; a tune starts with an empty ring; a whole
    open is exhibited whose failure path tears one frontend down twice and another not at all.
  \<^item> Boards and hotplug: no attach function leaves a client behind, the hotplug filter and the engines agree on
    every id, the queue is a bounded queue, start and stop are balanced.
  \<^item> Firmware: the search order, what happens to files that cannot be read (the documented \<open>-EIO\<close> is never
    returned), and no leak on any path.
  \<^item> Tools: from the transfers libusb finished to the file, every byte is read, queued, about to be pushed, counted as lost,
    or came with a failed or late transfer, and without overflow the dumper writes exactly
    the packets its filter accepts, on any interleaving; it reads within its buffer, ends when the clock advances, and
    leaves nothing open however it ends; a run is exhibited that ends with success although a write failed; the
    watcher, while it keeps up, prints every event once and in order, no wake-up of it is lost,
    a signal ends it wherever it arrives, and it gives back what it took.
  \<^item> Helpers: error pointers and the arithmetic macros, and the accuracy of \<open>intlog10\<close>.

  \<^bold>\<open>Loops and bounds.\<close> Loops that wait for the outside are \<open>partial_function (option)\<close>, with \<open>None\<close> for a run that does not
  end: the em28xx status poll, the dumper's wait for a lock and its streaming loop. Their end is proved
  separately, from a clock that advances over a sleep or a bounded number of reads. A wait for completions
  consumes a list of the completions that come, any list; it has no result if they do not suffice, and
  one accepted cancellation needs one completion. A run of the watcher is a list of rounds, up to the
  signal that ends it. Every other loop is structural or has a proved measure. There is no fuel.

  \<^bold>\<open>Not modelled.\<close> The chip drivers, libusb and the C library beyond what the code relies on. Memory is not
  modelled as such: allocation can fail where the code checks it, blocks are counted in \<open>Firmware\<close> and
  \<open>Usbq_Stream\<close>, and aliasing shows up only as the identity of clients and transfers. Locks are the
  sections of \<open>Stream_Race\<close> and \<open>Evt_Race\<close>; the engines, which take no lock of their own, run one call at a time. The debug and error lines of the
  libraries are left out. A \<open>double\<close> is a real number (\<open>Int_Log\<close>). The rest of \<open>media/dvb_frontend.h\<close> is constants and layouts that
  only the chip drivers use. Headers of \<open>linuxdvbkpi\<close> that only name types, wrap \<open>malloc\<close> and \<open>pthread\<close> or define
  empty stubs have nothing to model.
\<close>

end
